(* ===== verification/Go_Prelude.thy ===== *)
theory Go_Prelude
  imports Main "HOL-Library.Word"
begin

text \<open>
  The prelude of the development: what every component shares about the Go language.

  \<^item> \<open>('e, 'a) res\<close>: the outcome of a Go call. \<open>Ok v\<close> is a call that returned
    \<open>v\<close> with a nil error, \<open>Err e\<close> one that returned the error \<open>e\<close>, and \<open>Panic\<close> one
    that panicked (an index out of range, an explicit \<^verbatim>\<open>panic\<close>). \<open>bindR\<close> is the sequencing
    \<^verbatim>\<open>x, err := f(); if err != nil { return err }\<close>.
  \<^item> machine integers: \<^verbatim>\<open>byte\<close>, \<^verbatim>\<open>uint32\<close> and \<^verbatim>\<open>uint64\<close> are words, so their arithmetic wraps;
    an \<^verbatim>\<open>int64\<close> is an \<open>int\<close> together with \<open>wrap64\<close>, the two's complement wrap-around.
  \<^item> \<^verbatim>\<open>math/big\<close>: a \<^verbatim>\<open>big.Int\<close> is an \<open>int\<close>; the operations that differ from HOL's are defined here.
  \<^item> \<^verbatim>\<open>encoding/binary\<close>: fixed-width little- and big-endian integers.
  \<^item> collections of simplification rules and a few generic list lemmas.
\<close>

named_theorems res_simps \<open>rewrite rules for the outcome type\<close>
named_theorems codec_simps \<open>rewrite rules for byte encodings\<close>

section \<open>Outcomes of Go calls\<close>

datatype ('e, 'a) res = Ok 'a | Err 'e | Panic

fun bindR :: "('e, 'a) res \<Rightarrow> ('a \<Rightarrow> ('e, 'b) res) \<Rightarrow> ('e, 'b) res" where
  "bindR (Ok x) f = f x"
| "bindR (Err e) f = Err e"
| "bindR Panic f = Panic"

text \<open>A call whose error is returned to the caller under the caller's error type.\<close>

abbreviation liftE :: "('e \<Rightarrow> 'f) \<Rightarrow> ('e, 'a) res \<Rightarrow> ('f, 'a) res" where
  "liftE f r \<equiv> map_res f id r"

fun is_ok :: "('e, 'a) res \<Rightarrow> bool" where
  "is_ok (Ok _) = True"
| "is_ok _ = False"

text \<open>\<open>guardR c e\<close> is \<^verbatim>\<open>if !c { return e }\<close>.\<close>

definition guardR :: "bool \<Rightarrow> 'e \<Rightarrow> ('e, unit) res" where
  "guardR c e = (if c then Ok () else Err e)"

text \<open>Indexing a slice: out of range panics.\<close>

definition at :: "'a list \<Rightarrow> nat \<Rightarrow> ('e, 'a) res" where
  "at xs i = (if i < length xs then Ok (xs ! i) else Panic)"

lemma bindR_Ok_iff [res_simps]:
  "bindR r f = Ok y \<longleftrightarrow> (\<exists>x. r = Ok x \<and> f x = Ok y)"
  by (cases r) auto

lemma bindR_Err_iff [res_simps]:
  "bindR r f = Err e \<longleftrightarrow> r = Err e \<or> (\<exists>x. r = Ok x \<and> f x = Err e)"
  by (cases r) auto

lemma bindR_Panic_iff [res_simps]:
  "bindR r f = Panic \<longleftrightarrow> r = Panic \<or> (\<exists>x. r = Ok x \<and> f x = Panic)"
  by (cases r) auto

lemma bindR_assoc: "bindR (bindR r f) g = bindR r (\<lambda>x. bindR (f x) g)"
  by (cases r) auto

lemma bindR_cong [fundef_cong]:
  "r = r' \<Longrightarrow> (\<And>x. r' = Ok x \<Longrightarrow> f x = g x) \<Longrightarrow> bindR r f = bindR r' g"
  by (cases r') auto

lemma liftE_Ok_iff [res_simps]: "map_res f id r = Ok y \<longleftrightarrow> r = Ok y"
  by (cases r) auto

lemma liftE_Err_iff [res_simps]: "map_res f id r = Err e \<longleftrightarrow> (\<exists>e'. r = Err e' \<and> e = f e')"
  by (cases r) auto

lemma liftE_Panic_iff [res_simps]: "map_res f id r = Panic \<longleftrightarrow> r = Panic"
  by (cases r) auto

lemma is_ok_iff [res_simps]: "is_ok r \<longleftrightarrow> (\<exists>x. r = Ok x)"
  by (cases r) auto

lemma guardR_Ok_iff [res_simps]: "guardR c e = Ok u \<longleftrightarrow> c"
  by (simp add: guardR_def)

lemma guardR_Err_iff [res_simps]: "guardR c e = Err e' \<longleftrightarrow> \<not> c \<and> e' = e"
  by (auto simp: guardR_def)

lemma guardR_Panic_iff [res_simps]: "guardR c e = Panic \<longleftrightarrow> False"
  by (simp add: guardR_def)

lemma guardR_True [simp]: "guardR True e = Ok ()"
  by (simp add: guardR_def)

lemma guardR_False [simp]: "guardR False e = Err e"
  by (simp add: guardR_def)

lemma at_Ok_iff [res_simps]: "at xs i = Ok x \<longleftrightarrow> i < length xs \<and> x = xs ! i"
  by (auto simp: at_def)

lemma at_Err_iff [res_simps]: "at xs i = Err e \<longleftrightarrow> False"
  by (simp add: at_def)

lemma at_Panic_iff [res_simps]: "at xs i = Panic \<longleftrightarrow> length xs \<le> i"
  by (auto simp: at_def)

lemma at_in_range [simp]: "i < length xs \<Longrightarrow> at xs i = Ok (xs ! i)"
  by (simp add: at_def)

text \<open>A property of the value when the call succeeds, with a rule for each way code is composed.\<close>

definition okR :: "('a \<Rightarrow> bool) \<Rightarrow> ('e, 'a) res \<Rightarrow> bool" where
  "okR P r \<longleftrightarrow> (\<forall>x. r = Ok x \<longrightarrow> P x)"

named_theorems okR_intros \<open>rules for properties of successful calls\<close>

lemma okR_Ok [okR_intros]: "P x \<Longrightarrow> okR P (Ok x)"
  by (simp add: okR_def)

lemma okR_Err [okR_intros]: "okR P (Err e)"
  by (simp add: okR_def)

lemma okR_Panic [okR_intros]: "okR P Panic"
  by (simp add: okR_def)

lemma okR_bind [okR_intros]: "(\<And>x. r = Ok x \<Longrightarrow> okR P (f x)) \<Longrightarrow> okR P (bindR r f)"
  by (cases r) (auto simp: okR_def)

lemma okR_if [okR_intros]: "(c \<Longrightarrow> okR P a) \<Longrightarrow> (\<not> c \<Longrightarrow> okR P b) \<Longrightarrow> okR P (if c then a else b)"
  by simp

lemma okR_option [okR_intros]:
  "(x = None \<Longrightarrow> okR P a) \<Longrightarrow> (\<And>y. x = Some y \<Longrightarrow> okR P (f y)) \<Longrightarrow> okR P (case x of None \<Rightarrow> a | Some y \<Rightarrow> f y)"
  by (cases x) auto

lemma okR_prod [okR_intros]: "(\<And>a b. x = (a, b) \<Longrightarrow> okR P (f a b)) \<Longrightarrow> okR P (case x of (a, b) \<Rightarrow> f a b)"
  by (cases x) auto

lemma okR_let [okR_intros]: "okR P (f x) \<Longrightarrow> okR P (let y = x in f y)"
  by simp

lemma okR_weaken: "okR P r \<Longrightarrow> (\<And>x. P x \<Longrightarrow> Q x) \<Longrightarrow> okR Q r"
  by (simp add: okR_def)

lemma okRD: "okR P r \<Longrightarrow> r = Ok x \<Longrightarrow> P x"
  by (simp add: okR_def)

text \<open>A \<^verbatim>\<open>range\<close> loop whose body may return early: the accumulator is the loop's state.\<close>

fun foldR :: "('a \<Rightarrow> 's \<Rightarrow> ('e, 's) res) \<Rightarrow> 'a list \<Rightarrow> 's \<Rightarrow> ('e, 's) res" where
  "foldR f [] s = Ok s"
| "foldR f (x # xs) s = bindR (f x s) (foldR f xs)"

lemma foldR_append: "foldR f (xs @ ys) s = bindR (foldR f xs s) (foldR f ys)"
proof (induction xs arbitrary: s)
  case (Cons x xs)
  then show ?case by (cases "f x s") auto
qed simp

lemma foldR_invariant:
  assumes "foldR f xs s = Ok s'" and "P s"
    and "\<And>x s s'. x \<in> set xs \<Longrightarrow> P s \<Longrightarrow> f x s = Ok s' \<Longrightarrow> P s'"
  shows "P s'"
  using assms by (induction xs arbitrary: s) (auto simp: res_simps)

section \<open>Machine integers\<close>

type_synonym byte = "8 word"
type_synonym u32 = "32 word"
type_synonym u64 = "64 word"

lemma unat_byte_less: "unat (b :: byte) < 256"
  using unsigned_less [where 'a = nat and w = b] by simp

lemma unat_u32_less: "unat (x :: u32) < 4294967296"
  using unsigned_less [where 'a = nat and w = x] by simp

lemma unat_u64_less: "unat (x :: u64) < 18446744073709551616"
  using unsigned_less [where 'a = nat and w = x] by simp

text \<open>The value an \<^verbatim>\<open>int64\<close> or \<^verbatim>\<open>int32\<close> computation leaves in its register.\<close>

definition wrap64 :: "int \<Rightarrow> int" where
  "wrap64 x = (x + 2 ^ 63) mod 2 ^ 64 - 2 ^ 63"

definition wrap32 :: "int \<Rightarrow> int" where
  "wrap32 x = (x + 2 ^ 31) mod 2 ^ 32 - 2 ^ 31"

definition int64 :: "int \<Rightarrow> bool" where
  "int64 x \<longleftrightarrow> - (2 ^ 63) \<le> x \<and> x < 2 ^ 63"

lemma wrap64_id: "int64 x \<Longrightarrow> wrap64 x = x"
  by (simp add: int64_def wrap64_def)

lemma wrap64_range: "int64 (wrap64 x)"
  by (simp add: int64_def wrap64_def)

lemma sint_word64: "int64 x \<Longrightarrow> sint (word_of_int x :: u64) = x"
  by (simp add: signed_of_int signed_take_bit_int_eq_self int64_def)

lemma int64_uint: "uint (r :: u64) < 2 ^ 63 \<Longrightarrow> int64 (uint r) \<and> int64 (- uint r)"
  using uint_ge_0 [of r] unfolding int64_def by linarith

lemma sint_small: "uint (r :: u64) < 2 ^ 63 \<Longrightarrow> sint r = uint r"
  using sint_word64 [of "uint r"] int64_uint [of r] by simp

lemma sint_uminus_small: "uint (r :: u64) < 2 ^ 63 \<Longrightarrow> sint (- r) = - uint r"
  using sint_word64 [of "- uint r"] int64_uint [of r] by simp

lemma uint_word64: "0 \<le> x \<Longrightarrow> x < 2 ^ 64 \<Longrightarrow> uint (word_of_int x :: u64) = x"
  by (simp add: unsigned_of_int take_bit_int_eq_self)

text \<open>Division of signed integers: Go truncates towards zero.\<close>

definition quo :: "int \<Rightarrow> int \<Rightarrow> int" where
  "quo a b = sgn a * sgn b * (\<bar>a\<bar> div \<bar>b\<bar>)"

section \<open>Arbitrary precision integers\<close>

text \<open>\<^verbatim>\<open>big.Int\<close>: \<^verbatim>\<open>Div\<close> and \<^verbatim>\<open>Mod\<close> are Euclidean, \<^verbatim>\<open>Exp\<close> with a nil modulus and a
  non-positive exponent is 1, \<^verbatim>\<open>BitLen\<close> is the length of the absolute value.\<close>

definition big_Div :: "int \<Rightarrow> int \<Rightarrow> int" where
  "big_Div x y = (if y < 0 then - (x div (- y)) else x div y)"

definition big_Mod :: "int \<Rightarrow> int \<Rightarrow> int" where
  "big_Mod x y = x mod \<bar>y\<bar>"

definition big_Exp :: "int \<Rightarrow> int \<Rightarrow> int" where
  "big_Exp x y = (if y \<le> 0 then 1 else x ^ nat y)"

definition big_Rsh :: "int \<Rightarrow> nat \<Rightarrow> int" where
  "big_Rsh x n = x div 2 ^ n"

fun bit_len :: "nat \<Rightarrow> nat" where
  "bit_len n = (if n = 0 then 0 else Suc (bit_len (n div 2)))"

declare bit_len.simps [simp del]

definition big_BitLen :: "int \<Rightarrow> nat" where
  "big_BitLen x = bit_len (nat \<bar>x\<bar>)"

definition big_Cmp :: "int \<Rightarrow> int \<Rightarrow> int" where
  "big_Cmp x y = (if x < y then - 1 else if x = y then 0 else 1)"

lemma bit_len_le_iff: "bit_len n \<le> k \<longleftrightarrow> n < 2 ^ k"
proof (induction n arbitrary: k rule: bit_len.induct)
  case (1 n)
  show ?case
  proof (cases "n = 0")
    case True
    then show ?thesis by (simp add: bit_len.simps)
  next
    case False
    show ?thesis
    proof (cases k)
      case 0
      with False show ?thesis by (simp add: bit_len.simps [of n])
    next
      case (Suc j)
      have "bit_len (n div 2) \<le> j \<longleftrightarrow> n div 2 < 2 ^ j"
        using "1.IH" False by blast
      with False Suc show ?thesis
        by (simp add: bit_len.simps [of n] div_less_iff_less_mult mult.commute)
    qed
  qed
qed

lemma big_BitLen_le_iff: "0 \<le> x \<Longrightarrow> big_BitLen x \<le> k \<longleftrightarrow> x < 2 ^ k"
  by (simp add: big_BitLen_def bit_len_le_iff nat_less_iff)

section \<open>Fixed-width encodings\<close>

text \<open>\<open>put_le k n\<close> are the \<open>k\<close> low bytes of \<open>n\<close>, least significant first; \<open>le_val\<close> reads them back.\<close>

fun put_le :: "nat \<Rightarrow> nat \<Rightarrow> byte list" where
  "put_le 0 n = []"
| "put_le (Suc k) n = word_of_nat (n mod 256) # put_le k (n div 256)"

fun le_val :: "byte list \<Rightarrow> nat" where
  "le_val [] = 0"
| "le_val (b # bs) = unat b + 256 * le_val bs"

definition put_be :: "nat \<Rightarrow> nat \<Rightarrow> byte list" where
  "put_be k n = rev (put_le k n)"

definition be_val :: "byte list \<Rightarrow> nat" where
  "be_val bs = le_val (rev bs)"

lemma length_put_le [simp, codec_simps]: "length (put_le k n) = k"
  by (induction k n rule: put_le.induct) auto

lemma length_put_be [simp, codec_simps]: "length (put_be k n) = k"
  by (simp add: put_be_def)

lemma le_val_put_le [codec_simps]: "le_val (put_le k n) = n mod 256 ^ k"
proof (induction k n rule: put_le.induct)
  case (2 k n)
  have "unat (word_of_nat (n mod 256) :: byte) = n mod 256"
    by (simp add: unat_of_nat)
  with 2 show ?case
    by (simp add: mod_mult2_eq mult.commute)
qed auto

lemma le_val_less: "le_val bs < 256 ^ length bs"
proof (induction bs)
  case (Cons b bs)
  have "unat b < 256" by (rule unat_byte_less)
  with Cons show ?case by simp
qed simp

lemma put_le_le_val [codec_simps]: "put_le (length bs) (le_val bs) = bs"
proof (induction bs)
  case (Cons b bs)
  have "unat b < 256" by (rule unat_byte_less)
  with Cons show ?case by simp
qed simp

lemma be_val_put_be [codec_simps]: "be_val (put_be k n) = n mod 256 ^ k"
  by (simp add: be_val_def put_be_def le_val_put_le)

lemma put_be_be_val [codec_simps]: "put_be (length bs) (be_val bs) = bs"
  using put_le_le_val [of "rev bs"] by (simp add: be_val_def put_be_def)

lemma le_val_append: "le_val (xs @ ys) = le_val xs + 256 ^ length xs * le_val ys"
  by (induction xs) (auto simp: algebra_simps)

lemma be_val_less: "be_val bs < 256 ^ length bs"
  using le_val_less [of "rev bs"] by (simp add: be_val_def)

lemma be_val_Cons: "be_val (b # bs) = unat b * 256 ^ length bs + be_val bs"
  by (simp add: be_val_def le_val_append)

lemma be_val_Nil [simp]: "be_val [] = 0"
  by (simp add: be_val_def)

text \<open>\<^verbatim>\<open>binary.LittleEndian\<close> and \<^verbatim>\<open>binary.BigEndian\<close>: reading a slice that is too short panics.\<close>

definition le_PutUint64 :: "u64 \<Rightarrow> byte list" where
  "le_PutUint64 x = put_le 8 (unat x)"

definition le_Uint64 :: "byte list \<Rightarrow> ('e, u64) res" where
  "le_Uint64 bs = (if length bs < 8 then Panic else Ok (word_of_nat (le_val (take 8 bs))))"

definition le_PutUint32 :: "u32 \<Rightarrow> byte list" where
  "le_PutUint32 x = put_le 4 (unat x)"

definition le_Uint32 :: "byte list \<Rightarrow> ('e, u32) res" where
  "le_Uint32 bs = (if length bs < 4 then Panic else Ok (word_of_nat (le_val (take 4 bs))))"

definition be_PutUint64 :: "u64 \<Rightarrow> byte list" where
  "be_PutUint64 x = put_be 8 (unat x)"

definition be_Uint64 :: "byte list \<Rightarrow> ('e, u64) res" where
  "be_Uint64 bs = (if length bs < 8 then Panic else Ok (word_of_nat (be_val (take 8 bs))))"

definition be_PutUint32 :: "u32 \<Rightarrow> byte list" where
  "be_PutUint32 x = put_be 4 (unat x)"

definition be_Uint32 :: "byte list \<Rightarrow> ('e, u32) res" where
  "be_Uint32 bs = (if length bs < 4 then Panic else Ok (word_of_nat (be_val (take 4 bs))))"

lemma length_PutUint [simp]:
  "length (le_PutUint64 x) = 8" "length (le_PutUint32 y) = 4"
  "length (be_PutUint64 x) = 8" "length (be_PutUint32 y) = 4"
  by (simp_all add: le_PutUint64_def le_PutUint32_def be_PutUint64_def be_PutUint32_def)

lemma unat_u64_mod [simp]: "unat (x :: u64) mod 18446744073709551616 = unat x"
  using unat_u64_less [of x] by simp

lemma unat_u32_mod [simp]: "unat (x :: u32) mod 4294967296 = unat x"
  using unat_u32_less [of x] by simp

lemma le_Uint64_Put [codec_simps]: "le_Uint64 (le_PutUint64 x @ ys) = Ok x"
  by (simp add: le_Uint64_def le_PutUint64_def le_val_put_le)

lemma le_Uint32_Put [codec_simps]: "le_Uint32 (le_PutUint32 x @ ys) = Ok x"
  by (simp add: le_Uint32_def le_PutUint32_def le_val_put_le)

lemma be_Uint64_Put [codec_simps]: "be_Uint64 (be_PutUint64 x @ ys) = Ok x"
  by (simp add: be_Uint64_def be_PutUint64_def be_val_put_be)

lemma be_Uint32_Put [codec_simps]: "be_Uint32 (be_PutUint32 x @ ys) = Ok x"
  by (simp add: be_Uint32_def be_PutUint32_def be_val_put_be)

lemma le_Uint64_Put_only [simp]: "le_Uint64 (le_PutUint64 x) = Ok x"
  using le_Uint64_Put [of x "[]"] by simp

lemma le_PutUint64_inj [simp]: "le_PutUint64 x = le_PutUint64 y \<longleftrightarrow> x = y"
  using le_Uint64_Put [of x "[]"] le_Uint64_Put [of y "[]"] by (metis append_Nil2 res.inject(1))

lemma le_PutUint32_inj [simp]: "le_PutUint32 x = le_PutUint32 y \<longleftrightarrow> x = y"
  using le_Uint32_Put [of x "[]"] le_Uint32_Put [of y "[]"] by (metis append_Nil2 res.inject(1))

text \<open>\<^verbatim>\<open>bytes.Compare\<close>: lexicographic comparison.\<close>

fun bytes_Compare :: "byte list \<Rightarrow> byte list \<Rightarrow> int" where
  "bytes_Compare [] [] = 0"
| "bytes_Compare [] (y # ys) = - 1"
| "bytes_Compare (x # xs) [] = 1"
| "bytes_Compare (x # xs) (y # ys) = (if x < y then - 1 else if y < x then 1 else bytes_Compare xs ys)"

section \<open>Decimal text\<close>

fun nat_text :: "nat \<Rightarrow> string" where
  "nat_text n = (if n < 10 then [char_of (48 + n)] else nat_text (n div 10) @ [char_of (48 + n mod 10)])"

declare nat_text.simps [simp del]

section \<open>Lists\<close>

lemma drop_nth_Cons: "i < length xs \<Longrightarrow> drop i xs = xs ! i # drop (Suc i) xs"
  by (simp add: Cons_nth_drop_Suc)

lemma sum_list_nonneg_le:
  fixes xs :: "int list"
  assumes "\<forall>x\<in>set xs. 0 \<le> x" and "x \<in> set xs"
  shows "x \<le> sum_list xs"
  using assms
proof (induction xs)
  case (Cons a xs)
  have "0 \<le> sum_list xs" using Cons.prems(1) by (simp add: sum_list_nonneg)
  with Cons show ?case by auto
qed simp

end
