(* ===== verification/Uint128.thy ===== *)
theory Uint128
  imports Go_Prelude
begin

text \<open>
  \<^verbatim>\<open>massutil/safetype/uint128.go\<close>: 128-bit unsigned integers with checked arithmetic on top of
  \<^verbatim>\<open>big.Int\<close>. \<open>Uint128 v\<close> is the struct with its field \<^verbatim>\<open>value\<close>; \<open>Validate\<close> is the range check every
  operation runs on its result. The theory shows that every operation computes the mathematical
  result exactly when that result is in range and reports the right error otherwise, that results
  are valid, and that the byte and the decimal representation can be read back. The locale
  \<open>safe_accumulator\<close> is the interface the callers use: a checked sum over a list.
\<close>

section \<open>The type\<close>

datatype uint128_error =
    ErrUint128Overflow
  | ErrUint128Underflow
  | ErrUint128InvalidBytes
  | ErrUint128InvalidString
  | ErrUint128DividedByZero

datatype uint128 = Uint128 (u_value: int)

instantiation uint128 :: linorder
begin

definition less_eq_uint128 :: "uint128 \<Rightarrow> uint128 \<Rightarrow> bool" where
  "less_eq_uint128 u x \<longleftrightarrow> u_value u \<le> u_value x"

definition less_uint128 :: "uint128 \<Rightarrow> uint128 \<Rightarrow> bool" where
  "less_uint128 u x \<longleftrightarrow> u_value u < u_value x"

instance
  by standard (auto simp: less_eq_uint128_def less_uint128_def uint128.expand)

end

definition Uint128_Validate :: "uint128 \<Rightarrow> (uint128_error, unit) res" where
  "Uint128_Validate u =
    (if u_value u < 0 then Err ErrUint128Underflow
     else if big_BitLen (u_value u) > 128 then Err ErrUint128Overflow
     else Ok ())"

text \<open>Build the struct, validate it, return it: the tail that every checked operation shares.\<close>

definition validated :: "int \<Rightarrow> (uint128_error, uint128) res" where
  "validated v = bindR (Uint128_Validate (Uint128 v)) (\<lambda>_. Ok (Uint128 v))"

section \<open>Constructors and accessors\<close>

definition NewUint128 :: uint128 where
  "NewUint128 = Uint128 0"

text \<open>\<^verbatim>\<open>big.Int.SetString(s, 10)\<close>: an optional sign and at least one decimal digit, nothing else.\<close>

definition is_digit :: "char \<Rightarrow> bool" where
  "is_digit c \<longleftrightarrow> 48 \<le> (of_char c :: nat) \<and> (of_char c :: nat) \<le> 57"

definition dec_val :: "string \<Rightarrow> nat" where
  "dec_val s = foldl (\<lambda>n c. 10 * n + (of_char c - 48)) 0 s"

definition digits_val :: "string \<Rightarrow> nat option" where
  "digits_val s = (if s \<noteq> [] \<and> list_all is_digit s then Some (dec_val s) else None)"

definition big_SetString :: "string \<Rightarrow> int option" where
  "big_SetString s =
    (case s of
       [] \<Rightarrow> None
     | c # cs \<Rightarrow>
         if c = CHR ''-'' then map_option (\<lambda>n. - int n) (digits_val cs)
         else if c = CHR ''+'' then map_option int (digits_val cs)
         else map_option int (digits_val s))"

definition big_Text :: "int \<Rightarrow> string" where
  "big_Text x = (if x < 0 then CHR ''-'' # nat_text (nat (- x)) else nat_text (nat x))"

definition NewUint128FromString :: "string \<Rightarrow> (uint128_error, uint128) res" where
  "NewUint128FromString str =
    (case big_SetString str of
       None \<Rightarrow> Err ErrUint128InvalidString
     | Some b \<Rightarrow> bindR (Uint128_Validate (Uint128 b)) (\<lambda>_. Ok (Uint128 b)))"

definition NewUint128FromUint :: "u64 \<Rightarrow> uint128" where
  "NewUint128FromUint i = Uint128 (uint i)"

definition NewUint128FromInt :: "int \<Rightarrow> (uint128_error, uint128) res" where
  "NewUint128FromInt i = validated i"

definition NewUint128FromBigInt :: "int \<Rightarrow> (uint128_error, uint128) res" where
  "NewUint128FromBigInt i = validated i"

text \<open>The loop over the bytes: the first non-zero byte starts the big-endian value.\<close>

fun setBytes_loop :: "byte list \<Rightarrow> int" where
  "setBytes_loop [] = 0"
| "setBytes_loop (b # bs) = (if b \<noteq> 0 then int (be_val (b # bs)) else setBytes_loop bs)"

definition NewUint128FromBytes :: "byte list \<Rightarrow> (uint128_error, uint128) res" where
  "NewUint128FromBytes bytes =
    (if length bytes > 16 then Err ErrUint128InvalidBytes
     else Ok (Uint128 (setBytes_loop bytes)))"

text \<open>\<^verbatim>\<open>big.Int.Bytes\<close>: the absolute value, big-endian, without leading zero bytes.\<close>

fun nat_bytes :: "nat \<Rightarrow> byte list" where
  "nat_bytes n = (if n = 0 then [] else nat_bytes (n div 256) @ [word_of_nat (n mod 256)])"

declare nat_bytes.simps [simp del]

definition Uint128_AbsBytes :: "uint128 \<Rightarrow> byte list" where
  "Uint128_AbsBytes u = nat_bytes (nat \<bar>u_value u\<bar>)"

text \<open>The copy into the fixed array; \<^verbatim>\<open>ret[16-l:]\<close> panics when \<open>l > 16\<close>.\<close>

definition Uint128_Bytes :: "uint128 \<Rightarrow> (uint128_error, byte list) res" where
  "Uint128_Bytes u =
    (let bs = Uint128_AbsBytes u; l = length bs in
     if l > 0 then (if l > 16 then Panic else Ok (replicate (16 - l) 0 @ bs))
     else Ok (replicate 16 0))"

definition Uint128_String :: "uint128 \<Rightarrow> string" where
  "Uint128_String u = big_Text (u_value u)"

section \<open>Comparisons\<close>

definition Uint128_Cmp :: "uint128 \<Rightarrow> uint128 \<Rightarrow> int" where
  "Uint128_Cmp u x = big_Cmp (u_value u) (u_value x)"

definition Uint128_Gt :: "uint128 \<Rightarrow> uint128 \<Rightarrow> bool" where
  "Uint128_Gt u x \<longleftrightarrow> Uint128_Cmp u x > 0"

definition Uint128_Ge :: "uint128 \<Rightarrow> uint128 \<Rightarrow> bool" where
  "Uint128_Ge u x \<longleftrightarrow> Uint128_Cmp u x \<ge> 0"

definition Uint128_Lt :: "uint128 \<Rightarrow> uint128 \<Rightarrow> bool" where
  "Uint128_Lt u x \<longleftrightarrow> Uint128_Cmp u x < 0"

definition Uint128_Le :: "uint128 \<Rightarrow> uint128 \<Rightarrow> bool" where
  "Uint128_Le u x \<longleftrightarrow> Uint128_Cmp u x \<le> 0"

definition Uint128_Eq :: "uint128 \<Rightarrow> uint128 \<Rightarrow> bool" where
  "Uint128_Eq u x \<longleftrightarrow> Uint128_Cmp u x = 0"

definition Uint128_IsZero :: "uint128 \<Rightarrow> bool" where
  "Uint128_IsZero u \<longleftrightarrow> sgn (u_value u) = 0"

definition maxUint64 :: uint128 where
  "maxUint64 = NewUint128FromUint 0xffffffffffffffff"

definition maxInt64 :: uint128 where
  "maxInt64 = NewUint128FromUint (2 ^ 63 - 1)"

definition Uint128_UintValue :: "uint128 \<Rightarrow> (uint128_error, u64) res" where
  "Uint128_UintValue u =
    (if Uint128_Gt u maxUint64 then Panic else Ok (word_of_int (u_value u)))"

definition Uint128_IntValue :: "uint128 \<Rightarrow> (uint128_error, int) res" where
  "Uint128_IntValue u =
    (if Uint128_Gt u maxInt64 then Panic else Ok (wrap64 (u_value u)))"

section \<open>Arithmetic\<close>

definition Uint128_Add :: "uint128 \<Rightarrow> uint128 \<Rightarrow> (uint128_error, uint128) res" where
  "Uint128_Add u x = validated (u_value u + u_value x)"

definition Uint128_AddInt :: "uint128 \<Rightarrow> int \<Rightarrow> (uint128_error, uint128) res" where
  "Uint128_AddInt u i = bindR (NewUint128FromInt i) (Uint128_Add u)"

definition Uint128_AddUint :: "uint128 \<Rightarrow> u64 \<Rightarrow> (uint128_error, uint128) res" where
  "Uint128_AddUint u i = Uint128_Add u (NewUint128FromUint i)"

definition Uint128_Sub :: "uint128 \<Rightarrow> uint128 \<Rightarrow> (uint128_error, uint128) res" where
  "Uint128_Sub u x = validated (u_value u - u_value x)"

definition Uint128_SubUint :: "uint128 \<Rightarrow> u64 \<Rightarrow> (uint128_error, uint128) res" where
  "Uint128_SubUint u x = Uint128_Sub u (NewUint128FromUint x)"

definition Uint128_Mul :: "uint128 \<Rightarrow> uint128 \<Rightarrow> (uint128_error, uint128) res" where
  "Uint128_Mul u x = validated (u_value u * u_value x)"

definition Uint128_MulInt :: "uint128 \<Rightarrow> int \<Rightarrow> (uint128_error, uint128) res" where
  "Uint128_MulInt u i = bindR (NewUint128FromInt i) (Uint128_Mul u)"

definition Uint128_Div :: "uint128 \<Rightarrow> uint128 \<Rightarrow> (uint128_error, uint128) res" where
  "Uint128_Div u x =
    (if Uint128_IsZero x then Err ErrUint128DividedByZero
     else validated (big_Div (u_value u) (u_value x)))"

definition Uint128_DivInt :: "uint128 \<Rightarrow> int \<Rightarrow> (uint128_error, uint128) res" where
  "Uint128_DivInt u i = bindR (NewUint128FromInt i) (Uint128_Div u)"

definition Uint128_Mod :: "uint128 \<Rightarrow> uint128 \<Rightarrow> (uint128_error, uint128) res" where
  "Uint128_Mod u x =
    (if Uint128_IsZero x then Err ErrUint128DividedByZero
     else validated (big_Mod (u_value u) (u_value x)))"

definition Uint128_Exp :: "uint128 \<Rightarrow> uint128 \<Rightarrow> (uint128_error, uint128) res" where
  "Uint128_Exp u x = validated (big_Exp (u_value u) (u_value x))"

definition Uint128_Rsh :: "uint128 \<Rightarrow> nat \<Rightarrow> uint128" where
  "Uint128_Rsh u n = Uint128 (big_Rsh (u_value u) n)"

definition Uint128_DeepCopy :: "uint128 \<Rightarrow> uint128" where
  "Uint128_DeepCopy u = Uint128 (u_value u)"

definition Uint128_BigValue :: "uint128 \<Rightarrow> int" where
  "Uint128_BigValue u = u_value u"

section \<open>The range invariant\<close>

named_theorems u128_simps \<open>the operations of Uint128 as arithmetic with range checks\<close>

definition valid_u128 :: "uint128 \<Rightarrow> bool" where
  "valid_u128 u \<longleftrightarrow> 0 \<le> u_value u \<and> u_value u < 2 ^ 128"

lemma Validate_spec:
  "Uint128_Validate u =
    (if u_value u < 0 then Err ErrUint128Underflow
     else if u_value u \<ge> 2 ^ 128 then Err ErrUint128Overflow else Ok ())"
proof -
  have "0 \<le> u_value u \<Longrightarrow> big_BitLen (u_value u) > 128 \<longleftrightarrow> u_value u \<ge> 2 ^ 128"
    using big_BitLen_le_iff [of "u_value u" 128] by linarith
  then show ?thesis by (auto simp: Uint128_Validate_def)
qed

lemma validated_spec:
  "validated v =
    (if v < 0 then Err ErrUint128Underflow
     else if v \<ge> 2 ^ 128 then Err ErrUint128Overflow else Ok (Uint128 v))"
  by (simp add: validated_def Validate_spec)

lemma validated_Ok_iff [u128_simps]:
  "validated v = Ok u \<longleftrightarrow> 0 \<le> v \<and> v < 2 ^ 128 \<and> u = Uint128 v"
  by (auto simp: validated_spec)

lemma validated_not_Panic [simp]: "validated v \<noteq> Panic"
  by (simp add: validated_spec)

lemma validated_valid: "validated v = Ok u \<Longrightarrow> valid_u128 u"
  by (auto simp: validated_Ok_iff valid_u128_def)

lemma Cmp_simps [u128_simps]:
  "Uint128_Gt u x \<longleftrightarrow> u_value u > u_value x"
  "Uint128_Ge u x \<longleftrightarrow> u_value u \<ge> u_value x"
  "Uint128_Lt u x \<longleftrightarrow> u_value u < u_value x"
  "Uint128_Le u x \<longleftrightarrow> u_value u \<le> u_value x"
  "Uint128_Eq u x \<longleftrightarrow> u = x"
  "Uint128_IsZero u \<longleftrightarrow> u_value u = 0"
  by (auto simp: Uint128_Gt_def Uint128_Ge_def Uint128_Lt_def Uint128_Le_def Uint128_Eq_def
      Uint128_Cmp_def big_Cmp_def Uint128_IsZero_def uint128.expand sgn_0_0)

lemma AddInt_spec [u128_simps]:
  assumes "int64 i"
  shows "Uint128_AddInt u i = (if i < 0 then Err ErrUint128Underflow else validated (u_value u + i))"
  using assms
  by (auto simp: Uint128_AddInt_def NewUint128FromInt_def Uint128_Add_def validated_spec int64_def)

lemma MulInt_spec [u128_simps]:
  assumes "int64 i"
  shows "Uint128_MulInt u i = (if i < 0 then Err ErrUint128Underflow else validated (u_value u * i))"
  using assms
  by (auto simp: Uint128_MulInt_def NewUint128FromInt_def Uint128_Mul_def validated_spec int64_def)

lemma DivInt_spec [u128_simps]:
  assumes "int64 i"
  shows "Uint128_DivInt u i =
    (if i < 0 then Err ErrUint128Underflow
     else if i = 0 then Err ErrUint128DividedByZero
     else validated (u_value u div i))"
  using assms
  by (auto simp: Uint128_DivInt_def NewUint128FromInt_def Uint128_Div_def validated_spec int64_def
      big_Div_def Cmp_simps)

lemma div_le_dividend_int: "0 \<le> (a :: int) \<Longrightarrow> 0 < b \<Longrightarrow> a div b \<le> a"
  using zdiv_mono2 [of a 1 b] by simp

lemma Div_valid_spec [u128_simps]:
  assumes "valid_u128 u" "valid_u128 x"
  shows "Uint128_Div u x =
    (if u_value x = 0 then Err ErrUint128DividedByZero else Ok (Uint128 (u_value u div u_value x)))"
proof -
  have "u_value u div u_value x \<le> u_value u" if "0 < u_value x"
    using that assms by (simp add: valid_u128_def div_le_dividend_int)
  moreover have "0 \<le> u_value u div u_value x"
    using assms by (simp add: valid_u128_def div_int_pos_iff)
  ultimately show ?thesis
    using assms by (force simp: Uint128_Div_def validated_spec big_Div_def Cmp_simps valid_u128_def)
qed

section \<open>Representations\<close>

lemma be_val_snoc: "be_val (bs @ [b]) = 256 * be_val bs + unat b"
  by (simp add: be_val_def)

lemma setBytes_loop_be_val: "setBytes_loop bs = int (be_val bs)"
  by (induction bs) (auto simp: be_val_Cons)

lemma be_val_nat_bytes [simp]: "be_val (nat_bytes n) = n"
proof (induction n rule: nat_bytes.induct)
  case (1 n)
  show ?case
  proof (cases "n = 0")
    case True
    then show ?thesis by (simp add: nat_bytes.simps)
  next
    case False
    have "unat (word_of_nat (n mod 256) :: byte) = n mod 256" by (simp add: unat_of_nat)
    then show ?thesis
      using 1 False by (simp add: nat_bytes.simps [of n] be_val_snoc)
  qed
qed

lemma length_nat_bytes_le_iff: "length (nat_bytes n) \<le> k \<longleftrightarrow> n < 256 ^ k"
proof (induction n arbitrary: k rule: nat_bytes.induct)
  case (1 n)
  show ?case
  proof (cases "n = 0 \<or> k = 0")
    case True
    then show ?thesis by (cases "n = 0") (auto simp: nat_bytes.simps)
  next
    case False
    then obtain j where j: "k = Suc j" by (cases k) auto
    have "length (nat_bytes (n div 256)) \<le> j \<longleftrightarrow> n div 256 < 256 ^ j"
      using 1 False by blast
    then show ?thesis
      using False j by (simp add: nat_bytes.simps [of n] div_less_iff_less_mult mult.commute)
  qed
qed

lemma be_val_zeros [simp]: "be_val (replicate k 0 @ bs) = be_val bs"
  by (induction k) (auto simp: be_val_Cons)

lemma Uint128_Bytes_spec:
  assumes "valid_u128 u"
  shows "Uint128_Bytes u = Ok (put_be 16 (nat (u_value u)))"
proof -
  let ?n = "nat (u_value u)" and ?bs = "nat_bytes (nat (u_value u))"
  have "?n < 256 ^ 16" using assms by (simp add: valid_u128_def nat_less_iff)
  then have l: "length ?bs \<le> 16" by (simp only: length_nat_bytes_le_iff)
  let ?r = "replicate (16 - length ?bs) 0 @ ?bs"
  have "put_be (length ?r) (be_val ?r) = ?r" by (rule put_be_be_val)
  with l have "?r = put_be 16 ?n" by simp
  with l assms show ?thesis
    by (auto simp: Uint128_Bytes_def Uint128_AbsBytes_def Let_def valid_u128_def)
qed

lemma foldl_dec_append: "dec_val (s @ [c]) = 10 * dec_val s + (of_char c - 48)"
  by (simp add: dec_val_def)

lemma digits_nat_text: "nat_text n \<noteq> [] \<and> list_all is_digit (nat_text n) \<and> dec_val (nat_text n) = n"
proof (induction n rule: nat_text.induct)
  case (1 n)
  have d: "is_digit (char_of (48 + m))" "of_char (char_of (48 + m)) - 48 = m" if "m < (10 :: nat)" for m
    using that by (auto simp: is_digit_def)
  show ?case
  proof (cases "n < 10")
    case True
    with d [of n] show ?thesis by (simp add: nat_text.simps dec_val_def)
  next
    case False
    with 1 d [of "n mod 10"] show ?thesis
      by (simp add: nat_text.simps [of n] foldl_dec_append)
  qed
qed

lemma is_digit_not_sign: "is_digit c \<Longrightarrow> c \<noteq> CHR ''-'' \<and> c \<noteq> CHR ''+''"
  by (auto simp: is_digit_def)

lemma big_SetString_nat_text: "big_SetString (nat_text n) = Some (int n)"
  using digits_nat_text [of n] is_digit_not_sign
  by (cases "nat_text n") (auto simp: big_SetString_def digits_val_def)

section \<open>The interface of a checked sum\<close>

text \<open>What a caller that adds up a list relies on: adding an item \<open>x\<close> of weight \<open>amt x\<close> to the
  total \<open>mk n\<close> succeeds exactly when the weight is not negative and the sum is within the
  bound, and fails with an error, never a panic, otherwise.\<close>

locale safe_accumulator =
  fixes mk :: "int \<Rightarrow> 'u"
    and amt :: "'x \<Rightarrow> int"
    and wf :: "'x \<Rightarrow> bool"
    and bound :: int
    and add :: "'u \<Rightarrow> 'x \<Rightarrow> ('e, 'u) res"
  assumes add_Ok: "wf x \<Longrightarrow> 0 \<le> n \<Longrightarrow> n \<le> bound \<Longrightarrow>
      add (mk n) x = Ok v \<longleftrightarrow> 0 \<le> amt x \<and> n + amt x \<le> bound \<and> v = mk (n + amt x)"
    and add_no_panic: "wf x \<Longrightarrow> 0 \<le> n \<Longrightarrow> n \<le> bound \<Longrightarrow> add (mk n) x \<noteq> Panic"
begin

lemma total_Ok:
  assumes "\<forall>x\<in>set xs. wf x" and "0 \<le> n" "n \<le> bound"
  shows "foldR (\<lambda>x t. add t x) xs (mk n) = Ok v \<longleftrightarrow>
    (\<forall>x\<in>set xs. 0 \<le> amt x) \<and> n + (\<Sum>x\<leftarrow>xs. amt x) \<le> bound \<and> v = mk (n + (\<Sum>x\<leftarrow>xs. amt x))"
  using assms
proof (induction xs arbitrary: n)
  case (Cons x xs)
  have sum_nn: "0 \<le> (\<Sum>x\<leftarrow>xs. amt x)" if "\<forall>x\<in>set xs. 0 \<le> amt x"
    using that by (induction xs) auto
  show ?case
  proof (cases "0 \<le> amt x \<and> n + amt x \<le> bound")
    case True
    then have "add (mk n) x = Ok (mk (n + amt x))" using Cons.prems by (simp add: add_Ok)
    with True Cons show ?thesis by (simp add: add.assoc)
  next
    case False
    then have "foldR (\<lambda>x t. add t x) (x # xs) (mk n) \<noteq> Ok v"
      using Cons.prems by (auto simp: res_simps add_Ok)
    moreover have "\<not> ((\<forall>x\<in>set (x # xs). 0 \<le> amt x) \<and> n + (\<Sum>x\<leftarrow>x # xs. amt x) \<le> bound)"
      using False sum_nn by auto
    ultimately show ?thesis by blast
  qed
qed auto

lemma total_no_panic:
  assumes "\<forall>x\<in>set xs. wf x" and "0 \<le> n" "n \<le> bound"
  shows "foldR (\<lambda>x t. add t x) xs (mk n) \<noteq> Panic"
  using assms
proof (induction xs arbitrary: n)
  case (Cons x xs)
  have "add (mk n) x \<noteq> Panic" using Cons.prems by (simp add: add_no_panic)
  moreover have "foldR (\<lambda>x t. add t x) xs t \<noteq> Panic" if "add (mk n) x = Ok t" for t
    using that Cons by (simp add: add_Ok)
  ultimately show ?case by (simp add: res_simps)
qed simp

end

interpretation u128_sum: safe_accumulator Uint128 u_value valid_u128 "2 ^ 128 - 1" Uint128_Add
  by unfold_locales (auto simp: Uint128_Add_def u128_simps valid_u128_def)

section \<open>Correctness\<close>

text \<open>The answer of a checked operation whose mathematical result is \<open>v\<close>.\<close>

definition in_u128 :: "int \<Rightarrow> (uint128_error, uint128) res" where
  "in_u128 v =
    (if v < 0 then Err ErrUint128Underflow else if v < 2 ^ 128 then Ok (Uint128 v) else Err ErrUint128Overflow)"

lemma validated_in_u128: "validated v = in_u128 v"
  by (simp add: validated_spec in_u128_def)

lemma in_u128_Ok: "0 \<le> v \<Longrightarrow> v < 2 ^ 128 \<Longrightarrow> in_u128 v = Ok (Uint128 v)"
  by (simp add: in_u128_def)

lemma in_u128_valid: "in_u128 v = Ok r \<Longrightarrow> valid_u128 r"
  by (auto simp: in_u128_def valid_u128_def split: if_splits)

lemma Mod_valid_spec:
  assumes "valid_u128 u" "valid_u128 x"
  shows "Uint128_Mod u x =
    (if u_value x = 0 then Err ErrUint128DividedByZero else Ok (Uint128 (u_value u mod u_value x)))"
proof (cases "u_value x = 0")
  case False
  have v: "0 \<le> u_value u" "0 \<le> u_value x" "u_value x < 2 ^ 128" using assms by (auto simp: valid_u128_def)
  then have "0 \<le> u_value u mod u_value x" "u_value u mod u_value x < u_value x"
    using False pos_mod_bound [of "u_value x" "u_value u"] pos_mod_sign [of "u_value x" "u_value u"]
    by linarith+
  then have "validated (u_value u mod u_value x) = Ok (Uint128 (u_value u mod u_value x))"
    using v(3) by (simp add: validated_Ok_iff del: Euclidean_Rings.pos_mod_bound Euclidean_Rings.pos_mod_sign)
  then show ?thesis using v False by (simp add: Uint128_Mod_def Cmp_simps big_Mod_def)
qed (simp add: Uint128_Mod_def Cmp_simps)

text \<open>C25 (exact arithmetic). On valid operands, a 64-bit signed \<open>i\<close> and a 64-bit unsigned \<open>w\<close>: \<open>Add\<close>, \<open>AddUint\<close>,
  \<open>Sub\<close>, \<open>SubUint\<close>, \<open>Mul\<close> and \<open>Exp\<close> return the mathematical result exactly when it is in the 128-bit
  range, and otherwise the error that says on which side it is out of range. \<open>Div\<close> and \<open>Mod\<close> return quotient and
  remainder, or the error of a division by zero. \<open>AddInt\<close>, \<open>MulInt\<close> and \<open>DivInt\<close> reject a negative \<open>i\<close> as
  an underflow and are otherwise like the operation on \<open>i\<close>. \<open>Rsh\<close> divides by the power of two. No operation panics,
  and every value one of them returns is valid.\<close>

theorem Uint128_exact:
  assumes "valid_u128 u" "valid_u128 x" "int64 i"
  shows "Uint128_Add u x = in_u128 (u_value u + u_value x) \<and>
    Uint128_AddInt u i = (if i < 0 then Err ErrUint128Underflow else in_u128 (u_value u + i)) \<and>
    Uint128_AddUint u w = in_u128 (u_value u + uint w) \<and>
    Uint128_Sub u x = in_u128 (u_value u - u_value x) \<and>
    Uint128_SubUint u w = in_u128 (u_value u - uint w) \<and>
    Uint128_Mul u x = in_u128 (u_value u * u_value x) \<and>
    Uint128_MulInt u i = (if i < 0 then Err ErrUint128Underflow else in_u128 (u_value u * i)) \<and>
    Uint128_Div u x =
      (if u_value x = 0 then Err ErrUint128DividedByZero else Ok (Uint128 (u_value u div u_value x))) \<and>
    Uint128_DivInt u i =
      (if i < 0 then Err ErrUint128Underflow else if i = 0 then Err ErrUint128DividedByZero
       else Ok (Uint128 (u_value u div i))) \<and>
    Uint128_Mod u x =
      (if u_value x = 0 then Err ErrUint128DividedByZero else Ok (Uint128 (u_value u mod u_value x))) \<and>
    Uint128_Exp u x = in_u128 (u_value u ^ nat (u_value x)) \<and>
    Uint128_Rsh u n = Uint128 (u_value u div 2 ^ n) \<and>
    (\<forall>r. Ok r \<in> {Uint128_Add u x, Uint128_AddInt u i, Uint128_AddUint u w, Uint128_Sub u x, Uint128_SubUint u w,
        Uint128_Mul u x, Uint128_MulInt u i, Uint128_Div u x, Uint128_DivInt u i, Uint128_Mod u x, Uint128_Exp u x,
        Ok (Uint128_Rsh u n)} \<longrightarrow> valid_u128 r)"
proof -
  have v: "0 \<le> u_value u" "u_value u < 2 ^ 128" using assms(1) by (auto simp: valid_u128_def)
  have le: "0 \<le> u_value u div k \<and> u_value u div k < 2 ^ 128" if "0 < k" for k
    using that v div_le_dividend_int [of "u_value u" k] by (auto simp: pos_imp_zdiv_nonneg_iff)
  have "big_Exp (u_value u) (u_value x) = u_value u ^ nat (u_value x)"
    using assms(2) by (auto simp: big_Exp_def valid_u128_def)
  then have ops: "Uint128_Add u x = in_u128 (u_value u + u_value x)"
    "Uint128_AddInt u i = (if i < 0 then Err ErrUint128Underflow else in_u128 (u_value u + i))"
    "Uint128_AddUint u w = in_u128 (u_value u + uint w)" "Uint128_Sub u x = in_u128 (u_value u - u_value x)"
    "Uint128_SubUint u w = in_u128 (u_value u - uint w)" "Uint128_Mul u x = in_u128 (u_value u * u_value x)"
    "Uint128_MulInt u i = (if i < 0 then Err ErrUint128Underflow else in_u128 (u_value u * i))"
    "Uint128_Exp u x = in_u128 (u_value u ^ nat (u_value x))"
    using assms(3)
    by (simp_all add: Uint128_Add_def AddInt_spec Uint128_AddUint_def Uint128_Sub_def Uint128_SubUint_def
        NewUint128FromUint_def Uint128_Mul_def MulInt_spec Uint128_Exp_def validated_in_u128)
  have div_int: "Uint128_DivInt u i = (if i < 0 then Err ErrUint128Underflow
      else if i = 0 then Err ErrUint128DividedByZero else in_u128 (u_value u div i))"
    using assms(3) by (simp add: DivInt_spec validated_in_u128)
  have div_ok: "in_u128 (u_value u div i) = Ok (Uint128 (u_value u div i))" if "0 < i"
    using le [OF that] by (simp add: in_u128_Ok)
  have rsh: "Uint128_Rsh u n = Uint128 (u_value u div 2 ^ n)" by (simp add: Uint128_Rsh_def big_Rsh_def)
  have "valid_u128 (Uint128_Rsh u n)" using le [of "2 ^ n"] by (simp add: rsh valid_u128_def)
  moreover have "valid_u128 r" if "Uint128_Mod u x = Ok r" for r
    using that validated_valid by (auto simp: Uint128_Mod_def split: if_splits)
  moreover have "valid_u128 r" if "Uint128_Div u x = Ok r" for r
    using that validated_valid by (auto simp: Uint128_Div_def split: if_splits)
  ultimately have "\<forall>r. Ok r \<in> {Uint128_Add u x, Uint128_AddInt u i, Uint128_AddUint u w, Uint128_Sub u x, Uint128_SubUint u w,
        Uint128_Mul u x, Uint128_MulInt u i, Uint128_Div u x, Uint128_DivInt u i, Uint128_Mod u x, Uint128_Exp u x,
        Ok (Uint128_Rsh u n)} \<longrightarrow> valid_u128 r"
    unfolding ops div_int by (auto dest!: in_u128_valid [OF sym] split: if_splits)
  with ops div_int div_ok rsh show ?thesis
    by (simp only: Div_valid_spec [OF assms(1,2)] Mod_valid_spec [OF assms(1,2)]) auto
qed

theorem Uint128_exact_witness:
  "Uint128_Add (Uint128 (2 ^ 128 - 1)) (Uint128 1) = Err ErrUint128Overflow \<and>
   Uint128_Div (Uint128 (2 ^ 128 - 1)) (Uint128 1) = Ok (Uint128 (2 ^ 128 - 1)) \<and>
   Uint128_SubUint (Uint128 (2 ^ 128 - 1)) 5 = Ok (Uint128 (2 ^ 128 - 6)) \<and>
   Uint128_AddInt (Uint128 (2 ^ 128 - 1)) (- 3) = Err ErrUint128Underflow"
  using Uint128_exact [of "Uint128 (2 ^ 128 - 1)" "Uint128 1" "- 3" 5 0]
  by (simp add: valid_u128_def int64_def in_u128_def)

text \<open>C26 (representations). A valid value is read back from its 16 big-endian bytes and from its decimal
  text, and every slice of at most 16 bytes is the representation of a valid value.\<close>

theorem Uint128_representation_roundtrip:
  assumes "valid_u128 u" "length bs \<le> 16"
  shows "NewUint128FromString (Uint128_String u) = Ok u \<and>
    (\<exists>b16. Uint128_Bytes u = Ok b16 \<and> length b16 = 16 \<and> NewUint128FromBytes b16 = Ok u) \<and>
    (\<exists>x. NewUint128FromBytes bs = Ok x \<and> valid_u128 x \<and> Uint128_Bytes x = Ok (replicate (16 - length bs) 0 @ bs))"
proof -
  have v: "0 \<le> u_value u" "u_value u < 2 ^ 128" using assms(1) by (auto simp: valid_u128_def)
  have s: "NewUint128FromString (Uint128_String u) = Ok u"
    using v by (simp add: NewUint128FromString_def Uint128_String_def big_Text_def big_SetString_nat_text
        Validate_spec)
  have "nat (u_value u) mod 256 ^ 16 = nat (u_value u)" using v by (simp add: nat_less_iff)
  then have b: "NewUint128FromBytes (put_be 16 (nat (u_value u))) = Ok u"
    using v by (simp add: NewUint128FromBytes_def setBytes_loop_be_val be_val_put_be)
  let ?x = "Uint128 (int (be_val bs))"
  have "be_val bs < 256 ^ 16"
    using be_val_less [of bs] power_increasing [OF assms(2), of "256 :: nat"] by linarith
  then have x: "valid_u128 ?x" by (simp add: valid_u128_def)
  have "put_be (length (replicate (16 - length bs) 0 @ bs)) (be_val (replicate (16 - length bs) 0 @ bs)) =
      replicate (16 - length bs) 0 @ bs"
    by (rule put_be_be_val)
  then have "put_be 16 (be_val bs) = replicate (16 - length bs) 0 @ bs" using assms(2) by simp
  with x have "NewUint128FromBytes bs = Ok ?x \<and> valid_u128 ?x \<and>
      Uint128_Bytes ?x = Ok (replicate (16 - length bs) 0 @ bs)"
    using assms(2) by (simp add: Uint128_Bytes_spec NewUint128FromBytes_def setBytes_loop_be_val)
  with s b Uint128_Bytes_spec [OF assms(1)] show ?thesis by auto
qed

theorem Uint128_representation_roundtrip_witness:
  "NewUint128FromString (Uint128_String (Uint128 1234567890123456789012)) = Ok (Uint128 1234567890123456789012) \<and>
   (\<exists>x. NewUint128FromBytes [1, 2, 3] = Ok x \<and> valid_u128 x \<and> Uint128_Bytes x = Ok (replicate 13 0 @ [1, 2, 3]))"
  using Uint128_representation_roundtrip [of "Uint128 1234567890123456789012" "[1, 2, 3]"]
  by (simp add: valid_u128_def)

end
