(* ===== verification/Consensus_Params.thy ===== *)
theory Consensus_Params
  imports Go_Prelude
begin

text \<open>
  The consensus constants of \<^verbatim>\<open>consensus/params.go\<close> and \<^verbatim>\<open>consensus/massips.go\<close>, at the width the
  code gives them. All of them are in the collection \<open>params\<close>.
\<close>

named_theorems params \<open>values of the consensus constants\<close>

definition MaxwellPerMass :: u64 where [params]: "MaxwellPerMass = 100000000"
definition MaxStakingRewardNum :: nat where [params]: "MaxStakingRewardNum = 30"
definition StakingTxRewardStart :: u64 where [params]: "StakingTxRewardStart = 24"
definition CoinbaseMaturity :: u64 where [params]: "CoinbaseMaturity = 1000"
definition TransactionMaturity :: u64 where [params]: "TransactionMaturity = 1"
definition MaxMass :: u64 where [params]: "MaxMass = 206438400"
definition MinRelayTxFee_param :: u64 where [params]: "MinRelayTxFee_param = 10000"
definition SubsidyHalvingInterval :: u64 where [params]: "SubsidyHalvingInterval = 13440"
definition BaseSubsidy :: u64 where [params]: "BaseSubsidy = 1024 * MaxwellPerMass"
definition MinHalvedSubsidy :: u64 where [params]: "MinHalvedSubsidy = 6250000"
definition MinFrozenPeriod :: u64 where [params]: "MinFrozenPeriod = 61440"
definition MinStakingValue :: u64 where [params]: "MinStakingValue = 2048 * MaxwellPerMass"

definition MASSIP0001Height :: u64 where [params]: "MASSIP0001Height = 694000"
definition MASSIP0001MaxValidPeriod :: u64 where [params]: "MASSIP0001MaxValidPeriod = MinFrozenPeriod * 24"
definition MASSIP0002WarmUpHeight :: u64 where [params]: "MASSIP0002WarmUpHeight = 1398801"
definition MASSIP0002Height :: u64 where [params]: "MASSIP0002Height = 1404801"
definition MASSIP0002BindingLockedPeriod :: u64 where
  [params]: "MASSIP0002BindingLockedPeriod = 0xffffffff - 1"
definition MASSIP0002SetPoolPkCoinbaseFee :: int where
  [params]: "MASSIP0002SetPoolPkCoinbaseFee = 100000000"
definition MASSIP0002PayloadNonceGap :: u32 where [params]: "MASSIP0002PayloadNonceGap = 5"

text \<open>The fields of \<^verbatim>\<open>config.Params\<close> the modelled code reads.\<close>

record chain_params =
  PocLimit :: int
  SubsidyHalvingInterval_cfg :: u64

end
