(* ===== verification/Amount.thy ===== *)
theory Amount
  imports Uint128 Consensus_Params
begin

text \<open>
  \<^verbatim>\<open>massutil/amount.go\<close>: monetary amounts, a \<open>uint128\<close> that never exceeds the total supply
  \<open>MaxMass * MaxwellPerMass\<close>. Every constructor and operation ends in \<open>checkedAmount\<close>. The theory
  gives each operation as exact arithmetic with its error on every branch, and instantiates the
  checked-sum interface, which the transaction and block validation use to total outputs and inputs.
  The floating point conversions (\<^verbatim>\<open>NewAmountFromMass\<close>, \<^verbatim>\<open>MulF64\<close>, \<^verbatim>\<open>ToUnit\<close>) are not modelled.
\<close>

datatype amount_error =
    AUint128 uint128_error
  | ErrInvalidFloat
  | ErrMaxAmount

datatype amount = Amount (a_value: uint128)

definition zeroAmount :: amount where
  "zeroAmount = Amount NewUint128"

text \<open>The package variable \<^verbatim>\<open>maxAmount\<close> after \<^verbatim>\<open>init\<close>; \<open>amount_init\<close> below is \<^verbatim>\<open>init\<close> itself.\<close>

definition maxAmount :: amount where
  "maxAmount = Amount (Uint128 20643840000000000)"

definition checkedAmount :: "uint128 \<Rightarrow> (amount_error, amount) res" where
  "checkedAmount u = (if Uint128_Gt u (a_value maxAmount) then Err ErrMaxAmount else Ok (Amount u))"

definition NewAmount :: "uint128 \<Rightarrow> (amount_error, amount) res" where
  "NewAmount u = checkedAmount u"

definition NewAmountFromInt :: "int \<Rightarrow> (amount_error, amount) res" where
  "NewAmountFromInt i = bindR (liftE AUint128 (NewUint128FromInt i)) checkedAmount"

definition NewAmountFromUint :: "u64 \<Rightarrow> (amount_error, amount) res" where
  "NewAmountFromUint i = NewAmount (NewUint128FromUint i)"

definition amount_init :: "(amount_error, amount \<times> amount) res" where
  "amount_init =
    (case Uint128_Mul (NewUint128FromUint MaxMass) (NewUint128FromUint MaxwellPerMass) of
       Ok u \<Rightarrow>
         (case NewAmountFromUint MinRelayTxFee_param of
            Ok fee \<Rightarrow> Ok (Amount u, fee)
          | _ \<Rightarrow> Panic)
     | _ \<Rightarrow> Panic)"

definition minRelayTxFee :: amount where
  "minRelayTxFee = Amount (NewUint128FromUint MinRelayTxFee_param)"

definition Amount_Add :: "amount \<Rightarrow> amount \<Rightarrow> (amount_error, amount) res" where
  "Amount_Add a b = bindR (liftE AUint128 (Uint128_Add (a_value a) (a_value b))) checkedAmount"

definition Amount_AddInt :: "amount \<Rightarrow> int \<Rightarrow> (amount_error, amount) res" where
  "Amount_AddInt a i = bindR (liftE AUint128 (Uint128_AddInt (a_value a) i)) checkedAmount"

definition Amount_Sub :: "amount \<Rightarrow> amount \<Rightarrow> (amount_error, amount) res" where
  "Amount_Sub a b = bindR (liftE AUint128 (Uint128_Sub (a_value a) (a_value b))) checkedAmount"

definition Amount_Cmp :: "amount \<Rightarrow> amount \<Rightarrow> int" where
  "Amount_Cmp a b = Uint128_Cmp (a_value a) (a_value b)"

definition Amount_IsZero :: "amount \<Rightarrow> bool" where
  "Amount_IsZero a = Uint128_IsZero (a_value a)"

definition Amount_IntValue :: "amount \<Rightarrow> (amount_error, int) res" where
  "Amount_IntValue a = liftE AUint128 (Uint128_IntValue (a_value a))"

definition Amount_UintValue :: "amount \<Rightarrow> (amount_error, u64) res" where
  "Amount_UintValue a = liftE AUint128 (Uint128_UintValue (a_value a))"

section \<open>Invariant and exact behaviour\<close>

named_theorems amount_simps \<open>the operations of Amount as arithmetic with range checks\<close>

abbreviation maxwell :: "amount \<Rightarrow> int" where
  "maxwell a \<equiv> u_value (a_value a)"

abbreviation mk_amount :: "int \<Rightarrow> amount" where
  "mk_amount n \<equiv> Amount (Uint128 n)"

abbreviation max_maxwell :: int where
  "max_maxwell \<equiv> 20643840000000000"

definition valid_amount :: "amount \<Rightarrow> bool" where
  "valid_amount a \<longleftrightarrow> 0 \<le> maxwell a \<and> maxwell a \<le> max_maxwell"

lemma amount_init_ok: "amount_init = Ok (maxAmount, minRelayTxFee)"
  by (simp add: amount_init_def Uint128_Mul_def validated_spec NewUint128FromUint_def params
      NewAmountFromUint_def NewAmount_def checkedAmount_def maxAmount_def minRelayTxFee_def u128_simps)

lemma maxwell_mk [simp]: "mk_amount (maxwell a) = a"
  by (cases a) (simp add: uint128.expand)

lemma checkedAmount_spec:
  "checkedAmount u = (if u_value u > max_maxwell then Err ErrMaxAmount else Ok (Amount u))"
  by (simp add: checkedAmount_def maxAmount_def u128_simps)

lemma Amount_Add_spec [amount_simps]:
  assumes "valid_amount a" "valid_amount b"
  shows "Amount_Add a b =
    (if maxwell a + maxwell b > max_maxwell then Err ErrMaxAmount
     else Ok (mk_amount (maxwell a + maxwell b)))"
  using assms
  by (auto simp: Amount_Add_def Uint128_Add_def validated_spec checkedAmount_spec valid_amount_def)

lemma Amount_AddInt_spec [amount_simps]:
  assumes "valid_amount a" "int64 i"
  shows "Amount_AddInt a i =
    (if i < 0 then Err (AUint128 ErrUint128Underflow)
     else if maxwell a + i > max_maxwell then Err ErrMaxAmount
     else Ok (mk_amount (maxwell a + i)))"
  using assms
  by (auto simp: Amount_AddInt_def u128_simps validated_spec checkedAmount_spec valid_amount_def int64_def)

lemma Amount_Sub_spec [amount_simps]:
  assumes "valid_amount a" "valid_amount b"
  shows "Amount_Sub a b =
    (if maxwell a < maxwell b then Err (AUint128 ErrUint128Underflow)
     else Ok (mk_amount (maxwell a - maxwell b)))"
  using assms
  by (auto simp: Amount_Sub_def Uint128_Sub_def validated_spec checkedAmount_spec valid_amount_def)

lemma NewAmountFromInt_spec [amount_simps]:
  assumes "int64 i"
  shows "NewAmountFromInt i =
    (if i < 0 then Err (AUint128 ErrUint128Underflow)
     else if i > max_maxwell then Err ErrMaxAmount else Ok (mk_amount i))"
  using assms
  by (auto simp: NewAmountFromInt_def NewUint128FromInt_def validated_spec checkedAmount_spec int64_def)

lemma NewAmountFromUint_spec [amount_simps]:
  "NewAmountFromUint i = (if uint i > max_maxwell then Err ErrMaxAmount else Ok (mk_amount (uint i)))"
  by (simp add: NewAmountFromUint_def NewAmount_def NewUint128FromUint_def checkedAmount_spec)

lemma Amount_IntValue_spec [amount_simps]:
  "valid_amount a \<Longrightarrow> Amount_IntValue a = Ok (maxwell a)"
  by (simp add: Amount_IntValue_def Uint128_IntValue_def u128_simps maxInt64_def NewUint128FromUint_def
      valid_amount_def wrap64_def)

lemma Amount_UintValue_spec [amount_simps]:
  "valid_amount a \<Longrightarrow> Amount_UintValue a = Ok (word_of_int (maxwell a))"
  by (simp add: Amount_UintValue_def Uint128_UintValue_def u128_simps maxUint64_def
      NewUint128FromUint_def valid_amount_def)

lemma Amount_Cmp_simps [amount_simps]:
  "Amount_Cmp a b < 0 \<longleftrightarrow> maxwell a < maxwell b"
  "Amount_Cmp a b > 0 \<longleftrightarrow> maxwell a > maxwell b"
  "Amount_Cmp a b \<le> 0 \<longleftrightarrow> maxwell a \<le> maxwell b"
  "Amount_Cmp a b \<ge> 0 \<longleftrightarrow> maxwell a \<ge> maxwell b"
  "Amount_Cmp a b = 0 \<longleftrightarrow> a = b"
  by (auto simp: Amount_Cmp_def Uint128_Cmp_def big_Cmp_def uint128.expand amount.expand)

lemma Amount_IsZero_iff [amount_simps]: "Amount_IsZero a \<longleftrightarrow> maxwell a = 0"
  by (simp add: Amount_IsZero_def u128_simps)

lemma valid_zeroAmount [simp]: "valid_amount zeroAmount"
  by (simp add: valid_amount_def zeroAmount_def NewUint128_def)

lemma zeroAmount_mk: "zeroAmount = mk_amount 0"
  by (simp add: zeroAmount_def NewUint128_def)

text \<open>Totals of \<^verbatim>\<open>int64\<close> values, as the loops over the outputs of a transaction compute them.\<close>

interpretation amount_sum: safe_accumulator mk_amount "\<lambda>i. i" int64 max_maxwell Amount_AddInt
  by unfold_locales (auto simp: amount_simps valid_amount_def)

interpretation amount_total: safe_accumulator mk_amount maxwell valid_amount max_maxwell Amount_Add
  by unfold_locales (auto simp: amount_simps valid_amount_def)

section \<open>Correctness\<close>

text \<open>C24 (totals of amounts). Adding up a list of 64-bit values with \<open>Amount_AddInt\<close>, as the sanity
  check of a transaction and the check of the coinbase do with the values of the outputs, succeeds exactly when no value is negative and the exact sum is within the
  supply; the total is then the exact sum and a valid amount. In every other case an error is returned.\<close>

theorem Amount_total_exact:
  assumes "\<forall>v\<in>set vs. int64 v"
  shows "(foldR (\<lambda>v total. Amount_AddInt total v) vs zeroAmount = Ok a \<longleftrightarrow>
      (\<forall>v\<in>set vs. 0 \<le> v) \<and> sum_list vs \<le> maxwell maxAmount \<and> a = mk_amount (sum_list vs)) \<and>
    (foldR (\<lambda>v total. Amount_AddInt total v) vs zeroAmount = Ok a \<longrightarrow> valid_amount a) \<and>
    foldR (\<lambda>v total. Amount_AddInt total v) vs zeroAmount \<noteq> Panic"
proof -
  have nn: "0 \<le> sum_list vs" if "\<forall>v\<in>set vs. 0 \<le> v" using that by (simp add: sum_list_nonneg)
  have "foldR (\<lambda>v total. Amount_AddInt total v) vs zeroAmount \<noteq> Panic"
    using amount_sum.total_no_panic [of vs 0, OF assms] by (simp add: zeroAmount_mk)
  moreover have ok: "foldR (\<lambda>v total. Amount_AddInt total v) vs zeroAmount = Ok a \<longleftrightarrow>
      (\<forall>v\<in>set vs. 0 \<le> v) \<and> sum_list vs \<le> maxwell maxAmount \<and> a = mk_amount (sum_list vs)"
    using amount_sum.total_Ok [of vs 0 a, OF assms] by (simp add: zeroAmount_mk maxAmount_def)
  moreover have "valid_amount a" if "foldR (\<lambda>v total. Amount_AddInt total v) vs zeroAmount = Ok a"
    using that ok nn by (auto simp: valid_amount_def maxAmount_def)
  ultimately show ?thesis by blast
qed

theorem Amount_total_exact_witness:
  "foldR (\<lambda>v total. Amount_AddInt total v) [5, 7] zeroAmount = Ok (mk_amount 12) \<and>
   foldR (\<lambda>v total. Amount_AddInt total v) [5, 20643840000000000] zeroAmount \<noteq> Ok (mk_amount 20643840000000005)"
  using Amount_total_exact [of "[5, 7]" "mk_amount 12"]
    Amount_total_exact [of "[5, 20643840000000000]" "mk_amount 20643840000000005"]
  by (simp add: int64_def maxAmount_def)

end
