(* ===== verification/Forks.thy ===== *)
theory Forks
  imports Amount
begin

text \<open>
  \<^verbatim>\<open>consensus/forks\<close>: the height-dependent consensus rules (staking weight, effective staking
  period, block version) and the price of a plot binding as a function of the binding of the whole
  network. The search for a price beyond the pre-computed table is a loop without an exit
  condition of its own; it is modelled with fuel, one unit per iteration, \<open>None\<close> when the fuel is used up.
\<close>

datatype forks_error =
    FUint128 uint128_error
  | FAmount amount_error
  | ErrInvalidMassBitlength int
  | ErrZeroPlotSize
  | ErrCalcPrice amount_error

section \<open>Staking weight\<close>

record staking_node =
  GetValue :: int
  GetWeight :: uint128

record staking_tx =
  GetBlockHeight :: u64
  GetFrozenPeriod :: u64

definition CalcTotalStakingWeight :: "u64 \<Rightarrow> staking_node list \<Rightarrow> (uint128_error, uint128) res" where
  "CalcTotalStakingWeight blockHeight stakingNodes =
    foldR (\<lambda>node totalWeight.
        if blockHeight < MASSIP0001Height then Uint128_AddInt totalWeight (GetValue node)
        else Uint128_Add totalWeight (GetWeight node))
      stakingNodes NewUint128"

definition CalcStakingNodeWeight :: "u64 \<Rightarrow> staking_node \<Rightarrow> (uint128_error, uint128) res" where
  "CalcStakingNodeWeight blockHeight stakingNode =
    (if blockHeight < MASSIP0001Height then NewUint128FromInt (GetValue stakingNode)
     else Ok (GetWeight stakingNode))"

definition CalcEffectiveStakingPeriod :: "u64 \<Rightarrow> staking_tx \<Rightarrow> u64" where
  "CalcEffectiveStakingPeriod blockHeight stakingTx =
    (if blockHeight < MASSIP0001Height then
       let tmp = GetBlockHeight stakingTx + GetFrozenPeriod stakingTx + 1 in
       if tmp \<ge> blockHeight then tmp - blockHeight else 0
     else
       let period = GetFrozenPeriod stakingTx in
       if period > MASSIP0001MaxValidPeriod then MASSIP0001MaxValidPeriod else period)"

definition SortStakingNodesByWeight :: "u64 \<Rightarrow> bool" where
  "SortStakingNodesByWeight blockHeight \<longleftrightarrow> blockHeight \<ge> MASSIP0001Height"

definition EnforceMASSIP0002 :: "u64 \<Rightarrow> bool" where
  "EnforceMASSIP0002 blockHeight \<longleftrightarrow> blockHeight \<ge> MASSIP0002Height"

definition EnforceMASSIP0002WarmUp :: "u64 \<Rightarrow> bool" where
  "EnforceMASSIP0002WarmUp blockHeight \<longleftrightarrow> blockHeight \<ge> MASSIP0002WarmUpHeight"

definition GetBlockVersion :: "u64 \<Rightarrow> u64" where
  "GetBlockVersion height = (if EnforceMASSIP0002WarmUp height then 2 else 1)"

section \<open>Binding prices\<close>

definition NumberOf32GOnePB :: int where
  "NumberOf32GOnePB = drop_bit 35 (push_bit 50 1)"

text \<open>\<^verbatim>\<open>i * 100\<close> is an \<^verbatim>\<open>int\<close> product; both divisions panic on a zero divisor.\<close>

definition calcIntervalRequired :: "int \<Rightarrow> (forks_error, u64 \<times> u64) res" where
  "calcIntervalRequired i =
    (let d = wrap64 (i * 100) in
     if d = 0 \<or> i = 0 then Panic
     else Ok (word_of_int (quo 5000000 d), word_of_int (quo 5000000 i)))"

definition newAmountFromMASS :: "u64 \<Rightarrow> (forks_error, amount) res" where
  "newAmountFromMASS i =
    (case Uint128_MulInt (NewUint128FromUint i) (uint MaxwellPerMass) of
       Ok u \<Rightarrow> (case NewAmount u of Ok amt \<Rightarrow> Ok amt | _ \<Rightarrow> Panic)
     | _ \<Rightarrow> Panic)"

definition newAmountFromMaxwell :: "u64 \<Rightarrow> (forks_error, amount) res" where
  "newAmountFromMaxwell i = (case NewAmountFromUint i of Ok amt \<Rightarrow> Ok amt | _ \<Rightarrow> Panic)"

definition calcPricePer32G :: "u64 \<Rightarrow> (forks_error, amount) res" where
  "calcPricePer32G massPerPB =
    bindR (newAmountFromMASS massPerPB) (\<lambda>m.
      case Uint128_DivInt (a_value m) NumberOf32GOnePB of
        Ok u \<Rightarrow> (case NewAmount u of Ok price \<Rightarrow> Ok price | _ \<Rightarrow> Panic)
      | _ \<Rightarrow> Panic)"

record NetworkBindingPrice =
  AccumulativeUpperBound :: amount
  PricePer32G :: amount

text \<open>The first half of \<^verbatim>\<open>init\<close>: the prices by bit length since genesis.\<close>

definition genesis_required :: "(int \<times> u64) list" where
  "genesis_required =
    [(24, 614400), (26, 2662400), (28, 11200000), (30, 48000000), (32, 204800000),
     (34, 870400000), (36, 3686400000), (38, 15200000000), (40, 64000000000)]"

definition init_sinceGenesis :: "(forks_error, int \<rightharpoonup> amount) res" where
  "init_sinceGenesis =
    foldR (\<lambda>(bitlength, required) m.
        case NewAmountFromUint required of Ok amt \<Rightarrow> Ok (m(bitlength \<mapsto> amt)) | _ \<Rightarrow> Panic)
      genesis_required Map.empty"

text \<open>The second half: two entries for the first intervals, then one per \<open>i\<close> from 3 to 30.\<close>

definition init_step :: "int \<Rightarrow> amount \<times> NetworkBindingPrice list \<Rightarrow>
    (forks_error, amount \<times> NetworkBindingPrice list) res" where
  "init_step i s =
    (case s of (acc, prices) \<Rightarrow>
     bindR (calcIntervalRequired i) (\<lambda>(massPerPB, intervalTotal).
     bindR (newAmountFromMASS intervalTotal) (\<lambda>tot.
     case Amount_Add acc tot of
       Ok acc' \<Rightarrow>
         bindR (calcPricePer32G massPerPB) (\<lambda>price.
         Ok (acc', prices @ [\<lparr> AccumulativeUpperBound = acc', PricePer32G = price \<rparr>]))
     | _ \<Rightarrow> Panic)))"

definition init_sinceMASSIP0002 :: "(forks_error, NetworkBindingPrice list) res" where
  "init_sinceMASSIP0002 =
    bindR (calcIntervalRequired 3) (\<lambda>(massPerPB, intervalTotal).
    bindR (newAmountFromMASS intervalTotal) (\<lambda>bound1.
    bindR (calcPricePer32G massPerPB) (\<lambda>price1.
    bindR (newAmountFromMASS (intervalTotal * 2)) (\<lambda>bound2.
    bindR (calcPricePer32G massPerPB) (\<lambda>price2.
    let prices =
      [\<lparr> AccumulativeUpperBound = bound1, PricePer32G = price1 \<rparr>,
       \<lparr> AccumulativeUpperBound = bound2, PricePer32G = price2 \<rparr>] in
    bindR (foldR init_step [3..30] (bound2, prices)) (\<lambda>(acc, prices). Ok prices))))))"

text \<open>The package variables: what \<^verbatim>\<open>init\<close> leaves in them (it does not panic, as shown below).\<close>

definition bindingPriceSinceGenesis :: "int \<rightharpoonup> amount" where
  "bindingPriceSinceGenesis = (case init_sinceGenesis of Ok m \<Rightarrow> m | _ \<Rightarrow> Map.empty)"

definition bindingPriceSinceMASSIP0002 :: "NetworkBindingPrice list" where
  "bindingPriceSinceMASSIP0002 = (case init_sinceMASSIP0002 of Ok ps \<Rightarrow> ps | _ \<Rightarrow> [])"

text \<open>The loop over the table: the first entry whose bound is not exceeded.\<close>

fun find_price :: "amount \<Rightarrow> NetworkBindingPrice list \<Rightarrow> NetworkBindingPrice option" where
  "find_price networkBinding [] = None"
| "find_price networkBinding (netPrice # rest) =
    (if Amount_Cmp networkBinding (AccumulativeUpperBound netPrice) \<le> 0 then Some netPrice
     else find_price networkBinding rest)"

text \<open>The price of \<open>n\<close> units of 32 GiB.\<close>

definition price_of_units :: "amount \<Rightarrow> u64 \<Rightarrow> (forks_error, amount) res" where
  "price_of_units pricePer32G n =
    bindR (liftE FUint128 (Uint128_MulInt (a_value pricePer32G) (sint n))) (\<lambda>u.
    liftE FAmount (NewAmount u))"

text \<open>The body of the search when the interval is found.\<close>

definition price_beyond :: "u64 \<Rightarrow> u64 \<Rightarrow> (forks_error, amount) res" where
  "price_beyond massPerPB n =
    bindR (newAmountFromMASS massPerPB) (\<lambda>pricePerPB.
    bindR (liftE FUint128 (Uint128_DivInt (a_value pricePerPB) NumberOf32GOnePB)) (\<lambda>u.
    bindR (liftE FAmount (NewAmount u)) (\<lambda>pricePer32G.
    price_of_units pricePer32G n)))"

fun search_price :: "nat \<Rightarrow> int \<Rightarrow> amount \<Rightarrow> amount \<Rightarrow> u64 \<Rightarrow> (forks_error, amount) res option" where
  "search_price 0 i acc networkBinding n = None"
| "search_price (Suc fuel) i acc networkBinding n =
    (case calcIntervalRequired i of
       Ok (massPerPB, intervalTotal) \<Rightarrow>
         (case newAmountFromMASS intervalTotal of
            Ok tot \<Rightarrow>
              (case Amount_Add acc tot of
                 Ok acc' \<Rightarrow>
                   if Amount_Cmp networkBinding acc' \<le> 0 then
                     Some (price_beyond massPerPB n)
                   else search_price fuel (wrap64 (i + 1)) acc' networkBinding n
               | Err e \<Rightarrow> Some (Err (ErrCalcPrice e))
               | Panic \<Rightarrow> Some Panic)
          | Err e \<Rightarrow> Some (Err e)
          | Panic \<Rightarrow> Some Panic)
     | Err e \<Rightarrow> Some (Err e)
     | Panic \<Rightarrow> Some Panic)"

definition GetRequiredBinding :: "nat \<Rightarrow> u64 \<Rightarrow> u64 \<Rightarrow> int \<Rightarrow> amount \<Rightarrow>
    (forks_error, amount) res option" where
  "GetRequiredBinding fuel nextHeight plotSize massBitlength networkBinding =
    (if \<not> EnforceMASSIP0002WarmUp nextHeight then
       (case bindingPriceSinceGenesis massBitlength of
          None \<Rightarrow> Some (Err (ErrInvalidMassBitlength massBitlength))
        | Some price \<Rightarrow> Some (Ok price))
     else if plotSize = 0 then Some (Err ErrZeroPlotSize)
     else
       let n = (if drop_bit 35 plotSize = 0 then 1 else drop_bit 35 plotSize) in
       case find_price networkBinding bindingPriceSinceMASSIP0002 of
         Some netPrice \<Rightarrow> Some (price_of_units (PricePer32G netPrice) n)
       | None \<Rightarrow>
           search_price fuel (int (length bindingPriceSinceMASSIP0002) + 1)
             (AccumulativeUpperBound (last bindingPriceSinceMASSIP0002)) networkBinding n)"

section \<open>Totals of staking weights\<close>

interpretation u128_int_sum: safe_accumulator Uint128 GetValue "\<lambda>x. int64 (GetValue x)" "2 ^ 128 - 1"
  "\<lambda>u x. Uint128_AddInt u (GetValue x)"
  by unfold_locales (auto simp: u128_simps)

interpretation u128_weight_sum: safe_accumulator Uint128 "\<lambda>x. u_value (GetWeight x)"
  "\<lambda>x. valid_u128 (GetWeight x)" "2 ^ 128 - 1" "\<lambda>u x. Uint128_Add u (GetWeight x)"
  by unfold_locales (auto simp: Uint128_Add_def u128_simps valid_u128_def)

lemma CalcTotalStakingWeight_by_value:
  assumes "blockHeight < MASSIP0001Height" "\<forall>x\<in>set nodes. int64 (GetValue x)"
  shows "CalcTotalStakingWeight blockHeight nodes = Ok w \<longleftrightarrow>
    (\<forall>x\<in>set nodes. 0 \<le> GetValue x) \<and> (\<Sum>x\<leftarrow>nodes. GetValue x) < 2 ^ 128 \<and>
    w = Uint128 (\<Sum>x\<leftarrow>nodes. GetValue x)"
  using u128_int_sum.total_Ok [of nodes 0 w] assms by (auto simp: CalcTotalStakingWeight_def NewUint128_def)

lemma CalcTotalStakingWeight_by_weight:
  assumes "\<not> blockHeight < MASSIP0001Height" "\<forall>x\<in>set nodes. valid_u128 (GetWeight x)"
  shows "CalcTotalStakingWeight blockHeight nodes = Ok w \<longleftrightarrow>
    (\<Sum>x\<leftarrow>nodes. u_value (GetWeight x)) < 2 ^ 128 \<and> w = Uint128 (\<Sum>x\<leftarrow>nodes. u_value (GetWeight x))"
  using u128_weight_sum.total_Ok [of nodes 0 w] assms
  by (auto simp: CalcTotalStakingWeight_def NewUint128_def valid_u128_def)

section \<open>The price table\<close>

lemma newAmountFromMASS_spec:
  assumes "uint i \<le> 206438400"
  shows "newAmountFromMASS i = Ok (mk_amount (uint i * 100000000))"
  using assms
  by (simp add: newAmountFromMASS_def u128_simps int64_def params NewUint128FromUint_def validated_spec
      NewAmount_def checkedAmount_spec)

lemma calcIntervalRequired_spec:
  assumes "0 < i" "i < 2 ^ 50"
  shows "calcIntervalRequired i = Ok (word_of_int (5000000 div (i * 100)), word_of_int (5000000 div i))"
  using assms by (simp add: calcIntervalRequired_def wrap64_id int64_def quo_def)

text \<open>The table in figures: the upper bound of each interval and its price, in maxwell.\<close>

definition price_table :: "(int \<times> int) list" where
  "price_table =
    [(166666600000000, 50860595), (333333200000000, 50860595), (499999800000000, 50860595), (624999800000000, 38146972),
     (724999800000000, 30517578), (808333100000000, 25430297), (879761600000000, 21795654), (942261600000000, 19073486),
     (997817100000000, 16952514), (1047817100000000, 15258789), (1093271600000000, 13870239), (1134938200000000, 12713623),
     (1173399700000000, 11737060), (1209113900000000, 10897827), (1242447200000000, 10171508), (1273697200000000, 9536743),
     (1303108900000000, 8975219), (1330886600000000, 8474731), (1357202300000000, 8029174), (1382202300000000, 7629394),
     (1406011800000000, 7263183), (1428739000000000, 6933593), (1450478100000000, 6631469), (1471311400000000, 6356811),
     (1491311400000000, 6103515), (1510542100000000, 5868530), (1529060600000000, 5648803), (1546917700000000, 5447387),
     (1564159000000000, 5261230), (1580825600000000, 5084228)]"

lemma calcPricePer32G_spec:
  assumes "uint i \<le> 206438400"
  shows "calcPricePer32G i = Ok (mk_amount (uint i * 100000000 div 32768))"
proof -
  have "0 \<le> uint i * 100000000 div 32768" by (simp add: pos_imp_zdiv_nonneg_iff)
  moreover have "uint i * 100000000 div 32768 \<le> 20643840000000000"
    using assms by linarith
  ultimately show ?thesis
    using assms
    by (simp add: calcPricePer32G_def newAmountFromMASS_spec u128_simps int64_def NumberOf32GOnePB_def
      validated_spec NewAmount_def checkedAmount_spec)
qed

lemma div_5000000_bounds:
  assumes "0 < (i :: int)"
  shows "0 \<le> 5000000 div i" "5000000 div i \<le> 5000000"
  using assms div_le_dividend_int [of 5000000 i] by (auto simp: pos_imp_zdiv_nonneg_iff)

lemma uint_div_5000000:
  assumes "0 < (i :: int)"
  shows "uint (word_of_int (5000000 div i) :: u64) = 5000000 div i"
  using div_5000000_bounds [OF assms] by (simp add: uint_word_of_int)

lemma init_step_spec:
  assumes "0 < i" "i < 2 ^ 50" "0 \<le> acc" "acc + 5000000 div i * 100000000 \<le> max_maxwell"
  shows "init_step i (mk_amount acc, ps) =
    (let acc' = acc + 5000000 div i * 100000000 in
     Ok (mk_amount acc', ps @ [\<lparr> AccumulativeUpperBound = mk_amount acc',
       PricePer32G = mk_amount (5000000 div (i * 100) * 100000000 div 32768) \<rparr>]))"
proof -
  have nn: "0 \<le> 5000000 div i" using assms(1) by (rule div_5000000_bounds)
  have "valid_amount (mk_amount acc)" "valid_amount (mk_amount (5000000 div i * 100000000))"
    using assms nn by (auto simp: valid_amount_def)
  moreover have "uint (word_of_int (5000000 div i) :: u64) = 5000000 div i"
    "uint (word_of_int (5000000 div (i * 100)) :: u64) = 5000000 div (i * 100)"
    using uint_div_5000000 [of i] uint_div_5000000 [of "i * 100"] assms(1) by simp_all
  moreover have "5000000 div i \<le> 206438400" "5000000 div (i * 100) \<le> 206438400"
    using div_5000000_bounds(2) [of i] div_5000000_bounds(2) [of "i * 100"] assms(1) by simp_all
  ultimately show ?thesis
    using assms
    by (simp add: init_step_def calcIntervalRequired_spec newAmountFromMASS_spec calcPricePer32G_spec
        amount_simps Let_def)
qed

lemma init_sinceMASSIP0002_ok: "init_sinceMASSIP0002 =
    Ok (map (\<lambda>(bound, price). \<lparr> AccumulativeUpperBound = mk_amount bound, PricePer32G = mk_amount price \<rparr>) price_table)"
  by (simp add: init_sinceMASSIP0002_def calcIntervalRequired_spec newAmountFromMASS_spec
     calcPricePer32G_spec upto.simps init_step_spec price_table_def)

lemma init_sinceGenesis_ok:
  "init_sinceGenesis = Ok (map_of (map (\<lambda>(b, p). (b, mk_amount (uint p))) (rev genesis_required)))"
  by (simp add: init_sinceGenesis_def genesis_required_def amount_simps)

lemma prices_eq: "bindingPriceSinceMASSIP0002 =
    map (\<lambda>(bound, price). \<lparr> AccumulativeUpperBound = mk_amount bound, PricePer32G = mk_amount price \<rparr>) price_table"
  by (simp add: bindingPriceSinceMASSIP0002_def init_sinceMASSIP0002_ok)

lemma length_prices [simp]: "length bindingPriceSinceMASSIP0002 = 30"
  by (simp add: prices_eq price_table_def)

lemma last_price: "AccumulativeUpperBound (last bindingPriceSinceMASSIP0002) = mk_amount 1580825600000000"
  by (simp add: prices_eq price_table_def)

section \<open>The search beyond the table\<close>

text \<open>The accumulated bound when the search reaches interval \<open>i\<close>, and the unit price there.\<close>

definition acc_bound :: "int \<Rightarrow> int" where
  "acc_bound i = 1580825600000000 + 100000000 * (\<Sum>j\<in>{31..<i}. 5000000 div j)"

definition unit_price :: "int \<Rightarrow> int" where
  "unit_price i = 5000000 div (i * 100) * 100000000 div 32768"

lemma unit_price_bounds:
  assumes "0 < i"
  shows "0 \<le> unit_price i" "unit_price i \<le> 100000000000"
proof -
  have d: "0 \<le> 5000000 div (i * 100)" "5000000 div (i * 100) \<le> 5000000"
    using div_5000000_bounds [of "i * 100"] assms by simp_all
  show "0 \<le> unit_price i" using d(1) by (simp add: unit_price_def pos_imp_zdiv_nonneg_iff)
  show "unit_price i \<le> 100000000000" using d(2) unfolding unit_price_def by linarith
qed

lemma unit_price_antimono:
  assumes "0 < i" "i \<le> j"
  shows "unit_price j \<le> unit_price i"
proof -
  have "5000000 div (j * 100) \<le> 5000000 div (i * 100)"
    using assms by (intro zdiv_mono2) auto
  then show ?thesis unfolding unit_price_def by (intro zdiv_mono1) auto
qed

text \<open>Each block of indices from \<open>2 ^ k\<close> to \<open>2 ^ (k + 1)\<close> contributes at most 5,000,000.\<close>

lemma dyadic_block_le: "(\<Sum>j\<in>{2 ^ k..<2 ^ Suc k}. 5000000 div (j :: int)) \<le> 5000000"
proof -
  have "(\<Sum>j\<in>{2 ^ k..<2 ^ Suc k}. 5000000 div (j :: int)) \<le> (\<Sum>j\<in>{2 ^ k..<2 ^ Suc k :: int}. 5000000 div 2 ^ k)"
    by (intro sum_mono zdiv_mono2) auto
  also have "\<dots> = 2 ^ k * (5000000 div 2 ^ k)" by simp
  also have "\<dots> \<le> 5000000"
    using mult_div_mod_eq [of "2 ^ k :: int" 5000000] pos_mod_sign [of "2 ^ k :: int" 5000000]
    by (metis add_increasing2 order_refl zero_less_numeral zero_less_power add.commute le_add_same_cancel1)
  finally show ?thesis .
qed

lemma dyadic_sum_le: "(\<Sum>j\<in>{16..<2 ^ (k + 4)}. 5000000 div (j :: int)) \<le> 5000000 * int k"
proof (induction k)
  case (Suc k)
  have "16 \<le> (2 :: int) ^ (k + 4)" by (simp add: power_add)
  then have "{16..<2 ^ (Suc k + 4) :: int} = {16..<2 ^ (k + 4)} \<union> {2 ^ (k + 4)..<2 ^ Suc (k + 4)}"
    by (subst ivl_disj_un_two(3)) auto
  then have "(\<Sum>j\<in>{16..<2 ^ (Suc k + 4)}. 5000000 div (j :: int)) =
      (\<Sum>j\<in>{16..<2 ^ (k + 4)}. 5000000 div j) + (\<Sum>j\<in>{2 ^ (k + 4)..<2 ^ Suc (k + 4)}. 5000000 div j)"
    by (simp add: sum.union_disjoint)
  then show ?case
    using Suc dyadic_block_le [of "k + 4"] by (simp del: power_Suc)
qed simp

text \<open>The intervals after 5,000,000 are empty, so the accumulated bound never exceeds 111,000,000 MASS.\<close>

lemma interval_sum_le: "(\<Sum>j\<in>{31..<i}. 5000000 div (j :: int)) \<le> 95000000"
proof -
  have z: "5000000 div j = 0" if "2 ^ 23 \<le> j" for j :: int
    using that by (simp add: div_pos_pos_trivial)
  have "(\<Sum>j\<in>{31..<i}. 5000000 div (j :: int)) \<le> (\<Sum>j\<in>{16..<max i (2 ^ 23)}. 5000000 div j)"
    by (rule sum_mono2) (auto simp: pos_imp_zdiv_nonneg_iff)
  also have "\<dots> = (\<Sum>j\<in>{16..<2 ^ 23}. 5000000 div j)"
    by (rule sum.mono_neutral_right) (auto intro: z)
  also have "\<dots> \<le> 95000000" using dyadic_sum_le [of 19] by simp
  finally show ?thesis .
qed

lemma acc_bound_le: "acc_bound i \<le> 11080825600000000"
  using interval_sum_le [of i] by (simp add: acc_bound_def)

lemma acc_bound_pos: "1580825600000000 \<le> acc_bound i"
  by (auto simp: acc_bound_def pos_imp_zdiv_nonneg_iff intro: sum_nonneg)

lemma acc_bound_Suc: "31 \<le> i \<Longrightarrow> acc_bound (i + 1) = acc_bound i + 5000000 div i * 100000000"
proof -
  assume "31 \<le> i"
  then have "{31..<i + 1} = insert i {31..<i}" by auto
  then show ?thesis by (simp add: acc_bound_def algebra_simps)
qed

lemma price_of_units_spec:
  assumes "0 \<le> u" "u \<le> 100000000000" "0 \<le> sint n" "sint n < 2 ^ 29"
  shows "price_of_units (mk_amount u) n =
    (if u * sint n > max_maxwell then Err (FAmount ErrMaxAmount) else Ok (mk_amount (u * sint n)))"
proof -
  have "u * sint n \<le> 100000000000 * 2 ^ 29" using assms by (intro mult_mono) auto
  moreover have "0 \<le> u * sint n" using assms by simp
  ultimately show ?thesis
    using assms by (simp add: not_less price_of_units_def u128_simps int64_def validated_spec NewAmount_def
        checkedAmount_spec)
qed

lemma price_beyond_spec:
  assumes "uint m \<le> 5000000"
  shows "price_beyond m n = price_of_units (mk_amount (uint m * 100000000 div 32768)) n"
proof -
  have "0 \<le> uint m * 100000000 div 32768" by (simp add: pos_imp_zdiv_nonneg_iff)
  moreover have "uint m * 100000000 div 32768 \<le> max_maxwell" using assms by linarith
  ultimately show ?thesis
    using assms by (simp add: not_less price_beyond_def newAmountFromMASS_spec u128_simps int64_def
        NumberOf32GOnePB_def validated_spec NewAmount_def checkedAmount_spec)
qed

lemma search_price_step:
  assumes "31 \<le> i" "i < 2 ^ 50"
  shows "search_price (Suc fuel) i (mk_amount (acc_bound i)) nb n =
    (if maxwell nb \<le> acc_bound (i + 1) then Some (price_of_units (mk_amount (unit_price i)) n)
     else search_price fuel (i + 1) (mk_amount (acc_bound (i + 1))) nb n)"
proof -
  note d = div_5000000_bounds [of i] div_5000000_bounds [of "i * 100"]
  have i: "0 < i" "0 < i * 100" using assms by simp_all
  have v: "valid_amount (mk_amount (acc_bound i))"
    using acc_bound_le [of i] acc_bound_pos [of i] by (simp add: valid_amount_def)
  have v': "valid_amount (mk_amount (5000000 div i * 100000000))"
    using d i by (simp add: valid_amount_def)
  have "Amount_Add (mk_amount (acc_bound i)) (mk_amount (5000000 div i * 100000000)) =
      Ok (mk_amount (acc_bound (i + 1)))"
    using acc_bound_le [of "i + 1"] acc_bound_Suc [of i] assms v v' by (simp add: amount_simps)
  moreover have "price_beyond (word_of_int (5000000 div (i * 100))) n = price_of_units (mk_amount (unit_price i)) n"
    unfolding unit_price_def
    using price_beyond_spec uint_div_5000000 [OF i(2)] d i by metis
  moreover have "newAmountFromMASS (word_of_int (5000000 div i)) = Ok (mk_amount (5000000 div i * 100000000))"
    using newAmountFromMASS_spec [of "word_of_int (5000000 div i)"] uint_div_5000000 [OF i(1)] d i by simp
  moreover have "wrap64 (i + 1) = i + 1" using assms by (simp add: wrap64_id int64_def)
  ultimately show ?thesis
    using assms i by (simp add: calcIntervalRequired_spec amount_simps del: div_mult_self1_is_m)
qed

lemma search_price_None:
  assumes "11080825600000000 < maxwell nb" "31 \<le> i" "i + int fuel \<le> 2 ^ 50"
  shows "search_price fuel i (mk_amount (acc_bound i)) nb n = None"
  using assms
proof (induction fuel arbitrary: i)
  case (Suc fuel)
  have "\<not> maxwell nb \<le> acc_bound (i + 1)" using Suc.prems(1) acc_bound_le [of "i + 1"] by simp
  with Suc show ?case by (simp add: search_price_step del: search_price.simps)
qed simp

lemma search_price_Some:
  assumes "31 \<le> i" "maxwell nb \<le> acc_bound (i + int k)" "acc_bound i < maxwell nb" "k \<le> fuel" "i + int k \<le> 2 ^ 50"
  shows "\<exists>j\<ge>i. acc_bound j < maxwell nb \<and> maxwell nb \<le> acc_bound (j + 1) \<and>
    search_price fuel i (mk_amount (acc_bound i)) nb n = Some (price_of_units (mk_amount (unit_price j)) n)"
  using assms
proof (induction k arbitrary: i fuel)
  case (Suc k)
  then obtain f where f: "fuel = Suc f" "k \<le> f" by (cases fuel) auto
  show ?case
  proof (cases "maxwell nb \<le> acc_bound (i + 1)")
    case True
    with Suc.prems f show ?thesis
      by (intro exI [of _ i]) (simp add: search_price_step del: search_price.simps)
  next
    case False
    with Suc.prems f obtain j where "i + 1 \<le> j" "acc_bound j < maxwell nb" "maxwell nb \<le> acc_bound (j + 1)"
      "search_price f (i + 1) (mk_amount (acc_bound (i + 1))) nb n = Some (price_of_units (mk_amount (unit_price j)) n)"
      using Suc.IH [of "i + 1" f] by (auto simp: add.assoc)
    with False Suc.prems f show ?thesis
      by (intro exI [of _ j]) (simp add: search_price_step del: search_price.simps)
  qed
qed simp

text \<open>A returned price is at most that of the first interval searched, and falls as the binding grows.\<close>

lemma search_price_le:
  assumes "search_price fuel i (mk_amount (acc_bound i)) nb n = Some r"
    and "31 \<le> i" "i + int fuel \<le> 2 ^ 50"
  shows "\<exists>j\<ge>i. r = price_of_units (mk_amount (unit_price j)) n"
  using assms
proof (induction fuel arbitrary: i)
  case (Suc fuel)
  show ?case
  proof (cases "maxwell nb \<le> acc_bound (i + 1)")
    case True
    with Suc.prems show ?thesis by (auto simp add: search_price_step simp del: search_price.simps)
  next
    case False
    with Suc.prems have "search_price fuel (i + 1) (mk_amount (acc_bound (i + 1))) nb n = Some r"
      by (simp add: search_price_step del: search_price.simps)
    with Suc.IH [of "i + 1"] Suc.prems obtain j where
      "i + 1 \<le> j" "r = price_of_units (mk_amount (unit_price j)) n" by auto
    then show ?thesis by (intro exI [of _ j]) simp
  qed
qed simp

lemma search_price_antimono:
  assumes "search_price fuel i (mk_amount (acc_bound i)) nb1 n = Some r1"
    and "search_price fuel i (mk_amount (acc_bound i)) nb2 n = Some r2"
    and "maxwell nb1 \<le> maxwell nb2" "31 \<le> i" "i + int fuel \<le> 2 ^ 50"
  shows "\<exists>j1\<ge>i. \<exists>j2\<ge>j1. r1 = price_of_units (mk_amount (unit_price j1)) n \<and>
    r2 = price_of_units (mk_amount (unit_price j2)) n"
  using assms
proof (induction fuel arbitrary: i)
  case (Suc fuel)
  show ?case
  proof (cases "maxwell nb1 \<le> acc_bound (i + 1)")
    case True
    with Suc.prems search_price_le [OF Suc.prems(2)] show ?thesis
      by (auto simp add: search_price_step simp del: search_price.simps)
  next
    case False
    with Suc.prems have "search_price fuel (i + 1) (mk_amount (acc_bound (i + 1))) nb1 n = Some r1"
      "search_price fuel (i + 1) (mk_amount (acc_bound (i + 1))) nb2 n = Some r2"
      by (simp_all add: search_price_step del: search_price.simps)
    with Suc.IH [of "i + 1"] Suc.prems obtain j1 j2 where
      "i + 1 \<le> j1" "j1 \<le> j2" "r1 = price_of_units (mk_amount (unit_price j1)) n"
      "r2 = price_of_units (mk_amount (unit_price j2)) n" by auto
    then show ?thesis by (intro exI [of _ j1] conjI exI [of _ j2]) simp_all
  qed
qed simp

text \<open>The search reaches every binding of up to 55,000,000 MASS within \<open>2 ^ 23\<close> iterations.\<close>

lemma dyadic_block_ge: "2 ^ k * (5000000 div 2 ^ Suc k) \<le> (\<Sum>j\<in>{2 ^ k..<2 ^ Suc k}. 5000000 div (j :: int))"
proof -
  have "2 ^ k * (5000000 div 2 ^ Suc k :: int) = (\<Sum>j\<in>{2 ^ k..<2 ^ Suc k :: int}. 5000000 div 2 ^ Suc k)" by simp
  also have "\<dots> \<le> (\<Sum>j\<in>{2 ^ k..<2 ^ Suc k}. 5000000 div (j :: int))"
    by (intro sum_mono zdiv_mono2) (auto intro: less_le_trans [of 0 "2 ^ k"])
  finally show ?thesis .
qed

lemma dyadic_sum_ge:
  "(\<Sum>m<k. 2 ^ (m + 5) * (5000000 div 2 ^ (m + 6))) \<le> (\<Sum>j\<in>{32..<2 ^ (k + 5)}. 5000000 div (j :: int))"
proof (induction k)
  case (Suc k)
  have "32 \<le> (2 :: int) ^ (k + 5)" by (simp add: power_add)
  then have "{32..<2 ^ (Suc k + 5) :: int} = {32..<2 ^ (k + 5)} \<union> {2 ^ (k + 5)..<2 ^ Suc (k + 5)}"
    by (subst ivl_disj_un_two(3)) auto
  then have "(\<Sum>j\<in>{32..<2 ^ (Suc k + 5)}. 5000000 div (j :: int)) =
      (\<Sum>j\<in>{32..<2 ^ (k + 5)}. 5000000 div j) + (\<Sum>j\<in>{2 ^ (k + 5)..<2 ^ Suc (k + 5)}. 5000000 div j)"
    by (simp add: sum.union_disjoint)
  moreover have "Suc (k + 5) = k + 6" "Suc k + 5 = k + 6" by simp_all
  ultimately show ?case
    using Suc dyadic_block_ge [of "k + 5"] by (simp only: sum.lessThan_Suc)
qed simp

lemma acc_bound_reaches: "5500000000000000 \<le> acc_bound (31 + 8388577)"
proof -
  have "(\<Sum>m<18. 2 ^ (m + 5) * (5000000 div 2 ^ (m + 6))) \<le> (\<Sum>j\<in>{32..<8388608}. 5000000 div (j :: int))"
    using dyadic_sum_ge [of 18] by simp
  also have "\<dots> \<le> (\<Sum>j\<in>{31..<8388608}. 5000000 div j)"
    by (rule sum_mono2) (auto simp: pos_imp_zdiv_nonneg_iff)
  finally show ?thesis by (simp add: acc_bound_def lessThan_nat_numeral lessThan_Suc)
qed

section \<open>The required binding\<close>

definition plot_units :: "u64 \<Rightarrow> u64" where
  "plot_units plotSize = (if drop_bit 35 plotSize = 0 then 1 else drop_bit 35 plotSize)"

lemma sint_plot_units: "1 \<le> sint (plot_units p)" "sint (plot_units p) < 2 ^ 29"
proof -
  have u: "uint (drop_bit 35 p) = uint p div 2 ^ 35" by (simp add: drop_bit_eq_div uint_div_distrib)
  then have "uint (drop_bit 35 p) < 2 ^ 29" using uint_lt2p [of p] by simp
  moreover have "0 < uint (drop_bit 35 p)" if "drop_bit 35 p \<noteq> 0"
    using that by (metis uint_0_iff uint_ge_0 order_le_less)
  ultimately show "1 \<le> sint (plot_units p)" "sint (plot_units p) < 2 ^ 29"
    by (auto simp: plot_units_def sint_uint signed_take_bit_int_eq_self)
qed

lemma find_price_in: "find_price nb ps = Some p \<Longrightarrow> p \<in> set ps"
  by (induction ps) (auto split: if_splits)

lemma find_price_None_mono:
  "find_price nb1 ps = None \<Longrightarrow> maxwell nb1 \<le> maxwell nb2 \<Longrightarrow> find_price nb2 ps = None"
  by (induction ps) (auto simp: amount_simps split: if_splits)

lemma find_price_antimono:
  assumes "sorted_wrt (\<lambda>p q. maxwell (PricePer32G q) \<le> maxwell (PricePer32G p)) ps"
    and "find_price nb1 ps = Some p1" "find_price nb2 ps = Some p2" "maxwell nb1 \<le> maxwell nb2"
  shows "maxwell (PricePer32G p2) \<le> maxwell (PricePer32G p1)"
  using assms
proof (induction ps)
  case (Cons p ps)
  show ?case
  proof (cases "maxwell nb2 \<le> maxwell (AccumulativeUpperBound p)")
    case True
    with Cons.prems show ?thesis by (auto simp: amount_simps)
  next
    case False
    then have "find_price nb2 ps = Some p2" using Cons.prems by (simp add: amount_simps)
    with Cons show ?thesis using find_price_in by (fastforce simp: amount_simps split: if_splits)
  qed
qed simp

lemma prices_sorted:
  "sorted_wrt (\<lambda>p q. maxwell (PricePer32G q) \<le> maxwell (PricePer32G p)) bindingPriceSinceMASSIP0002"
  by (simp add: prices_eq price_table_def)

lemma prices_range:
  "p \<in> set bindingPriceSinceMASSIP0002 \<Longrightarrow>
    unit_price 31 \<le> maxwell (PricePer32G p) \<and> maxwell (PricePer32G p) \<le> 100000000000"
  by (auto simp: prices_eq price_table_def unit_price_def)

lemma find_price_exceeds: "find_price nb bindingPriceSinceMASSIP0002 = None \<Longrightarrow> 1580825600000000 < maxwell nb"
  by (simp add: prices_eq price_table_def amount_simps split: if_splits)

lemma find_price_None: "1580825600000000 < maxwell nb \<Longrightarrow> find_price nb bindingPriceSinceMASSIP0002 = None"
  by (simp add: prices_eq price_table_def amount_simps)

lemma acc_bound_31: "acc_bound 31 = 1580825600000000"
  by (simp add: acc_bound_def)

lemma GetRequiredBinding_alt:
  assumes "EnforceMASSIP0002WarmUp h" "plotSize \<noteq> 0"
  shows "GetRequiredBinding fuel h plotSize bl nb =
    (case find_price nb bindingPriceSinceMASSIP0002 of
       Some p \<Rightarrow> Some (price_of_units (mk_amount (maxwell (PricePer32G p))) (plot_units plotSize))
     | None \<Rightarrow> search_price fuel 31 (mk_amount (acc_bound 31)) nb (plot_units plotSize))"
  using assms by (simp add: GetRequiredBinding_def plot_units_def last_price acc_bound_31 split: option.splits)

lemma price_of_units_Ok_mono:
  assumes "price_of_units (mk_amount u1) (plot_units p) = Ok a1" "price_of_units (mk_amount u2) (plot_units p) = Ok a2"
    and "0 \<le> u2" "u2 \<le> u1" "u1 \<le> 100000000000"
  shows "maxwell a2 \<le> maxwell a1"
proof -
  have "maxwell a1 = u1 * sint (plot_units p)" "maxwell a2 = u2 * sint (plot_units p)"
    using assms sint_plot_units [of p] by (auto simp: price_of_units_spec split: if_splits)
  then show ?thesis using assms sint_plot_units [of p] by (simp add: mult_right_mono)
qed

lemma unit_price_range: "31 \<le> j \<Longrightarrow> 0 \<le> unit_price j \<and> unit_price j \<le> unit_price 31 \<and> unit_price j \<le> 100000000000"
  using unit_price_bounds [of j] unit_price_antimono [of 31 j] by simp

text \<open>C9 (GetRequiredBinding, monotone price). After the warm-up height, when the network's total
  binding grows, the binding required for the same plot size never grows: of two calls that both
  return a price, the one with the larger network binding returns a price that is at most the other.\<close>

theorem GetRequiredBinding_antimono:
  assumes "EnforceMASSIP0002WarmUp h" "plotSize \<noteq> 0" "fuel \<le> 2 ^ 49"
    and "GetRequiredBinding fuel h plotSize bl nb1 = Some (Ok a1)"
    and "GetRequiredBinding fuel h plotSize bl nb2 = Some (Ok a2)"
    and "maxwell nb1 \<le> maxwell nb2"
  shows "maxwell a2 \<le> maxwell a1"
proof (cases "find_price nb2 bindingPriceSinceMASSIP0002")
  case (Some p2)
  then obtain p1 where p1: "find_price nb1 bindingPriceSinceMASSIP0002 = Some p1"
    using find_price_None_mono assms(6) by (metis option.exhaust option.distinct(1))
  show ?thesis
    by (rule price_of_units_Ok_mono [of "maxwell (PricePer32G p1)" plotSize _ "maxwell (PricePer32G p2)"])
      (use assms p1 Some find_price_antimono [OF prices_sorted p1 Some assms(6)] prices_range
          find_price_in [OF p1] find_price_in [OF Some] unit_price_range [of 31]
        in \<open>auto simp: GetRequiredBinding_alt intro: order_trans\<close>)
next
  case None
  then have s2: "search_price fuel 31 (mk_amount (acc_bound 31)) nb2 (plot_units plotSize) = Some (Ok a2)"
    using assms by (simp add: GetRequiredBinding_alt)
  have fuel: "31 + int fuel \<le> 2 ^ 50" using assms(3) by simp
  show ?thesis
  proof (cases "find_price nb1 bindingPriceSinceMASSIP0002")
    case (Some p1)
    obtain j where "31 \<le> j" "Ok a2 = price_of_units (mk_amount (unit_price j)) (plot_units plotSize)"
      using search_price_le [OF s2 _ fuel] by auto
    then show ?thesis
      using price_of_units_Ok_mono [of "maxwell (PricePer32G p1)" plotSize a1 "unit_price j" a2] assms Some
        prices_range [OF find_price_in [OF Some]] unit_price_range [of j]
      by (auto simp: GetRequiredBinding_alt)
  next
    case None
    then have s1: "search_price fuel 31 (mk_amount (acc_bound 31)) nb1 (plot_units plotSize) = Some (Ok a1)"
      using assms by (simp add: GetRequiredBinding_alt)
    obtain j1 j2 where "31 \<le> j1" "j1 \<le> j2"
      "Ok a1 = price_of_units (mk_amount (unit_price j1)) (plot_units plotSize)"
      "Ok a2 = price_of_units (mk_amount (unit_price j2)) (plot_units plotSize)"
      using search_price_antimono [OF s1 s2 assms(6) _ fuel] by auto
    then show ?thesis
      using price_of_units_Ok_mono [of "unit_price j1" plotSize a1 "unit_price j2" a2]
        unit_price_range [of j1] unit_price_range [of j2] unit_price_antimono [of j1 j2] by simp
  qed
qed

section \<open>The price of an interval\<close>

text \<open>What the prices are meant to be, without the code's table or its search. Interval \<open>j\<close> holds
  \<open>5000000 div j\<close> MASS at \<open>5000000 div (100 j)\<close> MASS for each PiB; the first three intervals are those of
  index 3, so the accumulated bound of interval \<open>j \<ge> 3\<close> starts from twice 1,666,666 MASS.\<close>

definition interval_end :: "int \<Rightarrow> int" where
  "interval_end j = 100000000 * (3333332 + (\<Sum>i\<in>{3..j}. 5000000 div i))"

definition interval_price :: "amount \<Rightarrow> int \<Rightarrow> bool" where
  "interval_price nb u \<longleftrightarrow>
    (\<exists>j\<ge>3. (3 < j \<longrightarrow> interval_end (j - 1) < maxwell nb) \<and> maxwell nb \<le> interval_end j \<and> u = unit_price j)"

lemma interval_end_Suc: "3 \<le> j \<Longrightarrow> interval_end j = interval_end (j - 1) + 100000000 * (5000000 div j)"
proof -
  assume "3 \<le> j"
  then have "{3..j} = insert j {3..j - 1}" by auto
  then show ?thesis by (simp add: interval_end_def algebra_simps)
qed

lemma interval_end_2: "interval_end 2 = 333333200000000"
  by (simp add: interval_end_def)

lemma price_table_intervals:
  "price_table = (166666600000000, unit_price 3) # (333333200000000, unit_price 3) #
    map (\<lambda>j. (interval_end j, unit_price j)) [3..30]"
  by (simp add: price_table_def upto.simps interval_end_Suc interval_end_2 unit_price_def)

lemma acc_bound_interval_end: "31 \<le> j \<Longrightarrow> acc_bound j = interval_end (j - 1)"
proof (induction j rule: int_ge_induct)
  case base
  show ?case by (simp add: acc_bound_31 interval_end_Suc interval_end_2)
next
  case (step j)
  then show ?case using acc_bound_Suc [of j] interval_end_Suc [of j] by simp
qed

abbreviation table_entry :: "int \<times> int \<Rightarrow> NetworkBindingPrice" where
  "table_entry \<equiv> \<lambda>(bound, price). \<lparr> AccumulativeUpperBound = mk_amount bound, PricePer32G = mk_amount price \<rparr>"

lemma find_price_intervals:
  assumes "find_price nb (map table_entry (map (\<lambda>j. (interval_end j, unit_price j)) [i..k])) = Some p"
    and "3 \<le> i" "3 < i \<longrightarrow> interval_end (i - 1) < maxwell nb"
  shows "interval_price nb (maxwell (PricePer32G p))"
  using assms
proof (induction i k rule: upto.induct)
  case (1 i k)
  have ik: "i \<le> k" using 1(2) by (cases "i \<le> k") simp_all
  show ?case
  proof (cases "maxwell nb \<le> interval_end i")
    case True
    then have "PricePer32G p = mk_amount (unit_price i)" using 1(2) ik by (auto simp: upto_rec1 amount_simps)
    with True 1(3,4) show ?thesis by (auto simp: interval_price_def intro!: exI [of _ i])
  next
    case False
    then have "find_price nb (map table_entry (map (\<lambda>j. (interval_end j, unit_price j)) [i + 1..k])) = Some p"
      using 1(2) ik by (simp add: upto_rec1 amount_simps)
    with False 1(1) [OF ik] 1(3) show ?thesis by simp
  qed
qed

lemma find_price_interval:
  assumes "find_price nb bindingPriceSinceMASSIP0002 = Some p"
  shows "interval_price nb (maxwell (PricePer32G p))"
proof (cases "maxwell nb \<le> 333333200000000")
  case True
  then have "maxwell (PricePer32G p) = unit_price 3"
    using assms by (auto simp: prices_eq price_table_intervals amount_simps split: if_splits)
  moreover have "maxwell nb \<le> interval_end 3" using True by (simp add: interval_end_Suc interval_end_2)
  ultimately show ?thesis by (auto simp: interval_price_def intro!: exI [of _ 3])
next
  case False
  with assms find_price_intervals [of nb 3 30 p] show ?thesis
    by (simp add: prices_eq price_table_intervals amount_simps)
qed

lemma plot_units_eq: "sint (plot_units p) = max 1 (uint p div 2 ^ 35)"
proof -
  have u: "uint (drop_bit 35 p) = uint p div 2 ^ 35" by (simp add: drop_bit_eq_div uint_div_distrib)
  moreover from this have "uint (drop_bit 35 p) < 2 ^ 29" using uint_lt2p [of p] by simp
  moreover have "1 \<le> uint (drop_bit 35 p)" if "drop_bit 35 p \<noteq> 0"
    using that uint_ge_0 [of "drop_bit 35 p"] uint_0_iff [of "drop_bit 35 p"] by linarith
  ultimately show ?thesis
    by (cases "drop_bit 35 p = 0") (auto simp: plot_units_def sint_uint signed_take_bit_int_eq_self)
qed

text \<open>C8 (GetRequiredBinding, termination and price). After the warm-up height, for a plot size other than
  zero and every network binding of at most 55,000,000 MASS, the call returns within \<open>2 ^ 23\<close> iterations
  of its search. With \<open>u\<close> the price of 32 GiB in the interval the binding falls into and \<open>n\<close> the number of
  whole units of 32 GiB (1 for a smaller plot), the result is \<open>u * n\<close>, or the error \<open>ErrMaxAmount\<close> when
  that exceeds the maximum amount. The interval and its price are those of \<open>interval_price\<close>, stated
  without the table of \<open>init\<close>.\<close>

theorem GetRequiredBinding_returns:
  assumes "EnforceMASSIP0002WarmUp h" "plotSize \<noteq> 0" "2 ^ 23 \<le> fuel"
    and "maxwell nb \<le> 5500000000000000"
  shows "\<exists>u. interval_price nb u \<and> GetRequiredBinding fuel h plotSize bl nb = Some
    (let required = u * max 1 (uint plotSize div 2 ^ 35) in
     if required > max_maxwell then Err (FAmount ErrMaxAmount) else Ok (mk_amount required))"
proof (cases "find_price nb bindingPriceSinceMASSIP0002")
  case (Some p)
  have "0 \<le> maxwell (PricePer32G p)" "maxwell (PricePer32G p) \<le> 100000000000"
    using prices_range [OF find_price_in [OF Some]] unit_price_range [of 31] by auto
  from price_of_units_spec [OF this, of "plot_units plotSize"] Some show ?thesis
    unfolding plot_units_eq [symmetric]
    using assms(1,2) sint_plot_units [of plotSize] find_price_interval [OF Some]
    by (intro exI [of _ "maxwell (PricePer32G p)"]) (simp add: GetRequiredBinding_alt Let_def)
next
  case None
  have "maxwell nb \<le> acc_bound (31 + int 8388577)" using acc_bound_reaches assms(4) by simp
  moreover have "acc_bound 31 < maxwell nb" using find_price_exceeds [OF None] by (simp add: acc_bound_31)
  ultimately obtain j where j: "31 \<le> j" "acc_bound j < maxwell nb" "maxwell nb \<le> acc_bound (j + 1)"
    "search_price fuel 31 (mk_amount (acc_bound 31)) nb (plot_units plotSize) =
       Some (price_of_units (mk_amount (unit_price j)) (plot_units plotSize))"
    using search_price_Some [of 31 nb 8388577 fuel "plot_units plotSize"] assms(3) by auto
  then have "interval_price nb (unit_price j)"
    using acc_bound_interval_end [of j] acc_bound_interval_end [of "j + 1"]
    by (auto simp: interval_price_def intro!: exI [of _ j])
  with j show ?thesis
    unfolding plot_units_eq [symmetric]
    using assms(1,2) None unit_price_range [of j] sint_plot_units [of plotSize]
    by (intro exI [of _ "unit_price j"])
      (simp add: GetRequiredBinding_alt price_of_units_spec Let_def)
qed

section \<open>The search without an end\<close>

text \<open>Up to the index \<open>2 ^ 62\<close>, where \<^verbatim>\<open>i * 100\<close> wraps around to zero, the divisions are defined;
  the intervals after the five-millionth are empty and leave the accumulated bound as it is.\<close>

lemma wrap_times_100:
  assumes "0 < i" "i < 2 ^ 62"
  shows "wrap64 (i * 100) \<noteq> 0"
proof
  assume "wrap64 (i * 100) = 0"
  then have "(i * 100 + 2 ^ 63) mod 2 ^ 64 = 2 ^ 63" by (simp add: wrap64_def)
  then obtain q where "i * 100 + 2 ^ 63 = 2 ^ 64 * q + 2 ^ 63"
    using mult_div_mod_eq [of "2 ^ 64" "i * 100 + 2 ^ 63"] by metis
  then have "i * 25 = 2 ^ 62 * q" by simp
  then have "(2 :: int) ^ 62 dvd i * 25" by (rule dvdI)
  moreover have "coprime ((2 :: int) ^ 62) 25" by (simp only: coprime_power_left_iff) simp
  ultimately have "(2 :: int) ^ 62 dvd i" by (simp add: coprime_dvd_mult_left_iff)
  then show False using assms zdvd_imp_le [of "2 ^ 62" i] by simp
qed

lemma search_price_empty_step:
  assumes "5000000 < i" "i < 2 ^ 62" "valid_amount acc" "maxwell acc < maxwell nb"
  shows "search_price (Suc fuel) i acc nb n = search_price fuel (i + 1) acc nb n"
proof -
  have "calcIntervalRequired i = Ok (word_of_int (quo 5000000 (wrap64 (i * 100))), 0)"
    using assms wrap_times_100 [of i] by (simp add: calcIntervalRequired_def Let_def quo_def div_pos_pos_trivial)
  moreover have "newAmountFromMASS 0 = Ok (mk_amount 0)" using newAmountFromMASS_spec [of 0] by simp
  moreover have "Amount_Add acc (mk_amount 0) = Ok acc"
    using assms(3) by (cases acc) (auto simp: amount_simps valid_amount_def)
  moreover have "wrap64 (i + 1) = i + 1" using assms by (simp add: wrap64_id int64_def)
  ultimately show ?thesis using assms by (simp add: amount_simps)
qed

lemma search_price_panics: "search_price (Suc fuel) (2 ^ 62) acc nb n = Some Panic"
  by (simp add: calcIntervalRequired_def wrap64_def)

lemma search_price_exhausts:
  assumes "11080825600000000 < maxwell nb" "2 ^ 49 \<le> i" "i \<le> 2 ^ 62" "valid_amount acc" "maxwell acc < maxwell nb"
  shows "search_price fuel i acc nb n = (if i + int fuel \<le> 2 ^ 62 then None else Some Panic)"
  using assms
proof (induction fuel arbitrary: i)
  case (Suc fuel)
  show ?case
  proof (cases "i = 2 ^ 62")
    case True
    then show ?thesis using search_price_panics [of fuel acc nb n] by simp
  next
    case False
    with Suc show ?thesis using search_price_empty_step [of i acc nb fuel n] by simp
  qed
qed simp

lemma search_price_beyond:
  assumes "11080825600000000 < maxwell nb" "31 \<le> i" "i + int k \<le> 2 ^ 50"
  shows "search_price (k + fuel) i (mk_amount (acc_bound i)) nb n =
    search_price fuel (i + int k) (mk_amount (acc_bound (i + int k))) nb n"
  using assms
proof (induction k arbitrary: i)
  case (Suc k)
  have "\<not> maxwell nb \<le> acc_bound (i + 1)" using Suc.prems(1) acc_bound_le [of "i + 1"] by simp
  with Suc.IH [of "i + 1"] Suc.prems show ?case
    by (simp add: search_price_step add.assoc del: search_price.simps)
qed simp

text \<open>C10 (GetRequiredBinding, no result). After the warm-up height and for a plot size other than zero:
  the intervals are empty after the five-millionth and the accumulated bound stays below 111,000,000 MASS.
  For a network binding of at least that, which the supply of 206,438,400 MASS allows, the call never
  returns a price or an error: it is still searching after any number of iterations below
  \<open>2 ^ 62 - 30\<close>, and in that iteration \<^verbatim>\<open>i * 100\<close> wraps around to zero and the division panics.\<close>

theorem GetRequiredBinding_diverges:
  assumes "EnforceMASSIP0002WarmUp h" "plotSize \<noteq> 0"
    and "11100000000000000 \<le> maxwell nb"
  shows "GetRequiredBinding fuel h plotSize bl nb = (if fuel < 2 ^ 62 - 30 then None else Some Panic)"
proof (cases "fuel \<le> 2 ^ 49")
  case True
  then show ?thesis
    using assms find_price_None [of nb] search_price_None [of nb 31 fuel] by (simp add: GetRequiredBinding_alt)
next
  case False
  then obtain f where f: "fuel = 2 ^ 49 + f" by (metis nat_le_linear le_Suc_ex)
  have "valid_amount (mk_amount (acc_bound i))" "maxwell (mk_amount (acc_bound i)) < maxwell nb" for i
    using acc_bound_le [of i] acc_bound_pos [of i] assms(3) by (auto simp: valid_amount_def)
  with f show ?thesis
    using assms find_price_None [of nb] search_price_beyond [of nb 31 "2 ^ 49" f "plot_units plotSize"]
    by (simp add: GetRequiredBinding_alt search_price_exhausts del: search_price.simps)
qed

theorem GetRequiredBinding_diverges_witness:
  "EnforceMASSIP0002WarmUp 1500000 \<and> valid_amount (mk_amount 12000000000000000) \<and>
    GetRequiredBinding (2 ^ 49) 1500000 (2 ^ 40) 0 (mk_amount 12000000000000000) = None \<and>
    GetRequiredBinding (2 ^ 62) 1500000 (2 ^ 40) 0 (mk_amount 12000000000000000) = Some Panic"
  using GetRequiredBinding_diverges [of 1500000 "2 ^ 40" "mk_amount 12000000000000000" "2 ^ 49" 0]
    GetRequiredBinding_diverges [of 1500000 "2 ^ 40" "mk_amount 12000000000000000" "2 ^ 62" 0]
  by (simp add: EnforceMASSIP0002WarmUp_def params valid_amount_def)

theorem GetRequiredBinding_returns_witness:
  "\<exists>u. interval_price (mk_amount 5000000000000000) u \<and> GetRequiredBinding (2 ^ 23) 1500000 (2 ^ 40) 0 (mk_amount 5000000000000000) = Some
    (let required = u * max 1 (uint (2 ^ 40 :: u64) div 2 ^ 35) in
     if required > max_maxwell then Err (FAmount ErrMaxAmount) else Ok (mk_amount required))"
  by (rule GetRequiredBinding_returns) (simp_all add: EnforceMASSIP0002WarmUp_def params)

theorem GetRequiredBinding_antimono_witness:
  "GetRequiredBinding 1 1500000 (2 ^ 36) 0 (mk_amount 0) = Some (Ok (mk_amount 101721190)) \<and>
   GetRequiredBinding 1 1500000 (2 ^ 36) 0 (mk_amount 600000000000000) = Some (Ok (mk_amount 76293944)) \<and>
   maxwell (mk_amount 76293944) \<le> maxwell (mk_amount 101721190)"
proof -
  have "GetRequiredBinding 1 1500000 (2 ^ 36) 0 (mk_amount 0) = Some (Ok (mk_amount 101721190))"
    "GetRequiredBinding 1 1500000 (2 ^ 36) 0 (mk_amount 600000000000000) = Some (Ok (mk_amount 76293944))"
    by (simp_all add: GetRequiredBinding_alt EnforceMASSIP0002WarmUp_def params prices_eq price_table_def
        amount_simps price_of_units_spec plot_units_def drop_bit_eq_div)
  with GetRequiredBinding_antimono [OF _ _ _ this] show ?thesis
    by (simp add: EnforceMASSIP0002WarmUp_def params)
qed

end
