(* ===== verification/Reward.thy ===== *)
theory Reward
  imports Forks
begin

text \<open>
  \<^verbatim>\<open>blockchain/reward_logic.go\<close>: the subsidy of a block and its split between the miner and the staking
  nodes. The halving loop is a recursion on the shifted period number. The main result is the cap on
  the issued coins: whatever the binding and staking flags of the blocks are, the subsidies of all heights
  add up to at most the maximum amount.
\<close>

datatype reward_error =
    RUint128 uint128_error
  | RAmount amount_error
  | ErrNoValidBinding
  | ErrUnexpectedHeight

definition baseSubsidy :: uint128 where
  "baseSubsidy = NewUint128FromUint BaseSubsidy"

definition minHalvedSubsidy :: uint128 where
  "minHalvedSubsidy = NewUint128FromUint MinHalvedSubsidy"

definition minHalvedSubsidyForMASSIP2 :: uint128 where
  "minHalvedSubsidyForMASSIP2 = NewUint128FromUint (MinHalvedSubsidy * 4)"

definition fakeMASSIP2SubsidyStartHeight :: u64 where
  "fakeMASSIP2SubsidyStartHeight =
    (if MASSIP0002Height > 846720 \<and> MASSIP0002Height \<le> 1706880 then
       201601 + (MASSIP0002Height - 846720) * 215040 div 860160
     else 0)"

text \<open>The loop of \<^verbatim>\<open>calcRshNumBeforeIp2\<close>: shift \<open>t\<close>, count while it is not zero.\<close>

function rsh_loop :: "u64 \<Rightarrow> nat \<Rightarrow> nat" where
  "rsh_loop t i = (let t' = drop_bit 1 t in if t' \<noteq> 0 then rsh_loop t' (i + 1) else i)"
  by pat_completeness auto
termination
proof (relation "measure (\<lambda>(t, i). unat t)", goal_cases)
  case (2 t i t')
  then have "t \<noteq> 0" by auto
  then have "0 < unat t" by (simp add: unat_gt_0)
  moreover have "unat t' = unat t div 2" using 2 by (simp add: drop_bit_eq_div unat_div_distrib)
  ultimately show ?case by simp
qed simp

declare rsh_loop.simps [simp del]

definition calcRshNumBeforeIp2 :: "u64 \<Rightarrow> nat" where
  "calcRshNumBeforeIp2 height = rsh_loop ((height - 1) div SubsidyHalvingInterval + 1) 0"

definition allocSubsidyBeforeIp2 :: "uint128 \<Rightarrow> bool \<Rightarrow> bool \<Rightarrow> bool \<Rightarrow> (reward_error, amount \<times> amount) res" where
  "allocSubsidyBeforeIp2 subsidy hasValidBinding hasStaking hasGameReward =
    bindR
      (if hasGameReward then
         (if \<not> hasStaking \<and> \<not> hasValidBinding then
            bindR (liftE RUint128 (Uint128_MulInt subsidy 1875)) (\<lambda>temp.
            bindR (liftE RUint128 (Uint128_DivInt temp 10000)) (\<lambda>miner.
            Ok (miner, NewUint128)))
          else if \<not> hasStaking \<and> hasValidBinding then
            bindR (liftE RUint128 (Uint128_MulInt subsidy 8125)) (\<lambda>temp.
            bindR (liftE RUint128 (Uint128_DivInt temp 10000)) (\<lambda>miner.
            Ok (miner, NewUint128)))
          else if hasStaking \<and> \<not> hasValidBinding then
            bindR (liftE RUint128 (Uint128_MulInt subsidy 1875)) (\<lambda>temp.
            bindR (liftE RUint128 (Uint128_DivInt temp 10000)) (\<lambda>miner.
            bindR (liftE RUint128 (Uint128_Sub subsidy miner)) (\<lambda>superNode.
            Ok (miner, superNode))))
          else
            bindR (liftE RUint128 (Uint128_MulInt subsidy 8125)) (\<lambda>temp.
            bindR (liftE RUint128 (Uint128_DivInt temp 10000)) (\<lambda>miner.
            bindR (liftE RUint128 (Uint128_Sub subsidy miner)) (\<lambda>superNode.
            Ok (miner, superNode)))))
       else
         bindR (liftE RUint128 (Uint128_MulInt subsidy 1875)) (\<lambda>miner.
         bindR (liftE RUint128 (Uint128_DivInt miner 10000)) (\<lambda>miner.
         Ok (miner, if hasStaking then Uint128_DeepCopy miner else NewUint128))))
      (\<lambda>(miner, superNode).
        bindR (liftE RAmount (NewAmount miner)) (\<lambda>m.
        bindR (liftE RAmount (NewAmount superNode)) (\<lambda>sn.
        Ok (m, sn))))"

definition calcBlockSubsidyBeforeIp2 :: "u64 \<Rightarrow> 'a chain_params_scheme \<Rightarrow> bool \<Rightarrow> bool \<Rightarrow> bool \<Rightarrow>
    (reward_error, amount \<times> amount) res" where
  "calcBlockSubsidyBeforeIp2 height chainParams hasValidBinding hasStaking hasGameReward =
    (let subsidy =
       (if SubsidyHalvingInterval_cfg chainParams \<noteq> 0 then
          let s = Uint128_Rsh baseSubsidy (calcRshNumBeforeIp2 height) in
          if Uint128_Lt s minHalvedSubsidy then NewUint128 else s
        else baseSubsidy)
     in if Uint128_IsZero subsidy then Ok (zeroAmount, zeroAmount)
        else allocSubsidyBeforeIp2 subsidy hasValidBinding hasStaking hasGameReward)"

definition allocSubsidy :: "uint128 \<Rightarrow> bool \<Rightarrow> (reward_error, amount \<times> amount) res" where
  "allocSubsidy subsidy hasStaking =
    bindR (if hasStaking then liftE RUint128 (Uint128_DivInt subsidy 10) else Ok NewUint128) (\<lambda>stakingNodes.
    bindR (liftE RUint128 (Uint128_Sub subsidy stakingNodes)) (\<lambda>miner.
    bindR
      (if Uint128_IsZero stakingNodes then
         bindR (liftE RUint128 (Uint128_MulInt subsidy 9)) (\<lambda>miner.
         liftE RUint128 (Uint128_DivInt miner 10))
       else Ok miner) (\<lambda>miner.
    bindR (liftE RAmount (NewAmount miner)) (\<lambda>binding.
    bindR (liftE RAmount (NewAmount stakingNodes)) (\<lambda>staking.
    Ok (binding, staking))))))"

definition calcBlockSubsidy :: "u64 \<Rightarrow> 'a chain_params_scheme \<Rightarrow> bool \<Rightarrow> (reward_error, amount \<times> amount) res" where
  "calcBlockSubsidy height chainParams hasStaking =
    bindR
      (if SubsidyHalvingInterval_cfg chainParams \<noteq> 0 then
         bindR
           (if fakeMASSIP2SubsidyStartHeight \<noteq> 0 then
              if height < MASSIP0002Height then Err ErrUnexpectedHeight
              else Ok (fakeMASSIP2SubsidyStartHeight + height - MASSIP0002Height)
            else Ok height)
           (\<lambda>height.
             let subsidy = Uint128_Rsh baseSubsidy (calcRshNumBeforeIp2 height) in
             Ok (if Uint128_Lt subsidy minHalvedSubsidyForMASSIP2 then NewUint128 else subsidy))
       else Ok baseSubsidy)
      (\<lambda>subsidy.
        if Uint128_IsZero subsidy then Ok (zeroAmount, zeroAmount)
        else allocSubsidy subsidy hasStaking)"

definition CalcBlockSubsidy :: "u64 \<Rightarrow> 'a chain_params_scheme \<Rightarrow> bool \<Rightarrow> bool \<Rightarrow>
    (reward_error, amount \<times> amount) res" where
  "CalcBlockSubsidy height chainParams hasValidBinding hasStaking =
    (if \<not> EnforceMASSIP0002 height then
       let hasGameReward = \<not> EnforceMASSIP0002WarmUp height;
           hasValidBinding = (if EnforceMASSIP0002WarmUp height then False else hasValidBinding)
       in calcBlockSubsidyBeforeIp2 height chainParams hasValidBinding hasStaking hasGameReward
     else if \<not> hasValidBinding then Err ErrNoValidBinding
     else calcBlockSubsidy height chainParams hasStaking)"

section \<open>The halving schedule\<close>

lemma fake_start: "fakeMASSIP2SubsidyStartHeight = 341121"
  by (simp add: fakeMASSIP2SubsidyStartHeight_def params)

text \<open>The loop computes the binary logarithm.\<close>

lemma rsh_loop_log:
  assumes "t \<noteq> 0"
  shows "i \<le> rsh_loop t i \<and> 2 ^ (rsh_loop t i - i) \<le> unat t \<and> unat t < 2 ^ Suc (rsh_loop t i - i)"
  using assms
proof (induction t i rule: rsh_loop.induct)
  case (1 t i)
  have h: "unat (drop_bit 1 t) = unat t div 2" by (simp add: drop_bit_eq_div unat_div_distrib)
  show ?case
  proof (cases "drop_bit 1 t = 0")
    case True
    then have "unat t div 2 = 0" using h by simp
    moreover have "0 < unat t" using 1(2) by (simp add: unat_gt_0)
    ultimately show ?thesis using True by (simp add: rsh_loop.simps [of t i])
  next
    case False
    let ?r = "rsh_loop (drop_bit 1 t) (i + 1)"
    have ih: "i + 1 \<le> ?r" "2 ^ (?r - (i + 1)) \<le> unat t div 2" "unat t div 2 < 2 ^ Suc (?r - (i + 1))"
      using 1(1) [OF refl False False] h by auto
    have "?r - i = Suc (?r - (i + 1))" using ih(1) by simp
    moreover have "2 * 2 ^ (?r - (i + 1)) \<le> unat t" "unat t < 2 * 2 ^ Suc (?r - (i + 1))"
      using ih(2,3) by linarith+
    ultimately show ?thesis using ih(1) False by (simp add: rsh_loop.simps [of t i])
  qed
qed

lemma log_unique:
  assumes "2 ^ k \<le> (t :: nat)" "t < 2 ^ Suc k" "2 ^ j \<le> t" "t < 2 ^ Suc j"
  shows "k = j"
proof (rule ccontr)
  assume "k \<noteq> j"
  then consider "Suc k \<le> j" | "Suc j \<le> k" by linarith
  then show False
  proof cases
    case 1
    then have "(2 :: nat) ^ Suc k \<le> 2 ^ j" by (rule power_increasing) simp
    with assms show False by linarith
  next
    case 2
    then have "(2 :: nat) ^ Suc j \<le> 2 ^ k" by (rule power_increasing) simp
    with assms show False by linarith
  qed
qed

lemma rsh_loop_eq:
  assumes "2 ^ k \<le> unat t" "unat t < 2 ^ Suc k"
  shows "rsh_loop t 0 = k"
proof -
  have "0 < unat t" using assms(1) by (metis less_le_trans zero_less_power zero_less_numeral)
  then have "t \<noteq> 0" by (auto simp: unat_eq_zero)
  with rsh_loop_log [of t 0] assms show ?thesis by (intro log_unique) auto
qed

text \<open>Period \<open>k\<close> of the schedule is the heights from \<open>13440 * (2 ^ k - 1) + 1\<close> to \<open>13440 * (2 ^ (k + 1) - 1)\<close>.\<close>

definition period_start :: "nat \<Rightarrow> nat" where
  "period_start k = 13440 * (2 ^ k - 1)"

lemma calcRsh_period:
  assumes "period_start k < h" "h \<le> period_start (Suc k)" "h < 2 ^ 64"
  shows "calcRshNumBeforeIp2 (word_of_nat h) = k"
proof -
  have p: "(1 :: nat) \<le> 2 ^ k" by simp
  have "unat (word_of_nat h :: u64) = h" using assms(3) by (simp add: unat_of_nat)
  moreover have "(word_of_nat h :: u64) \<noteq> 0"
    using assms(1) calculation by (metis gr_implies_not0 unat_0)
  ultimately have u: "unat (word_of_nat h - 1 :: u64) = h - 1" by (simp add: unat_minus_one)
  have d: "unat ((word_of_nat h - 1 :: u64) div 13440) = (h - 1) div 13440"
    by (simp add: unat_div_distrib u)
  have lo: "2 ^ k \<le> (h - 1) div 13440 + 1"
  proof -
    have "2 ^ k - 1 \<le> (h - 1) div 13440"
      using assms(1) by (simp add: period_start_def less_eq_div_iff_mult_less_eq mult.commute)
    then show ?thesis by linarith
  qed
  have hi: "(h - 1) div 13440 + 1 < 2 ^ Suc k"
  proof -
    have "h - 1 < (2 ^ Suc k - 1) * 13440"
      using assms(1,2) by (simp add: period_start_def mult.commute)
    then have "(h - 1) div 13440 < 2 ^ Suc k - 1" by (simp add: div_less_iff_less_mult)
    then show ?thesis by linarith
  qed
  have "(h - 1) div 13440 + 1 < 2 ^ 64" using assms(3) by simp
  then have "unat ((word_of_nat h - 1 :: u64) div 13440 + 1) = (h - 1) div 13440 + 1"
    using d by (simp add: unat_word_ariths)
  with lo hi show ?thesis
    unfolding calcRshNumBeforeIp2_def params by (intro rsh_loop_eq) simp_all
qed


text \<open>The number of halvings before a height, as the index of its period, and the subsidy of a height before
  it is split, with the cut-off \<open>m\<close> below which it is zero. Neither refers to the loop of the code.\<close>

definition halvings :: "nat \<Rightarrow> nat" where
  "halvings h = (LEAST k. h \<le> period_start (Suc k))"

definition gross :: "int \<Rightarrow> nat \<Rightarrow> int" where
  "gross m h =
    (if h = 0 then 0 else let s = 102400000000 div 2 ^ halvings h in if s < m then 0 else s)"

definition gross_at :: "nat \<Rightarrow> int" where
  "gross_at h = (if h < 1404801 then gross 6250000 h else gross 25000000 (h - 1063680))"

lemma period_start_le: "j \<le> k \<Longrightarrow> period_start j \<le> period_start k"
  unfolding period_start_def by (intro mult_le_mono2 diff_le_mono power_increasing) auto

lemma halvings_upper: "h \<le> period_start (Suc (halvings h))"
proof -
  have "h \<le> 2 ^ Suc h - 1" using less_exp [of "Suc h"] by linarith
  also have "\<dots> \<le> period_start (Suc h)" by (simp add: period_start_def)
  finally show ?thesis unfolding halvings_def by (rule LeastI)
qed

lemma halvings_lower:
  assumes "0 < h"
  shows "period_start (halvings h) < h"
proof (cases "halvings h")
  case 0
  then show ?thesis using assms by (simp add: period_start_def)
next
  case (Suc k)
  then show ?thesis using not_less_Least [of k "\<lambda>k. h \<le> period_start (Suc k)"] by (simp add: halvings_def)
qed

lemma halvings_ge:
  assumes "period_start k < h"
  shows "k \<le> halvings h"
proof (rule ccontr)
  assume "\<not> k \<le> halvings h"
  then have "period_start (Suc (halvings h)) \<le> period_start k" by (intro period_start_le) simp
  with halvings_upper [of h] assms show False by linarith
qed

lemma halvings_period: "period_start k < h \<Longrightarrow> h \<le> period_start (Suc k) \<Longrightarrow> halvings h = k"
  using halvings_ge [of k h] Least_le [of "\<lambda>k. h \<le> period_start (Suc k)" k] by (simp add: halvings_def)

text \<open>The loop of the code counts the halvings. At height 0 the subtraction wraps around: 50 halvings, and
  the subsidy is below every cut-off.\<close>

lemma calcRsh_halvings: "0 < h \<Longrightarrow> h < 2 ^ 64 \<Longrightarrow> calcRshNumBeforeIp2 (word_of_nat h) = halvings h"
  by (intro calcRsh_period halvings_lower halvings_upper)

lemma calcRsh_0: "calcRshNumBeforeIp2 0 = 50"
proof -
  have "unat ((0 - 1 :: u64) div 13440 + 1) = 1372525600722437"
    by (simp add: unat_div_distrib unat_word_ariths)
  then show ?thesis
    unfolding calcRshNumBeforeIp2_def params by (intro rsh_loop_eq) simp_all
qed

lemma gross_code:
  assumes "0 < m" "h < 2 ^ 64"
  shows "(let s = 102400000000 div 2 ^ calcRshNumBeforeIp2 (word_of_nat h) in if s < m then 0 else s) = gross m h"
  using assms by (cases "h = 0") (simp_all add: gross_def calcRsh_0 calcRsh_halvings)

lemma gross_nonneg: "0 \<le> gross m h"
  by (simp add: gross_def Let_def pos_imp_zdiv_nonneg_iff)

lemma gross_at_nonneg: "0 \<le> gross_at h"
  by (simp add: gross_at_def gross_nonneg)

lemma gross_period:
  assumes "period_start k < h" "h \<le> period_start (Suc k)" "m * 2 ^ k \<le> 102400000000"
  shows "gross m h = 102400000000 div 2 ^ k"
proof -
  have "m * 2 ^ k div 2 ^ k \<le> 102400000000 div 2 ^ k" using assms(3) by (intro zdiv_mono1) auto
  then have "m \<le> 102400000000 div 2 ^ k" by simp
  then show ?thesis using assms by (simp add: gross_def halvings_period)
qed

lemma period_mono: "period_start k \<le> period_start (Suc k)"
  by (simp add: period_start_def)

text \<open>Part of a period, and a whole one: each whole period issues 13,762,560 MASS.\<close>

lemma sum_gross_part:
  assumes "period_start k \<le> a" "b \<le> period_start (Suc k)" "a \<le> b" "m * 2 ^ k \<le> 102400000000"
  shows "(\<Sum>h\<in>{a<..b}. gross m h) = int (b - a) * (102400000000 div 2 ^ k)"
proof -
  have "gross m h = 102400000000 div 2 ^ k" if "h \<in> {a<..b}" for h
    using that assms by (intro gross_period) auto
  then have "(\<Sum>h\<in>{a<..b}. gross m h) = (\<Sum>h\<in>{a<..b}. 102400000000 div 2 ^ k)"
    by (intro sum.cong) auto
  then show ?thesis by simp
qed

lemma sum_gross_period:
  assumes "k \<le> 14" "m * 2 ^ k \<le> 102400000000"
  shows "(\<Sum>h\<in>{period_start k<..period_start (Suc k)}. gross m h) = 1376256000000000"
proof -
  have "(2 :: int) ^ k dvd 2 ^ 18" using assms(1) by (intro le_imp_power_dvd) simp
  then have "(2 :: int) ^ k dvd 102400000000" by (rule dvd_trans) simp
  then have d: "(2 :: int) ^ k * (102400000000 div 2 ^ k) = 102400000000" by simp
  have "int (period_start (Suc k) - period_start k) = 13440 * 2 ^ k"
    by (simp add: period_start_def of_nat_diff algebra_simps)
  with assms d show ?thesis
    by (subst sum_gross_part) (simp_all add: period_mono)
qed

lemma sum_split: "a \<le> b \<Longrightarrow> b \<le> c \<Longrightarrow> (\<Sum>h\<in>{a<..c :: nat}. f h) = (\<Sum>h\<in>{a<..b}. f h) + (\<Sum>h\<in>{b<..c}. f h :: int)"
  by (subst sum.union_disjoint [symmetric]) (auto intro: sum.cong simp: ivl_disj_un_two)

lemma sum_gross_periods:
  assumes "k + n \<le> 15" "m * 2 ^ (k + n) \<le> 204800000000" "0 \<le> m"
  shows "(\<Sum>h\<in>{period_start k<..period_start (k + n)}. gross m h) = int n * 1376256000000000"
  using assms
proof (induction n)
  case (Suc n)
  have mono: "period_start k \<le> period_start (k + n)"
    by (auto simp: period_start_def power_add intro!: diff_le_mono)
  have "m * 2 ^ (k + n) \<le> 102400000000" using Suc.prems by simp
  with Suc sum_gross_period [of "k + n" m]
    sum_split [OF mono period_mono [of "k + n"], of "gross m"]
  show ?case by (simp add: algebra_simps)
qed simp

lemma gross_beyond:
  assumes "period_start 13 < h"
  shows "gross 25000000 h = 0"
proof -
  have "(2 :: int) ^ 13 \<le> 2 ^ halvings h" using halvings_ge [OF assms] by (intro power_increasing) auto
  then have "102400000000 div 2 ^ halvings h \<le> 102400000000 div (2 :: int) ^ 13" by (intro zdiv_mono2) auto
  then show ?thesis by (simp add: gross_def Let_def)
qed

lemma sum_before_ip2: "(\<Sum>h\<in>{0<..1404800}. gross 6250000 h) = 9150464000000000"
proof -
  have "(\<Sum>h\<in>{period_start 0<..period_start 6}. gross 6250000 h) = 8257536000000000"
    using sum_gross_periods [of 0 6 6250000] by simp
  moreover have "(\<Sum>h\<in>{period_start 6<..1404800}. gross 6250000 h) = 892928000000000"
    by (subst sum_gross_part [of 6]) (simp_all add: period_start_def)
  ultimately show ?thesis
    using sum_split [of "period_start 0" "period_start 6" 1404800 "gross 6250000"] by (simp add: period_start_def)
qed

lemma sum_after_ip2: "(\<Sum>h\<in>{341120<..period_start 13}. gross 25000000 h) = 11493376000000000"
proof -
  have "(\<Sum>h\<in>{341120<..period_start 5}. gross 25000000 h) = 483328000000000"
    by (subst sum_gross_part [of 4]) (simp_all add: period_start_def)
  moreover have "(\<Sum>h\<in>{period_start 5<..period_start 13}. gross 25000000 h) = 11010048000000000"
    using sum_gross_periods [of 5 8 25000000] by simp
  ultimately show ?thesis
    using sum_split [of 341120 "period_start 5" "period_start 13" "gross 25000000"] by (simp add: period_start_def)
qed

section \<open>The split of a subsidy\<close>

text \<open>The part of the miner before the second improvement proposal, in hundredths of a percent.\<close>

definition miner_share :: "bool \<Rightarrow> bool \<Rightarrow> int" where
  "miner_share hasValidBinding hasGameReward = (if hasGameReward \<and> hasValidBinding then 8125 else 1875)"

lemma allocSubsidyBeforeIp2_spec:
  assumes "0 \<le> s" "s \<le> 102400000000"
  shows "allocSubsidyBeforeIp2 (Uint128 s) b st g =
    (let m = s * miner_share b g div 10000 in
     Ok (mk_amount m, mk_amount (if \<not> st then 0 else if g then s - m else m)))"
proof -
  have b: "0 \<le> s * c div 10000 \<and> s * c div 10000 \<le> s" if "c = 1875 \<or> c = 8125" for c
    using that assms by auto
  then have "0 \<le> s * 1875 div 10000" "s * 1875 div 10000 \<le> s" "0 \<le> s * 8125 div 10000" "s * 8125 div 10000 \<le> s"
    by blast+
  then show ?thesis
    using assms
    by (simp add: not_less allocSubsidyBeforeIp2_def u128_simps int64_def validated_spec Uint128_Sub_def NewAmount_def
        checkedAmount_spec NewUint128_def Uint128_DeepCopy_def miner_share_def Let_def
        del: div_mult_self1_is_m)
qed

lemma allocSubsidy_spec:
  assumes "0 \<le> s" "s \<le> 102400000000"
  shows "allocSubsidy (Uint128 s) st =
    (let n = (if st then s div 10 else 0) in
     Ok (mk_amount (if n = 0 then s * 9 div 10 else s - n), mk_amount n))"
proof -
  have "0 \<le> s div 10" "s div 10 \<le> s" "0 \<le> s * 9 div 10" "s * 9 div 10 \<le> s"
    using assms by auto
  then show ?thesis
    using assms
    by (simp add: not_less allocSubsidy_def u128_simps int64_def validated_spec Uint128_Sub_def NewAmount_def
        checkedAmount_spec NewUint128_def Let_def)
qed

lemma rsh_base: "Uint128_Rsh baseSubsidy k = Uint128 (102400000000 div 2 ^ k)"
  by (simp add: Uint128_Rsh_def baseSubsidy_def NewUint128FromUint_def params big_Rsh_def)

lemma subsidy_range: "0 \<le> 102400000000 div (2 :: int) ^ k" "102400000000 div (2 :: int) ^ k \<le> 102400000000"
  using div_le_dividend_int [of 102400000000 "2 ^ k"] by (auto simp: pos_imp_zdiv_nonneg_iff)

lemma gross_range: "0 \<le> gross m h" "gross m h \<le> 102400000000"
  using subsidy_range by (auto simp: gross_def Let_def)

lemma gross_cut: "gross m h = 0 \<or> m \<le> gross m h"
  by (simp add: gross_def Let_def)

lemma calcBlockSubsidyBeforeIp2_spec:
  assumes "SubsidyHalvingInterval_cfg cp \<noteq> 0" "h < 2 ^ 64"
  shows "calcBlockSubsidyBeforeIp2 (word_of_nat h) cp b st g =
    (let s = gross 6250000 h; m = s * miner_share b g div 10000 in
     Ok (mk_amount m, mk_amount (if \<not> st then 0 else if g then s - m else m)))"
proof -
  have "(let t = Uint128_Rsh baseSubsidy (calcRshNumBeforeIp2 (word_of_nat h)) in
      if Uint128_Lt t minHalvedSubsidy then NewUint128 else t) = Uint128 (gross 6250000 h)"
    using assms(2)
    by (simp add: rsh_base gross_code [symmetric] Let_def u128_simps minHalvedSubsidy_def NewUint128FromUint_def params
        NewUint128_def)
  with assms gross_range [of 6250000 h] show ?thesis
    by (simp add: calcBlockSubsidyBeforeIp2_def allocSubsidyBeforeIp2_spec Cmp_simps zeroAmount_mk Let_def)
qed

lemma calcBlockSubsidy_spec:
  assumes "SubsidyHalvingInterval_cfg cp \<noteq> 0" "1404801 \<le> h" "h < 2 ^ 64"
  shows "calcBlockSubsidy (word_of_nat h) cp st =
    (let s = gross 25000000 (h - 1063680); n = (if st then s div 10 else 0) in
     Ok (mk_amount (if n = 0 then s * 9 div 10 else s - n), mk_amount n))"
proof -
  have u: "unat (word_of_nat h :: u64) = h" using assms(3) by (simp add: unat_of_nat)
  have "h = (h - 1063680) + 1063680" using assms(2) by simp
  then have "(word_of_nat h :: u64) = word_of_nat (h - 1063680) + 1063680"
    by (metis of_nat_add of_nat_numeral)
  then have e: "341121 + word_of_nat h - 1404801 = (word_of_nat (h - 1063680) :: u64)" by simp
  have "\<not> (word_of_nat h :: u64) < 1404801" using u assms(2) by (simp add: word_less_nat_alt)
  moreover have "(let t = Uint128_Rsh baseSubsidy (calcRshNumBeforeIp2 (word_of_nat (h - 1063680))) in
      if Uint128_Lt t minHalvedSubsidyForMASSIP2 then NewUint128 else t) = Uint128 (gross 25000000 (h - 1063680))"
    using assms(3)
    by (simp add: rsh_base gross_code [symmetric] Let_def u128_simps minHalvedSubsidyForMASSIP2_def NewUint128FromUint_def
        params NewUint128_def)
  ultimately show ?thesis
    using assms(1) e gross_range [of 25000000 "h - 1063680"]
    by (simp add: calcBlockSubsidy_def fake_start MASSIP0002Height_def allocSubsidy_spec Cmp_simps zeroAmount_mk
        Let_def)
qed

section \<open>The cap on the issued coins\<close>

text \<open>The coins a block of height \<open>h\<close> issues; a block that is rejected issues none.\<close>

definition issued :: "'a chain_params_scheme \<Rightarrow> bool \<Rightarrow> bool \<Rightarrow> nat \<Rightarrow> int" where
  "issued cp hasValidBinding hasStaking h =
    (case CalcBlockSubsidy (word_of_nat h) cp hasValidBinding hasStaking of
       Ok (miner, superNode) \<Rightarrow> maxwell miner + maxwell superNode
     | _ \<Rightarrow> 0)"

lemma issued_le_gross:
  assumes "SubsidyHalvingInterval_cfg cp \<noteq> 0" "h < 2 ^ 64"
  shows "issued cp b st h \<le> gross_at h"
proof -
  have u: "unat (word_of_nat h :: u64) = h" using assms(2) by (simp add: unat_of_nat)
  have e: "EnforceMASSIP0002 (word_of_nat h) \<longleftrightarrow> 1404801 \<le> h"
    using u by (simp add: EnforceMASSIP0002_def params word_le_nat_alt)
  show ?thesis
  proof (cases "1404801 \<le> h")
    case True
    with e assms gross_range [of 25000000 "h - 1063680"] show ?thesis
      by (auto simp: issued_def CalcBlockSubsidy_def calcBlockSubsidy_spec gross_at_def Let_def)
  next
    case False
    with e assms gross_range [of 6250000 h] show ?thesis
      by (auto simp: issued_def CalcBlockSubsidy_def calcBlockSubsidyBeforeIp2_spec gross_at_def Let_def miner_share_def)
  qed
qed

lemma sum_gross_at_le:
  assumes "n < 2 ^ 64"
  shows "(\<Sum>h\<le>n. gross_at h) \<le> max_maxwell"
proof -
  let ?K = "period_start 13 + 1063680" and ?N = "max n (period_start 13 + 1063680)"
  have "(\<Sum>h\<le>n. gross_at h) \<le> (\<Sum>h\<le>?N. gross_at h)"
    by (rule sum_mono2) (auto simp: gross_at_nonneg)
  also have "\<dots> = gross_at 0 + (\<Sum>h\<in>{0<..?N}. gross_at h)"
  proof -
    have "{..?N} = insert 0 {0<..?N}" by auto
    then show ?thesis by simp
  qed
  also have "gross_at 0 = 0" by (simp add: gross_at_def gross_def)
  also have "(\<Sum>h\<in>{0<..?N}. gross_at h) = (\<Sum>h\<in>{0<..?K}. gross_at h)"
    using assms by (intro sum.mono_neutral_right) (auto simp: gross_at_def period_start_def intro: gross_beyond)
  also have "\<dots> = (\<Sum>h\<in>{0<..1404800}. gross_at h) + (\<Sum>h\<in>{1404800<..?K}. gross_at h)"
    by (rule sum_split) (simp_all add: period_start_def)
  also have "(\<Sum>h\<in>{0<..1404800}. gross_at h) = (\<Sum>h\<in>{0<..1404800}. gross 6250000 h)"
    by (rule sum.cong) (auto simp: gross_at_def)
  also have "(\<Sum>h\<in>{1404800<..?K}. gross_at h) = (\<Sum>h\<in>{341120<..period_start 13}. gross 25000000 h)"
    by (rule sum.reindex_bij_witness [of _ "\<lambda>h. h + 1063680" "\<lambda>h. h - 1063680"]) (auto simp: gross_at_def)
  finally show ?thesis by (simp add: sum_before_ip2 sum_after_ip2)
qed

text \<open>C3 (supply cap). Whatever the binding and staking flags of the individual blocks are, the coins that
  the subsidies of all blocks up to any height issue, miner and staking parts together, do not exceed the
  maximum amount of 206,438,400 MASS.\<close>

theorem issued_supply_cap:
  assumes "SubsidyHalvingInterval_cfg cp \<noteq> 0" "n < 2 ^ 64"
  shows "(\<Sum>h\<le>n. issued cp (hasValidBinding h) (hasStaking h) h) \<le> maxwell maxAmount"
proof -
  have "(\<Sum>h\<le>n. issued cp (hasValidBinding h) (hasStaking h) h) \<le> (\<Sum>h\<le>n. gross_at h)"
    using assms by (intro sum_mono issued_le_gross) auto
  also have "\<dots> \<le> max_maxwell" using assms(2) by (rule sum_gross_at_le)
  finally show ?thesis by (simp add: maxAmount_def)
qed

theorem issued_supply_cap_witness:
  "(\<Sum>h\<le>100000000. issued \<lparr> PocLimit = 1048575, SubsidyHalvingInterval_cfg = 13440 \<rparr> True True h)
    \<le> maxwell maxAmount"
  by (rule issued_supply_cap) simp_all

text \<open>C4 (split of the subsidy). The miner's part and the staking part of a block, for every height and every
  combination of the two flags; \<open>gross_at\<close> is the subsidy of the halving schedule, which is stated
  without the code's loop. Below the warm-up height 1,398,801 the miner gets 81.25 percent with a valid
  binding and 18.75 percent without one, rounded down, and the staking part is the rest, or nothing without
  staking nodes. In the warm-up, up to the height 1,404,800, the miner gets 18.75 percent whether or not there is a
  binding, and the staking nodes get the same amount, or nothing. From the height 1,404,801 on, a block without a
  valid binding is rejected; the staking nodes get a tenth and the miner the rest, or, without staking
  nodes, nine tenths.\<close>

theorem CalcBlockSubsidy_split:
  assumes "SubsidyHalvingInterval_cfg cp \<noteq> 0" "h < 2 ^ 64"
  shows "CalcBlockSubsidy (word_of_nat h) cp hasValidBinding hasStaking =
    (let s = gross_at h in
     if h < 1398801 then
       let miner = s * (if hasValidBinding then 8125 else 1875) div 10000 in
       Ok (mk_amount miner, mk_amount (if hasStaking then s - miner else 0))
     else if h < 1404801 then
       let miner = s * 1875 div 10000 in
       Ok (mk_amount miner, mk_amount (if hasStaking then miner else 0))
     else if \<not> hasValidBinding then Err ErrNoValidBinding
     else if hasStaking then Ok (mk_amount (s - s div 10), mk_amount (s div 10))
     else Ok (mk_amount (s * 9 div 10), mk_amount 0))"
proof -
  have u: "unat (word_of_nat h :: u64) = h" using assms(2) by (simp add: unat_of_nat)
  have e: "EnforceMASSIP0002 (word_of_nat h) \<longleftrightarrow> 1404801 \<le> h"
    "EnforceMASSIP0002WarmUp (word_of_nat h) \<longleftrightarrow> 1398801 \<le> h"
    using u by (simp_all add: EnforceMASSIP0002_def EnforceMASSIP0002WarmUp_def params word_le_nat_alt)
  show ?thesis
  proof (cases "h < 1404801")
    case True
    with e assms show ?thesis
      by (simp add: CalcBlockSubsidy_def calcBlockSubsidyBeforeIp2_spec gross_at_def miner_share_def Let_def)
  next
    case False
    have "s - s div 10 = s * 9 div 10" if "s = gross 25000000 (h - 1063680)" "s div 10 = 0" for s
      using that gross_cut [of 25000000 "h - 1063680"] gross_range(1) [of 25000000 "h - 1063680"] by auto
    with False e assms show ?thesis
      by (simp add: CalcBlockSubsidy_def calcBlockSubsidy_spec gross_at_def Let_def)
  qed
qed

theorem CalcBlockSubsidy_split_witness:
  "CalcBlockSubsidy (word_of_nat 13440) \<lparr> PocLimit = 1048575, SubsidyHalvingInterval_cfg = 13440 \<rparr> True True =
     Ok (mk_amount 83200000000, mk_amount 19200000000) \<and>
   CalcBlockSubsidy (word_of_nat 1404801) \<lparr> PocLimit = 1048575, SubsidyHalvingInterval_cfg = 13440 \<rparr> True False =
     Ok (mk_amount 5760000000, mk_amount 0)"
proof -
  have "gross_at 13440 = 102400000000" "gross_at 1404801 = 6400000000"
    unfolding gross_at_def using gross_period [of 0 13440 6250000] gross_period [of 4 341121 25000000]
    by (simp_all add: period_start_def)
  with CalcBlockSubsidy_split [of "\<lparr> PocLimit = 1048575, SubsidyHalvingInterval_cfg = 13440 \<rparr>" 13440 True True]
    CalcBlockSubsidy_split [of "\<lparr> PocLimit = 1048575, SubsidyHalvingInterval_cfg = 13440 \<rparr>" 1404801 True False]
  show ?thesis by simp
qed

end
