(* ===== verification/Difficulty.thy ===== *)
theory Difficulty
  imports Consensus_Params
begin

text \<open>
  \<^verbatim>\<open>consensus/difficulty/difficulty.go\<close>: the retarget rule. A target is the difficulty of a block, a
  \<^verbatim>\<open>big.Int\<close>; times are Unix seconds. The theory bounds one adjustment, shows that a slower block
  never raises the target and that a positive target stays positive.
\<close>

definition toleranceSlot :: int where "toleranceSlot = 10"
definition PoCSlot :: int where "PoCSlot = 3"

record diff_header =
  dh_Target :: int
  dh_Timestamp :: int

definition CalcNextRequiredDifficulty :: "diff_header option \<Rightarrow> int \<Rightarrow> 'a chain_params_scheme \<Rightarrow> int" where
  "CalcNextRequiredDifficulty lastHeader newBlockTime chainParams =
    (case lastHeader of
       None \<Rightarrow> PocLimit chainParams
     | Some h \<Rightarrow>
         let diffUnit = 2048;
             max = (\<lambda>x y :: int. if x > y then x else y);
             ParentDiff = dh_Target h;
             MaxOne = max (wrap64 (1 - quo (wrap64 (quo newBlockTime PoCSlot - quo (dh_Timestamp h) PoCSlot))
                             toleranceSlot)) (- 199);
             Adjusted = big_Div ParentDiff diffUnit * MaxOne
         in ParentDiff + Adjusted)"

lemma quo_bound: "0 < b \<Longrightarrow> \<bar>quo a b\<bar> \<le> \<bar>a\<bar> div b"
  by (auto simp: quo_def abs_mult sgn_if pos_imp_zdiv_nonneg_iff)

lemma quo_nonneg: "0 \<le> a \<Longrightarrow> 0 < b \<Longrightarrow> quo a b = a div b"
  by (cases "a = 0") (simp_all add: quo_def)

lemma slot_difference_in_range:
  assumes "int64 t" "int64 p"
  shows "wrap64 (quo t PoCSlot - quo p PoCSlot) = quo t PoCSlot - quo p PoCSlot"
proof -
  have "\<bar>quo x 3\<bar> \<le> 2 ^ 63 div 3" if "int64 x" for x
  proof -
    have "\<bar>x\<bar> div 3 \<le> 2 ^ 63 div 3"
      using that by (intro zdiv_mono1) (auto simp: int64_def)
    then show ?thesis using quo_bound [of 3 x] by simp
  qed
  from this [OF assms(1)] this [OF assms(2)] show ?thesis
    by (intro wrap64_id) (auto simp: int64_def PoCSlot_def)
qed

lemma adjustment_in_range:
  assumes "int64 t"
  shows "wrap64 (1 - quo t toleranceSlot) = 1 - quo t toleranceSlot"
proof -
  have "\<bar>t\<bar> div 10 \<le> 2 ^ 63 div 10"
    using assms by (intro zdiv_mono1) (auto simp: int64_def)
  then show ?thesis
    using quo_bound [of 10 t] by (intro wrap64_id) (auto simp: int64_def toleranceSlot_def)
qed

text \<open>The number of whole slots between the parent and the new block.\<close>

definition slots_between :: "int \<Rightarrow> int \<Rightarrow> int" where
  "slots_between p t = quo t 3 - quo p 3"

lemma CalcNextRequiredDifficulty_alt:
  assumes "int64 t" "int64 (dh_Timestamp h)"
  shows "CalcNextRequiredDifficulty (Some h) t cp =
    dh_Target h + dh_Target h div 2048 * max (1 - quo (slots_between (dh_Timestamp h) t) 10) (- 199)"
proof -
  have "int64 (slots_between (dh_Timestamp h) t)"
    using slot_difference_in_range [OF assms] wrap64_range by (metis slots_between_def PoCSlot_def)
  then show ?thesis
    using slot_difference_in_range [OF assms] adjustment_in_range [of "slots_between (dh_Timestamp h) t"]
    by (simp add: CalcNextRequiredDifficulty_def Let_def big_Div_def slots_between_def PoCSlot_def
        toleranceSlot_def max_def)
qed

lemma quo_mono: "a \<le> a' \<Longrightarrow> 0 < b \<Longrightarrow> quo a b \<le> quo a' b"
proof -
  assume "a \<le> a'" "0 < b"
  consider "0 \<le> a" | "a < 0" "0 \<le> a'" | "a' < 0" using \<open>a \<le> a'\<close> by linarith
  then show ?thesis
  proof cases
    case 1
    then show ?thesis using \<open>a \<le> a'\<close> \<open>0 < b\<close> by (simp add: quo_nonneg zdiv_mono1)
  next
    case 2
    then have "quo a b \<le> 0" using \<open>0 < b\<close> by (simp add: quo_def pos_imp_zdiv_nonneg_iff)
    moreover have "0 \<le> quo a' b" using 2 \<open>0 < b\<close> by (simp add: quo_nonneg pos_imp_zdiv_nonneg_iff)
    ultimately show ?thesis by linarith
  next
    case 3
    then show ?thesis using \<open>a \<le> a'\<close> \<open>0 < b\<close> by (simp add: quo_def zdiv_mono1)
  qed
qed

text \<open>C23 (CalcNextRequiredDifficulty). For a block with a positive parent target whose time is not before
  its parent's, the next target is positive, is at most the parent's target plus one 2048th of it, is at
  least the parent's target minus 199 2048ths, and does not grow when the block comes later.\<close>

theorem CalcNextRequiredDifficulty_bounds:
  assumes "int64 t" "int64 t'" "int64 (dh_Timestamp h)" "dh_Timestamp h \<le> t" "t \<le> t'" "0 < dh_Target h"
  shows "0 < CalcNextRequiredDifficulty (Some h) t cp \<and>
    CalcNextRequiredDifficulty (Some h) t cp \<le> dh_Target h + dh_Target h div 2048 \<and>
    dh_Target h - 199 * (dh_Target h div 2048) \<le> CalcNextRequiredDifficulty (Some h) t cp \<and>
    CalcNextRequiredDifficulty (Some h) t' cp \<le> CalcNextRequiredDifficulty (Some h) t cp"
proof -
  let ?u = "dh_Target h div 2048"
  let ?m = "\<lambda>t. max (1 - quo (slots_between (dh_Timestamp h) t) 10) (- 199)"
  have u: "0 \<le> ?u" "2048 * ?u \<le> dh_Target h"
    using assms(6) mult_div_mod_eq [of 2048 "dh_Target h"] by (simp_all add: pos_imp_zdiv_nonneg_iff)
  have "0 \<le> slots_between (dh_Timestamp h) t"
    using assms(4) quo_mono [of "dh_Timestamp h" t 3] by (simp add: slots_between_def)
  then have m: "?m t \<le> 1" "- 199 \<le> ?m t"
    by (simp_all add: quo_nonneg pos_imp_zdiv_nonneg_iff)
  have "slots_between (dh_Timestamp h) t \<le> slots_between (dh_Timestamp h) t'"
    using assms(5) quo_mono [of t t' 3] by (simp add: slots_between_def)
  then have "?m t' \<le> ?m t"
    using quo_mono [of "slots_between (dh_Timestamp h) t" "slots_between (dh_Timestamp h) t'" 10] by linarith
  then have "?u * ?m t' \<le> ?u * ?m t" using u by (intro mult_left_mono) auto
  moreover have "?u * ?m t \<le> ?u * 1" "?u * (- 199) \<le> ?u * ?m t"
    using u m by (intro mult_left_mono; simp)+
  ultimately show ?thesis
    using u assms(6) by (simp add: CalcNextRequiredDifficulty_alt assms(1-3))
qed

theorem CalcNextRequiredDifficulty_bounds_witness:
  "CalcNextRequiredDifficulty (Some \<lparr> dh_Target = 4096000, dh_Timestamp = 3000 \<rparr>) 3045
     \<lparr> PocLimit = 1048575, SubsidyHalvingInterval_cfg = 13440 \<rparr> = 4096000 \<and>
   CalcNextRequiredDifficulty (Some \<lparr> dh_Target = 4096000, dh_Timestamp = 3000 \<rparr>) 9000
     \<lparr> PocLimit = 1048575, SubsidyHalvingInterval_cfg = 13440 \<rparr> \<le> 4096000"
  using CalcNextRequiredDifficulty_bounds [of 3045 9000 "\<lparr> dh_Target = 4096000, dh_Timestamp = 3000 \<rparr>"
    "\<lparr> PocLimit = 1048575, SubsidyHalvingInterval_cfg = 13440 \<rparr>"]
  by (simp add: CalcNextRequiredDifficulty_alt int64_def slots_between_def quo_def)

end
