(* ===== verification/ScriptNum.thy ===== *)
theory ScriptNum
  imports Go_Prelude
begin

text \<open>
  \<^verbatim>\<open>txscript/error.go\<close> and \<^verbatim>\<open>txscript/scriptnum.go\<close>: the errors of the script package and the numbers of
  the script language, little-endian bytes with a sign bit. \<open>scriptNum_Bytes\<close> serializes an \<^verbatim>\<open>int64\<close>,
  \<open>makeScriptNum\<close> reads it back under a length limit. The theory shows that the two are inverse on
  minimal encodings and that a serialized number is minimal.
\<close>

unbundle bit_operations_syntax

datatype script_error =
    ErrStackShortScript | ErrStackLongScript | ErrStackUnderflow | ErrStackInvalidArgs
  | ErrStackOpDisabled | ErrStackVerifyFailed | ErrStackNumberTooBig | ErrStackInvalidOpcode
  | ErrStackReservedOpcode | ErrTooManyOperations | ErrStackEarlyReturn | ErrStackNoIf
  | ErrStackMissingEndif | ErrStackTooManyPubKeys | ErrStackTooManyOperations
  | ErrStackElementTooBig | ErrStackUnknownAddress | ErrStackScriptFailed
  | ErrStackScriptUnfinished | ErrStackEmptyStack | ErrStackP2SHNonPushOnly
  | ErrStackInvalidIndex | ErrStackNonPushOnly | ErrStackOverflow | ErrStackInvalidLowSSignature
  | ErrStackInvalidPubKey | ErrStackCleanStack | ErrStackMinimalData | ErrWitnessProgramEmpty
  | ErrWitnessProgramMismatch | ErrWitnessPubKeyType | ErrWitnessProgramLength
  | ErrWitnessExtProgramLength | ErrDiscourageUpgradableWitnessProgram | ErrInvalidFlags
  | ErrWitnessUnexpected | ErrWitnessMalleated | ErrWitnessLength | ErrwitnessProgramFormat
  | ErrUnsupportedAddress | ErrBadNumRequired | ErrNullFail | ErrInvalidBindingScript
  | ErrBindingUnexpected | ErrFrozenPeriod | ErrScriptTooBig | ErrWitnessExtProgUnknown
  | ErrText string

type_synonym 'a script_res = "(script_error, 'a) res"

definition defaultScriptNumLen :: nat where
  "defaultScriptNumLen = 4"

definition checkMinimalDataEncoding :: "byte list \<Rightarrow> unit script_res" where
  "checkMinimalDataEncoding v =
    (if length v = 0 then Ok ()
     else if v ! (length v - 1) AND 0x7f = 0 \<and>
             (length v = 1 \<or> v ! (length v - 2) AND 0x80 = 0)
     then Err ErrStackMinimalData
     else Ok ())"

text \<open>The loop \<^verbatim>\<open>for n > 0\<close> of \<^verbatim>\<open>Bytes\<close>.\<close>

function le_digits :: "int \<Rightarrow> byte list" where
  "le_digits n = (if n > 0 then word_of_int (n AND 0xff) # le_digits (drop_bit 8 n) else [])"
  by pat_completeness auto
termination
  by (relation "measure nat") (auto simp: drop_bit_eq_div)

declare le_digits.simps [simp del]

definition scriptNum_Bytes :: "int \<Rightarrow> byte list script_res" where
  "scriptNum_Bytes n =
    (if n = 0 then Ok []
     else
       let isNegative = n < 0;
           n = (if isNegative then wrap64 (- n) else n);
           result = le_digits n
       in if result = [] then Panic
          else if last result AND 0x80 \<noteq> 0 then Ok (result @ [if isNegative then 0x80 else 0x00])
          else if isNegative then Ok (butlast result @ [last result OR 0x80])
          else Ok result)"

definition scriptNum_Int32 :: "int \<Rightarrow> int" where
  "scriptNum_Int32 n =
    (if n > 2147483647 then 2147483647 else if n < - 2147483648 then - 2147483648 else wrap32 n)"

text \<open>The decoding loop; the shift count is a \<^verbatim>\<open>uint8\<close>, and shifting an \<^verbatim>\<open>int64\<close> by 64 or more gives 0.\<close>

fun decode_loop :: "nat \<Rightarrow> byte list \<Rightarrow> u64 \<Rightarrow> u64" where
  "decode_loop i [] result = result"
| "decode_loop i (val # vs) result =
    decode_loop (i + 1) vs (result OR push_bit ((8 * i) mod 256) (ucast val))"

definition makeScriptNum :: "byte list \<Rightarrow> bool \<Rightarrow> nat \<Rightarrow> int script_res" where
  "makeScriptNum v requireMinimal scriptNumLen =
    (if length v > scriptNumLen then Err ErrStackNumberTooBig
     else bindR (if requireMinimal then checkMinimalDataEncoding v else Ok ()) (\<lambda>_.
       if length v = 0 then Ok 0
       else
         let result = decode_loop 0 v 0 in
         if v ! (length v - 1) AND 0x80 \<noteq> 0 then
           let result = result AND NOT (push_bit ((8 * (length v - 1)) mod 256) 0x80) in
           Ok (sint (- result))
         else Ok (sint result)))"

section \<open>Decoding as arithmetic\<close>

lemma uint_or_push_bit:
  fixes r b :: u64
  assumes "uint r < 2 ^ n" "uint b < 2 ^ m" "n + m \<le> 64"
  shows "uint (r OR push_bit n b) = uint r + 2 ^ n * uint b"
proof -
  have "2 ^ n * uint b < 2 ^ n * 2 ^ m" using assms(2) by simp
  also have "\<dots> = 2 ^ (n + m)" by (simp add: power_add)
  also have "\<dots> \<le> 2 ^ 64" using assms(3) by (rule power_increasing) simp
  finally have "2 ^ n * uint b < 2 ^ 64" .
  then have "take_bit 64 (push_bit n (uint b)) = push_bit n (uint b)"
    by (intro take_bit_int_eq_self) (simp_all add: push_bit_eq_mult mult.commute)
  then have p: "uint (push_bit n b) = push_bit n (uint b)"
    by (simp add: unsigned_push_bit_eq)
  have "uint (r OR push_bit n b) = take_bit n (uint r) OR push_bit n (uint b)"
    using assms(1) by (simp add: unsigned_or_eq p take_bit_int_eq_self)
  also have "\<dots> = take_bit n (uint r) + push_bit n (uint b)"
    by (metis concat_bit_def concat_bit_eq)
  finally show ?thesis using assms(1) by (simp add: take_bit_int_eq_self push_bit_eq_mult mult.commute)
qed

lemma uint_decode_loop:
  assumes "i + length v \<le> 8" "uint r < 2 ^ (8 * i)"
  shows "uint (decode_loop i v r) = uint r + 2 ^ (8 * i) * int (le_val v)"
  using assms
proof (induction v arbitrary: i r)
  case (Cons b v)
  let ?r = "r OR push_bit (8 * i) (ucast b)"
  have b: "uint (ucast b :: u64) = int (unat b)"
  proof -
    have "uint b < 2 ^ 64" using uint_lt2p [of b] by simp
    then show ?thesis by (simp add: unsigned_ucast_eq take_bit_int_eq_self)
  qed
  have bl: "int (unat b) < 2 ^ 8" using uint_lt2p [of b] by simp
  have r: "uint ?r = uint r + 2 ^ (8 * i) * int (unat b)"
    using uint_or_push_bit [of r "8 * i" "ucast b" 8] Cons.prems b bl by simp
  have "uint r + 2 ^ (8 * i) * int (unat b) < 2 ^ (8 * i) + 2 ^ (8 * i) * (2 ^ 8 - 1)"
    using Cons.prems(2) bl by (intro add_less_le_mono mult_left_mono) auto
  also have "\<dots> = 2 ^ (8 * (i + 1))" by (simp add: power_add algebra_simps)
  finally have "uint ?r < 2 ^ (8 * (i + 1))" using r by simp
  with Cons have "uint (decode_loop (i + 1) v ?r) = uint ?r + 2 ^ (8 * (i + 1)) * int (le_val v)" by simp
  moreover have "(8 * i) mod 256 = 8 * i" using Cons.prems(1) by simp
  ultimately show ?case using r by (simp add: power_add algebra_simps)
qed simp

lemma high_byte:
  assumes "128 \<le> unat (b :: byte)"
  shows "unat b div 128 = 1" "unat b = 128 + unat b mod 128"
proof -
  show d: "unat b div 128 = 1" using assms unat_byte_less [of b] by (simp add: div_nat_eqI)
  show "unat b = 128 + unat b mod 128" using div_mult_mod_eq [of "unat b" 128] unfolding d by simp
qed

lemma byte_high_bit: "(b :: byte) AND 0x80 \<noteq> 0 \<longleftrightarrow> 128 \<le> unat b"
proof -
  have "(b AND 0x80 \<noteq> 0) = bit b 7" using and_exp_eq_0_iff_not_bit [of b 7] by simp
  also have "\<dots> = bit (unat b) 7" by (simp add: bit_unsigned_iff)
  also have "\<dots> = odd (unat b div 128)" by (simp add: bit_iff_odd)
  also have "\<dots> = (128 \<le> unat b)"
  proof (cases "128 \<le> unat b")
    case True
    then show ?thesis using high_byte(1) [OF True] by simp
  qed (simp add: div_less)
  finally show ?thesis .
qed

lemma byte_low_bits: "unat ((b :: byte) AND 0x7f) = unat b mod 128"
proof -
  have "b AND 0x7f = take_bit 7 b" by (simp only: take_bit_eq_mask) (simp add: mask_numeral)
  then have "unat (b AND 0x7f) = unat (take_bit 7 b)" by simp
  also have "\<dots> = take_bit 7 (unat b)" by (simp only: unsigned_take_bit_eq)
  finally show ?thesis by (simp add: take_bit_eq_mod)
qed

lemma byte_or_high: "unat (b :: byte) < 128 \<Longrightarrow> unat (b OR 0x80) = unat b + 128"
proof -
  assume "unat b < 128"
  then have "take_bit 7 (unat b) = unat b" by (simp add: take_bit_eq_mod)
  moreover have "unat (b OR 0x80) = unat b OR 2 ^ 7" by (simp add: unsigned_or_eq)
  moreover have "take_bit 7 (unat b) AND 2 ^ 7 = 0"
    by (simp only: and_exp_eq_0_iff_not_bit bit_take_bit_iff) simp
  then have "take_bit 7 (unat b) + 2 ^ 7 = take_bit 7 (unat b) OR 2 ^ 7" by (rule disjunctive_add_eq_or)
  ultimately show ?thesis by simp
qed

section \<open>The value of an encoding\<close>

text \<open>The signed value of a byte string: the magnitude without the sign bit, negated when it is set.\<close>

definition sn_magnitude :: "byte list \<Rightarrow> nat" where
  "sn_magnitude v = le_val (butlast v) + 256 ^ (length v - 1) * (unat (last v) mod 128)"

definition sn_value :: "byte list \<Rightarrow> int" where
  "sn_value v =
    (if v = [] then 0 else if 128 \<le> unat (last v) then - int (sn_magnitude v) else int (sn_magnitude v))"

lemma le_val_snoc: "v \<noteq> [] \<Longrightarrow> le_val v = le_val (butlast v) + 256 ^ (length v - 1) * unat (last v)"
  using le_val_append [of "butlast v" "[last v]"] by simp

lemma sn_magnitude_less: "v \<noteq> [] \<Longrightarrow> sn_magnitude v < 256 ^ (length v - 1) * 128"
proof -
  assume "v \<noteq> []"
  have "le_val (butlast v) < 256 ^ (length v - 1)" using le_val_less [of "butlast v"] by simp
  moreover have "256 ^ (length v - 1) * (unat (last v) mod 128) \<le> 256 ^ (length v - 1) * 127"
    by (intro mult_le_mono2) (simp add: less_Suc_eq_le [symmetric])
  ultimately show ?thesis unfolding sn_magnitude_def by linarith
qed

lemma sn_magnitude_less_63:
  assumes "v \<noteq> []" "length v \<le> 8"
  shows "sn_magnitude v < 2 ^ 63"
proof -
  have "(256 :: nat) ^ (length v - 1) \<le> 256 ^ 7" using assms(2) by (intro power_increasing) auto
  then show ?thesis using sn_magnitude_less [OF assms(1)] by simp
qed

lemma clear_sign_bit:
  fixes r :: u64
  assumes "v \<noteq> []" "length v \<le> 8" "128 \<le> unat (last v)" "uint r = int (le_val v)"
  shows "uint (r AND NOT (push_bit (8 * (length v - 1)) 0x80)) = int (sn_magnitude v)"
proof -
  let ?k = "8 * (length v - 1)"
  have pk: "(256 :: nat) ^ (length v - 1) = 2 ^ ?k" by (simp add: power_mult)
  have lo: "le_val (butlast v) < 2 ^ ?k" using le_val_less [of "butlast v"] pk by simp
  have m: "push_bit ?k (0x80 :: u64) = 2 ^ (?k + 7)" by (simp add: push_bit_eq_mult power_add)
  have lv: "le_val v = le_val (butlast v) + 2 ^ ?k * unat (last v)" using le_val_snoc [OF assms(1)] pk by simp
  have ge: "2 ^ ?k * 128 \<le> le_val v" using lv assms(3) by (simp add: mult_le_mono2 trans_le_add2)
  have "unat r = le_val v" using assms(4) by (simp add: unat_eq_nat_uint)
  then have "unat r div 2 ^ ?k = unat (last v)" using lv lo by simp
  then have "unat r div 2 ^ (?k + 7) = unat (last v) div 128" by (simp add: power_add div_mult2_eq)
  moreover have "unat (last v) div 128 = 1" using assms(3) by (rule high_byte(1))
  ultimately have "bit (unat r) (?k + 7)" by (simp add: bit_iff_odd)
  then have b: "bit r (?k + 7)" by (simp add: bit_unsigned_iff)
  have "NOT r AND 2 ^ (?k + 7) = 0" using b by (simp only: and_exp_eq_0_iff_not_bit bit_not_iff) simp
  then have d: "r AND NOT (2 ^ (?k + 7)) = r - 2 ^ (?k + 7)" by (rule disjunctive_diff_eq_and_not [symmetric])
  have k: "?k + 7 < 64" using assms(2) by simp
  have "(2 :: int) ^ (?k + 7) < 2 ^ 64" using k by (rule power_strict_increasing) simp
  then have um: "uint (2 ^ (?k + 7) :: u64) = 2 ^ (?k + 7)"
    using uint_word64 [of "2 ^ (?k + 7)"] by (metis of_int_numeral of_int_power zero_le_numeral zero_le_power)
  have "int (2 ^ ?k * 128) \<le> int (le_val v)" using ge by (simp only: of_nat_le_iff)
  then have "(2 :: int) ^ (?k + 7) \<le> uint r" using assms(4) by (simp add: power_add)
  then have "uint (r - 2 ^ (?k + 7)) = uint r - 2 ^ (?k + 7)" using um by (simp add: uint_sub_if')
  moreover have "int (le_val v) - 2 ^ (?k + 7) = int (sn_magnitude v)"
  proof -
    have "unat (last v) = 128 + unat (last v) mod 128" using assms(3) by (rule high_byte(2))
    then have "2 ^ ?k * unat (last v) = 2 ^ ?k * (unat (last v) mod 128) + 2 ^ ?k * 128"
      by (metis add.commute distrib_left)
    then have "le_val v = sn_magnitude v + 2 ^ ?k * 128"
      unfolding lv sn_magnitude_def pk by simp
    then show ?thesis by (simp add: power_add)
  qed
  ultimately show ?thesis using d m assms(4) by simp
qed

lemma makeScriptNum_value:
  assumes "length v \<le> 8"
  shows "makeScriptNum v rm k =
    (if length v > k then Err ErrStackNumberTooBig
     else if rm \<and> checkMinimalDataEncoding v \<noteq> Ok () then Err ErrStackMinimalData
     else Ok (sn_value v))"
proof (cases "v = []")
  case True
  then show ?thesis by (simp add: makeScriptNum_def checkMinimalDataEncoding_def sn_value_def)
next
  case False
  have l: "v ! (length v - 1) = last v" using False by (simp add: last_conv_nth)
  have u: "uint (decode_loop 0 v 0) = int (le_val v)" using uint_decode_loop [of 0 v 0] assms by simp
  have sh: "(8 * (length v - 1)) mod 256 = 8 * (length v - 1)" using assms by simp
  have m: "int (sn_magnitude v) < 2 ^ 63" using sn_magnitude_less_63 [OF False assms] by simp
  have "Ok (sn_value v) =
      (if last v AND 0x80 \<noteq> 0 then Ok (sint (- (decode_loop 0 v 0 AND NOT (push_bit (8 * (length v - 1)) 0x80))))
       else Ok (sint (decode_loop 0 v 0)))"
  proof (cases "128 \<le> unat (last v)")
    case True
    then show ?thesis
      using clear_sign_bit [OF False assms True u] m False
      by (simp add: byte_high_bit sint_uminus_small sn_value_def del: push_bit_numeral)
  next
    case neg: False
    then have "unat (last v) mod 128 = unat (last v)" by simp
    then have "le_val v = sn_magnitude v" using le_val_snoc [OF False] by (simp add: sn_magnitude_def)
    with neg u m False show ?thesis by (simp add: byte_high_bit sint_small sn_value_def)
  qed
  with l sh False show ?thesis
    by (auto simp: makeScriptNum_def Let_def checkMinimalDataEncoding_def)
qed

section \<open>Serialization\<close>

lemma le_val_le_digits: "0 \<le> n \<Longrightarrow> le_val (le_digits n) = nat n"
proof (induction n rule: le_digits.induct)
  case (1 n)
  show ?case
  proof (cases "n = 0")
    case True
    then show ?thesis by (simp add: le_digits.simps)
  next
    case False
    have a: "n AND 0xff = n mod 256" using take_bit_eq_mask [of 8 n] by (simp add: take_bit_eq_mod mask_numeral)
    then have "unat (word_of_int (n AND 0xff) :: byte) = nat (n mod 256)"
      by (simp add: unsigned_of_int take_bit_int_eq_self)
    moreover have "le_val (le_digits (drop_bit 8 n)) = nat (n div 256)"
      using 1 False by (simp add: drop_bit_eq_div pos_imp_zdiv_nonneg_iff)
    moreover have "nat (n mod 256) + 256 * nat (n div 256) = nat n"
      using \<open>0 \<le> n\<close> by (simp add: nat_mod_distrib nat_div_distrib)
    ultimately show ?thesis using False 1(2) by (simp add: le_digits.simps [of n])
  qed
qed

lemma le_digits_last: "0 < n \<Longrightarrow> le_digits n \<noteq> [] \<and> last (le_digits n) \<noteq> 0"
proof (induction n rule: le_digits.induct)
  case (1 n)
  show ?case
  proof (cases "n < 256")
    case True
    then have "drop_bit 8 n = 0" using 1(2) by (simp add: drop_bit_eq_div)
    moreover have "word_of_int n \<noteq> (0 :: byte)"
      using True 1(2) by (simp add: word_of_int_eq_0_iff zdvd_not_zless)
    moreover have "n AND 0xff = n" using take_bit_eq_mask [of 8 n] True 1(2) by (simp add: take_bit_int_eq_self mask_numeral)
    ultimately show ?thesis using 1(2) by (simp add: le_digits.simps [of n] le_digits.simps [of 0])
  next
    case False
    then have "0 < drop_bit 8 n" by (simp add: drop_bit_eq_div)
    with 1 show ?thesis by (simp add: le_digits.simps [of n])
  qed
qed

lemma le_digits_le_val: "d \<noteq> [] \<Longrightarrow> last d \<noteq> 0 \<Longrightarrow> le_digits (int (le_val d)) = d"
proof (induction d)
  case (Cons b d)
  have b: "unat b < 256" by (rule unat_byte_less)
  have pos: "0 < le_val (b # d)"
  proof (cases d)
    case Nil
    with Cons.prems show ?thesis by (simp add: unat_gt_0)
  next
    case d: (Cons c e)
    with Cons.IH Cons.prems have "le_digits (int (le_val d)) \<noteq> []" by simp
    then have "0 < int (le_val d)" by (subst (asm) le_digits.simps) (auto split: if_splits)
    then show ?thesis by simp
  qed
  have "int (le_val (b # d)) AND 0xff = int (unat b)"
  proof -
    have "int (le_val (b # d)) AND 0xff = int (le_val (b # d)) mod 256"
      using take_bit_eq_mask [of 8 "int (le_val (b # d))"] by (simp add: mask_numeral take_bit_eq_mod)
    also have "\<dots> = int (le_val (b # d) mod 256)" by (simp only: zmod_int of_nat_numeral)
    also have "le_val (b # d) mod 256 = unat b" using b by simp
    finally show ?thesis .
  qed
  moreover have "drop_bit 8 (int (le_val (b # d))) = int (le_val d)"
  proof -
    have "drop_bit 8 (int (le_val (b # d))) = int (le_val (b # d) div 256)"
      by (simp only: drop_bit_eq_div zdiv_int of_nat_numeral) simp
    also have "le_val (b # d) div 256 = le_val d" using b by simp
    finally show ?thesis .
  qed
  moreover have "le_digits (int (le_val d)) = d"
    using Cons by (cases d) (auto simp: le_digits.simps)
  ultimately have "le_digits (int (le_val (b # d))) = word_of_int (int (unat b)) # d"
    using pos by (subst le_digits.simps) (simp del: le_val.simps)
  then show ?case by simp
qed simp

definition minimal_num :: "byte list \<Rightarrow> bool" where
  "minimal_num v \<longleftrightarrow>
    v = [] \<or> unat (last v) mod 128 \<noteq> 0 \<or> (butlast v \<noteq> [] \<and> 128 \<le> unat (last (butlast v)))"

lemma checkMinimalDataEncoding_iff: "checkMinimalDataEncoding v = Ok () \<longleftrightarrow> minimal_num v"
proof (cases "v = []")
  case False
  have l: "v ! (length v - 1) = last v" using False by (simp add: last_conv_nth)
  have z: "last v AND 0x7f = 0 \<longleftrightarrow> unat (last v) mod 128 = 0" by (metis byte_low_bits unat_0 unat_eq_zero)
  have b: "butlast v \<noteq> [] \<longleftrightarrow> length v \<noteq> 1" using False by (cases v) auto
  have p: "length v \<noteq> 1 \<Longrightarrow> v ! (length v - 2) = last (butlast v)"
    using False b by (cases v rule: rev_cases) (auto simp: last_conv_nth nth_append numeral_2_eq_2)
  show ?thesis
    using False l z b p by (auto simp: checkMinimalDataEncoding_def minimal_num_def byte_high_bit [symmetric])
qed (simp add: checkMinimalDataEncoding_def minimal_num_def)

text \<open>A minimal encoding is what serializing its value gives.\<close>

lemma scriptNum_Bytes_sn_value:
  assumes "minimal_num v" "length v \<le> 8"
  shows "scriptNum_Bytes (sn_value v) = Ok v"
proof (cases v rule: rev_cases)
  case Nil
  then show ?thesis by (simp add: sn_value_def scriptNum_Bytes_def)
next
  case (snoc w b)
  let ?m = "int (sn_magnitude v)"
  let ?d = "if unat b mod 128 = 0 then w else w @ [b AND 0x7f]"
  have low: "unat (b AND 0x7f) = unat b mod 128" by (rule byte_low_bits)
  have d: "?d \<noteq> []" "last ?d \<noteq> 0"
    using assms(1) low snoc by (auto simp: minimal_num_def)
  have "le_val ?d = sn_magnitude v"
    using low snoc by (simp add: sn_magnitude_def le_val_append)
  then have dig: "le_digits ?m = ?d" using le_digits_le_val [OF d] by simp
  then have pos: "0 < ?m" using d(1) le_digits.simps [of ?m] by (auto split: if_splits)
  have w: "wrap64 ?m = ?m"
    using sn_magnitude_less_63 [of v] assms(2) snoc by (intro wrap64_id) (simp add: int64_def)
  show ?thesis
  proof (cases "unat b mod 128 = 0")
    case True
    then have h: "w \<noteq> []" "last w AND 0x80 \<noteq> 0" using assms(1) snoc by (simp_all add: byte_high_bit minimal_num_def)
    have "b = (if 128 \<le> unat b then 0x80 else 0)"
      using True unat_byte_less [of b] by (auto simp: word_unat_eq_iff)
    then show ?thesis
      using dig h w pos True snoc
      by (cases "128 \<le> unat b") (simp_all add: scriptNum_Bytes_def sn_value_def Let_def)
  next
    case nz: False
    have h: "\<not> 128 \<le> unat (b AND 0x7f)" using low by simp
    have "(b AND 0x7f) OR 0x80 = b" if "128 \<le> unat b"
    proof -
      have "unat b = 128 + unat b mod 128" using that by (rule high_byte(2))
      then show ?thesis using byte_or_high [of "b AND 0x7f"] low by (simp add: word_unat_eq_iff)
    qed
    moreover have "b AND 0x7f = b" if "\<not> 128 \<le> unat b" using that low by (simp add: word_unat_eq_iff)
    ultimately show ?thesis
      using dig w pos nz h snoc
      by (cases "128 \<le> unat b") (simp_all add: scriptNum_Bytes_def sn_value_def Let_def byte_high_bit)
  qed
qed

lemma sn_value_snoc:
  "sn_value (w @ [b]) = (if 128 \<le> unat b then - 1 else 1) * int (le_val w + 256 ^ length w * (unat b mod 128))"
  by (simp add: sn_value_def sn_magnitude_def)

lemma le_val_last_ge: "d \<noteq> [] \<Longrightarrow> 256 ^ (length d - 1) * unat (last d) \<le> le_val d"
  using le_val_snoc [of d] by simp

text \<open>Every value has a minimal encoding, of at most 8 bytes.\<close>

lemma sn_value_surj:
  assumes "- (2 ^ 63) < n" "n < 2 ^ 63"
  shows "\<exists>v. minimal_num v \<and> sn_value v = n \<and> length v \<le> 8"
proof (cases "n = 0")
  case True
  then show ?thesis by (intro exI [of _ "[]"]) (simp add: minimal_num_def sn_value_def)
next
  case False
  obtain w c where d: "le_digits \<bar>n\<bar> = w @ [c]" "c \<noteq> 0"
    using le_digits_last [of "\<bar>n\<bar>"] False by (metis append_butlast_last_id zero_less_abs_iff)
  have n: "le_val w + 256 ^ length w * unat c = nat \<bar>n\<bar>"
    using le_val_le_digits [of "\<bar>n\<bar>"] d by (simp add: le_val_append)
  have c: "0 < unat c" using d(2) by (simp add: unat_gt_0)
  have "nat \<bar>n\<bar> < 2 ^ 63" using assms by (simp add: nat_less_iff)
  then have bound: "256 ^ length w * unat c < 2 ^ 63" using n by linarith
  show ?thesis
  proof (cases "128 \<le> unat c")
    case True
    have "256 ^ length w * 128 \<le> 256 ^ length w * unat c" using True by simp
    then have "256 ^ length w * 128 < (2 :: nat) ^ 63" using bound by (rule le_less_trans)
    then have "(256 :: nat) ^ length w < 256 ^ 7" by simp
    then have "length w < 7" by (rule power_less_imp_less_exp [rotated]) simp
    then have "length (w @ [c, if n < 0 then 0x80 else 0]) \<le> 8" by simp
    moreover have "sn_value ((w @ [c]) @ [if n < 0 then 0x80 else 0]) = n"
      unfolding sn_value_snoc using n by (simp add: le_val_append)
    moreover have "minimal_num (w @ [c, if n < 0 then 0x80 else 0])"
      using True by (simp add: minimal_num_def butlast_append)
    ultimately show ?thesis by auto
  next
    case small: False
    let ?b = "if n < 0 then c OR 0x80 else c"
    have b: "unat ?b mod 128 = unat c" "(128 \<le> unat ?b) = (n < 0)"
      using small byte_or_high [of c] by auto
    have "256 ^ length w \<le> 256 ^ length w * unat c" using c by simp
    then have "256 ^ length w < (2 :: nat) ^ 63" using bound by (rule le_less_trans)
    then have "(256 :: nat) ^ length w < 256 ^ 8" by simp
    then have "length w < 8" by (rule power_less_imp_less_exp [rotated]) simp
    moreover have "sn_value (w @ [?b]) = n"
      unfolding sn_value_snoc b using n by simp
    moreover have "minimal_num (w @ [?b])" using b c by (simp add: minimal_num_def)
    ultimately show ?thesis by (intro exI [of _ "w @ [?b]"]) simp
  qed
qed

text \<open>C30 (script numbers). Serializing any \<^verbatim>\<open>int64\<close> other than the least one gives a minimal encoding of
  at most 8 bytes that \<open>makeScriptNum\<close> reads back, with or without the minimality check; conversely a
  byte string of at most 8 bytes that \<open>makeScriptNum\<close> accepts under the check is the serialization of the
  number it returns. The least \<^verbatim>\<open>int64\<close> makes \<open>scriptNum_Bytes\<close> panic.\<close>

theorem scriptNum_roundtrip:
  assumes "- (2 ^ 63) < n" "n < 2 ^ 63" "length w \<le> 8"
  shows "(\<exists>v. scriptNum_Bytes n = Ok v \<and> length v \<le> 8 \<and> checkMinimalDataEncoding v = Ok () \<and>
      (\<forall>k rm. makeScriptNum v rm k = (if length v \<le> k then Ok n else Err ErrStackNumberTooBig))) \<and>
    (makeScriptNum w True k = Ok m \<longrightarrow> scriptNum_Bytes m = Ok w) \<and>
    scriptNum_Bytes (- (2 ^ 63)) = Panic"
proof -
  obtain v where v: "minimal_num v" "sn_value v = n" "length v \<le> 8"
    using sn_value_surj [OF assms(1,2)] by blast
  have 1: "scriptNum_Bytes n = Ok v" using scriptNum_Bytes_sn_value [OF v(1,3)] v(2) by simp
  have 2: "checkMinimalDataEncoding v = Ok ()" using v(1) by (simp add: checkMinimalDataEncoding_iff)
  have 3: "makeScriptNum v rm k = (if length v \<le> k then Ok n else Err ErrStackNumberTooBig)" for rm k
    using 2 v by (simp add: makeScriptNum_value not_less)
  have 4: "scriptNum_Bytes m = Ok w" if "makeScriptNum w True k = Ok m"
    using that assms(3) scriptNum_Bytes_sn_value [of w]
    by (auto simp: makeScriptNum_value checkMinimalDataEncoding_iff split: if_splits)
  have 5: "scriptNum_Bytes (- (2 ^ 63)) = Panic"
    by (simp add: scriptNum_Bytes_def wrap64_def le_digits.simps)
  from 1 2 3 4 5 v(3) show ?thesis by blast
qed

theorem scriptNum_roundtrip_witness:
  "(\<exists>v. scriptNum_Bytes (- 255) = Ok v \<and> makeScriptNum v True 4 = Ok (- 255)) \<and>
   scriptNum_Bytes (- 255) = Ok [0xff, 0x80]"
proof -
  have m: "makeScriptNum [0xff, 0x80] True 4 = Ok (- 255)"
    by (simp add: makeScriptNum_def checkMinimalDataEncoding_def)
  obtain v where v: "scriptNum_Bytes (- 255) = Ok v" "length v \<le> 8"
    "\<forall>k rm. makeScriptNum v rm k = (if length v \<le> k then Ok (- 255) else Err ErrStackNumberTooBig)"
    "makeScriptNum [0xff, 0x80] True 4 = Ok (- 255) \<longrightarrow> scriptNum_Bytes (- 255) = Ok [0xff, 0x80]"
    using scriptNum_roundtrip [of "- 255" "[0xff, 0x80]" 4 "- 255"] by auto
  with m show ?thesis by auto
qed

end
