(* ===== verification/Opcode.thy ===== *)
theory Opcode
  imports ScriptNum
begin

text \<open>
  \<^verbatim>\<open>txscript/opcode.go\<close>, the data part: the values of the opcodes, the table \<^verbatim>\<open>opcodeArray\<close> with the name, the
  length and the handler of each of the 256 opcodes, the parsed form of an instruction, and what the
  engine and the parser ask of it. The handlers are named here by the constructors of \<open>opfunc\<close> and defined
  with the engine. The theory shows the lengths of the table and which handlers the opcodes that fail even
  in a branch that is not executed have.
\<close>

section \<open>Values\<close>

abbreviation (input) OP_0 :: byte where "OP_0 \<equiv> 0x00"
abbreviation (input) OP_FALSE :: byte where "OP_FALSE \<equiv> 0x00"
abbreviation (input) OP_DATA_1 :: byte where "OP_DATA_1 \<equiv> 0x01"
abbreviation (input) OP_DATA_8 :: byte where "OP_DATA_8 \<equiv> 0x08"
abbreviation (input) OP_DATA_20 :: byte where "OP_DATA_20 \<equiv> 0x14"
abbreviation (input) OP_DATA_22 :: byte where "OP_DATA_22 \<equiv> 0x16"
abbreviation (input) OP_DATA_32 :: byte where "OP_DATA_32 \<equiv> 0x20"
abbreviation (input) OP_DATA_75 :: byte where "OP_DATA_75 \<equiv> 0x4b"
abbreviation (input) OP_PUSHDATA1 :: byte where "OP_PUSHDATA1 \<equiv> 0x4c"
abbreviation (input) OP_PUSHDATA2 :: byte where "OP_PUSHDATA2 \<equiv> 0x4d"
abbreviation (input) OP_PUSHDATA4 :: byte where "OP_PUSHDATA4 \<equiv> 0x4e"
abbreviation (input) OP_1NEGATE :: byte where "OP_1NEGATE \<equiv> 0x4f"
abbreviation (input) OP_RESERVED :: byte where "OP_RESERVED \<equiv> 0x50"
abbreviation (input) OP_1 :: byte where "OP_1 \<equiv> 0x51"
abbreviation (input) OP_TRUE :: byte where "OP_TRUE \<equiv> 0x51"
abbreviation (input) OP_2 :: byte where "OP_2 \<equiv> 0x52"
abbreviation (input) OP_3 :: byte where "OP_3 \<equiv> 0x53"
abbreviation (input) OP_4 :: byte where "OP_4 \<equiv> 0x54"
abbreviation (input) OP_5 :: byte where "OP_5 \<equiv> 0x55"
abbreviation (input) OP_6 :: byte where "OP_6 \<equiv> 0x56"
abbreviation (input) OP_7 :: byte where "OP_7 \<equiv> 0x57"
abbreviation (input) OP_8 :: byte where "OP_8 \<equiv> 0x58"
abbreviation (input) OP_9 :: byte where "OP_9 \<equiv> 0x59"
abbreviation (input) OP_10 :: byte where "OP_10 \<equiv> 0x5a"
abbreviation (input) OP_11 :: byte where "OP_11 \<equiv> 0x5b"
abbreviation (input) OP_12 :: byte where "OP_12 \<equiv> 0x5c"
abbreviation (input) OP_13 :: byte where "OP_13 \<equiv> 0x5d"
abbreviation (input) OP_14 :: byte where "OP_14 \<equiv> 0x5e"
abbreviation (input) OP_15 :: byte where "OP_15 \<equiv> 0x5f"
abbreviation (input) OP_16 :: byte where "OP_16 \<equiv> 0x60"
abbreviation (input) OP_NOP :: byte where "OP_NOP \<equiv> 0x61"
abbreviation (input) OP_VER :: byte where "OP_VER \<equiv> 0x62"
abbreviation (input) OP_IF :: byte where "OP_IF \<equiv> 0x63"
abbreviation (input) OP_NOTIF :: byte where "OP_NOTIF \<equiv> 0x64"
abbreviation (input) OP_VERIF :: byte where "OP_VERIF \<equiv> 0x65"
abbreviation (input) OP_VERNOTIF :: byte where "OP_VERNOTIF \<equiv> 0x66"
abbreviation (input) OP_ELSE :: byte where "OP_ELSE \<equiv> 0x67"
abbreviation (input) OP_ENDIF :: byte where "OP_ENDIF \<equiv> 0x68"
abbreviation (input) OP_VERIFY :: byte where "OP_VERIFY \<equiv> 0x69"
abbreviation (input) OP_RETURN :: byte where "OP_RETURN \<equiv> 0x6a"
abbreviation (input) OP_TOALTSTACK :: byte where "OP_TOALTSTACK \<equiv> 0x6b"
abbreviation (input) OP_FROMALTSTACK :: byte where "OP_FROMALTSTACK \<equiv> 0x6c"
abbreviation (input) OP_2DROP :: byte where "OP_2DROP \<equiv> 0x6d"
abbreviation (input) OP_2DUP :: byte where "OP_2DUP \<equiv> 0x6e"
abbreviation (input) OP_3DUP :: byte where "OP_3DUP \<equiv> 0x6f"
abbreviation (input) OP_2OVER :: byte where "OP_2OVER \<equiv> 0x70"
abbreviation (input) OP_2ROT :: byte where "OP_2ROT \<equiv> 0x71"
abbreviation (input) OP_2SWAP :: byte where "OP_2SWAP \<equiv> 0x72"
abbreviation (input) OP_IFDUP :: byte where "OP_IFDUP \<equiv> 0x73"
abbreviation (input) OP_DEPTH :: byte where "OP_DEPTH \<equiv> 0x74"
abbreviation (input) OP_DROP :: byte where "OP_DROP \<equiv> 0x75"
abbreviation (input) OP_DUP :: byte where "OP_DUP \<equiv> 0x76"
abbreviation (input) OP_NIP :: byte where "OP_NIP \<equiv> 0x77"
abbreviation (input) OP_OVER :: byte where "OP_OVER \<equiv> 0x78"
abbreviation (input) OP_PICK :: byte where "OP_PICK \<equiv> 0x79"
abbreviation (input) OP_ROLL :: byte where "OP_ROLL \<equiv> 0x7a"
abbreviation (input) OP_ROT :: byte where "OP_ROT \<equiv> 0x7b"
abbreviation (input) OP_SWAP :: byte where "OP_SWAP \<equiv> 0x7c"
abbreviation (input) OP_TUCK :: byte where "OP_TUCK \<equiv> 0x7d"
abbreviation (input) OP_CAT :: byte where "OP_CAT \<equiv> 0x7e"
abbreviation (input) OP_SUBSTR :: byte where "OP_SUBSTR \<equiv> 0x7f"
abbreviation (input) OP_LEFT :: byte where "OP_LEFT \<equiv> 0x80"
abbreviation (input) OP_RIGHT :: byte where "OP_RIGHT \<equiv> 0x81"
abbreviation (input) OP_SIZE :: byte where "OP_SIZE \<equiv> 0x82"
abbreviation (input) OP_INVERT :: byte where "OP_INVERT \<equiv> 0x83"
abbreviation (input) OP_AND :: byte where "OP_AND \<equiv> 0x84"
abbreviation (input) OP_OR :: byte where "OP_OR \<equiv> 0x85"
abbreviation (input) OP_XOR :: byte where "OP_XOR \<equiv> 0x86"
abbreviation (input) OP_EQUAL :: byte where "OP_EQUAL \<equiv> 0x87"
abbreviation (input) OP_EQUALVERIFY :: byte where "OP_EQUALVERIFY \<equiv> 0x88"
abbreviation (input) OP_RESERVED1 :: byte where "OP_RESERVED1 \<equiv> 0x89"
abbreviation (input) OP_RESERVED2 :: byte where "OP_RESERVED2 \<equiv> 0x8a"
abbreviation (input) OP_1ADD :: byte where "OP_1ADD \<equiv> 0x8b"
abbreviation (input) OP_1SUB :: byte where "OP_1SUB \<equiv> 0x8c"
abbreviation (input) OP_2MUL :: byte where "OP_2MUL \<equiv> 0x8d"
abbreviation (input) OP_2DIV :: byte where "OP_2DIV \<equiv> 0x8e"
abbreviation (input) OP_NEGATE :: byte where "OP_NEGATE \<equiv> 0x8f"
abbreviation (input) OP_ABS :: byte where "OP_ABS \<equiv> 0x90"
abbreviation (input) OP_NOT :: byte where "OP_NOT \<equiv> 0x91"
abbreviation (input) OP_0NOTEQUAL :: byte where "OP_0NOTEQUAL \<equiv> 0x92"
abbreviation (input) OP_ADD :: byte where "OP_ADD \<equiv> 0x93"
abbreviation (input) OP_SUB :: byte where "OP_SUB \<equiv> 0x94"
abbreviation (input) OP_MUL :: byte where "OP_MUL \<equiv> 0x95"
abbreviation (input) OP_DIV :: byte where "OP_DIV \<equiv> 0x96"
abbreviation (input) OP_MOD :: byte where "OP_MOD \<equiv> 0x97"
abbreviation (input) OP_LSHIFT :: byte where "OP_LSHIFT \<equiv> 0x98"
abbreviation (input) OP_RSHIFT :: byte where "OP_RSHIFT \<equiv> 0x99"
abbreviation (input) OP_BOOLAND :: byte where "OP_BOOLAND \<equiv> 0x9a"
abbreviation (input) OP_BOOLOR :: byte where "OP_BOOLOR \<equiv> 0x9b"
abbreviation (input) OP_NUMEQUAL :: byte where "OP_NUMEQUAL \<equiv> 0x9c"
abbreviation (input) OP_NUMEQUALVERIFY :: byte where "OP_NUMEQUALVERIFY \<equiv> 0x9d"
abbreviation (input) OP_NUMNOTEQUAL :: byte where "OP_NUMNOTEQUAL \<equiv> 0x9e"
abbreviation (input) OP_LESSTHAN :: byte where "OP_LESSTHAN \<equiv> 0x9f"
abbreviation (input) OP_GREATERTHAN :: byte where "OP_GREATERTHAN \<equiv> 0xa0"
abbreviation (input) OP_LESSTHANOREQUAL :: byte where "OP_LESSTHANOREQUAL \<equiv> 0xa1"
abbreviation (input) OP_GREATERTHANOREQUAL :: byte where "OP_GREATERTHANOREQUAL \<equiv> 0xa2"
abbreviation (input) OP_MIN :: byte where "OP_MIN \<equiv> 0xa3"
abbreviation (input) OP_MAX :: byte where "OP_MAX \<equiv> 0xa4"
abbreviation (input) OP_WITHIN :: byte where "OP_WITHIN \<equiv> 0xa5"
abbreviation (input) OP_RIPEMD160 :: byte where "OP_RIPEMD160 \<equiv> 0xa6"
abbreviation (input) OP_SHA1 :: byte where "OP_SHA1 \<equiv> 0xa7"
abbreviation (input) OP_SHA256 :: byte where "OP_SHA256 \<equiv> 0xa8"
abbreviation (input) OP_HASH160 :: byte where "OP_HASH160 \<equiv> 0xa9"
abbreviation (input) OP_HASH256 :: byte where "OP_HASH256 \<equiv> 0xaa"
abbreviation (input) OP_CODESEPARATOR :: byte where "OP_CODESEPARATOR \<equiv> 0xab"
abbreviation (input) OP_CHECKSIG :: byte where "OP_CHECKSIG \<equiv> 0xac"
abbreviation (input) OP_CHECKSIGVERIFY :: byte where "OP_CHECKSIGVERIFY \<equiv> 0xad"
abbreviation (input) OP_CHECKMULTISIG :: byte where "OP_CHECKMULTISIG \<equiv> 0xae"
abbreviation (input) OP_CHECKMULTISIGVERIFY :: byte where "OP_CHECKMULTISIGVERIFY \<equiv> 0xaf"
abbreviation (input) OP_NOP1 :: byte where "OP_NOP1 \<equiv> 0xb0"
abbreviation (input) OP_NOP2 :: byte where "OP_NOP2 \<equiv> 0xb1"
abbreviation (input) OP_CHECKLOCKTIMEVERIFY :: byte where "OP_CHECKLOCKTIMEVERIFY \<equiv> 0xb1"
abbreviation (input) OP_NOP3 :: byte where "OP_NOP3 \<equiv> 0xb2"
abbreviation (input) OP_CHECKSEQUENCEVERIFY :: byte where "OP_CHECKSEQUENCEVERIFY \<equiv> 0xb2"
abbreviation (input) OP_NOP4 :: byte where "OP_NOP4 \<equiv> 0xb3"
abbreviation (input) OP_NOP5 :: byte where "OP_NOP5 \<equiv> 0xb4"
abbreviation (input) OP_NOP6 :: byte where "OP_NOP6 \<equiv> 0xb5"
abbreviation (input) OP_NOP7 :: byte where "OP_NOP7 \<equiv> 0xb6"
abbreviation (input) OP_NOP8 :: byte where "OP_NOP8 \<equiv> 0xb7"
abbreviation (input) OP_NOP9 :: byte where "OP_NOP9 \<equiv> 0xb8"
abbreviation (input) OP_NOP10 :: byte where "OP_NOP10 \<equiv> 0xb9"
abbreviation (input) OP_SMALLDATA :: byte where "OP_SMALLDATA \<equiv> 0xf9"
abbreviation (input) OP_SMALLINTEGER :: byte where "OP_SMALLINTEGER \<equiv> 0xfa"
abbreviation (input) OP_PUBKEYS :: byte where "OP_PUBKEYS \<equiv> 0xfb"
abbreviation (input) OP_PUBKEYHASH :: byte where "OP_PUBKEYHASH \<equiv> 0xfd"
abbreviation (input) OP_PUBKEY :: byte where "OP_PUBKEY \<equiv> 0xfe"
abbreviation (input) OP_INVALIDOPCODE :: byte where "OP_INVALIDOPCODE \<equiv> 0xff"

section \<open>The table\<close>

datatype opfunc =
    Fn_False | Fn_PushData | Fn_1Negate | Fn_Reserved | Fn_N | Fn_Nop
  | Fn_If | Fn_NotIf | Fn_Else | Fn_Endif | Fn_Verify | Fn_Return
  | Fn_CheckLockTimeVerify | Fn_CheckSequenceVerify | Fn_ToAltStack | Fn_FromAltStack | Fn_2Drop | Fn_2Dup
  | Fn_3Dup | Fn_2Over | Fn_2Rot | Fn_2Swap | Fn_IfDup | Fn_Depth
  | Fn_Drop | Fn_Dup | Fn_Nip | Fn_Over | Fn_Pick | Fn_Roll
  | Fn_Rot | Fn_Swap | Fn_Tuck | Fn_Disabled | Fn_Size | Fn_Equal
  | Fn_EqualVerify | Fn_1Add | Fn_1Sub | Fn_Negate | Fn_Abs | Fn_Not
  | Fn_0NotEqual | Fn_Add | Fn_Sub | Fn_BoolAnd | Fn_BoolOr | Fn_NumEqual
  | Fn_NumEqualVerify | Fn_NumNotEqual | Fn_LessThan | Fn_GreaterThan | Fn_LessThanOrEqual | Fn_GreaterThanOrEqual
  | Fn_Min | Fn_Max | Fn_Within | Fn_Ripemd160 | Fn_Sha1 | Fn_Sha256
  | Fn_Hash160 | Fn_Hash256 | Fn_CodeSeparator | Fn_CheckSig | Fn_CheckSigVerify | Fn_CheckMultiSig
  | Fn_CheckMultiSigVerify | Fn_Invalid

record opcode =
  op_value :: byte
  op_name :: string
  op_length :: int
  op_func :: opfunc

text \<open>The table's entries in the order of the source; the runs \<^verbatim>\<open>OP_DATA_1\<close> to \<^verbatim>\<open>OP_DATA_75\<close> and
  \<^verbatim>\<open>OP_UNKNOWN\<close> are given by rule in \<open>opcodeArray\<close>.\<close>

definition push_opcodes :: "(byte \<times> string \<times> int \<times> opfunc) list" where
  "push_opcodes =
    [(OP_FALSE, ''OP_0'', 1, Fn_False),
     (OP_PUSHDATA1, ''OP_PUSHDATA1'', - 1, Fn_PushData),
     (OP_PUSHDATA2, ''OP_PUSHDATA2'', - 2, Fn_PushData),
     (OP_PUSHDATA4, ''OP_PUSHDATA4'', - 4, Fn_PushData),
     (OP_1NEGATE, ''OP_1NEGATE'', 1, Fn_1Negate),
     (OP_RESERVED, ''OP_RESERVED'', 1, Fn_Reserved),
     (OP_TRUE, ''OP_1'', 1, Fn_N),
     (OP_2, ''OP_2'', 1, Fn_N),
     (OP_3, ''OP_3'', 1, Fn_N),
     (OP_4, ''OP_4'', 1, Fn_N),
     (OP_5, ''OP_5'', 1, Fn_N),
     (OP_6, ''OP_6'', 1, Fn_N),
     (OP_7, ''OP_7'', 1, Fn_N),
     (OP_8, ''OP_8'', 1, Fn_N),
     (OP_9, ''OP_9'', 1, Fn_N),
     (OP_10, ''OP_10'', 1, Fn_N),
     (OP_11, ''OP_11'', 1, Fn_N),
     (OP_12, ''OP_12'', 1, Fn_N),
     (OP_13, ''OP_13'', 1, Fn_N),
     (OP_14, ''OP_14'', 1, Fn_N),
     (OP_15, ''OP_15'', 1, Fn_N),
     (OP_16, ''OP_16'', 1, Fn_N)]"

definition control_opcodes :: "(byte \<times> string \<times> int \<times> opfunc) list" where
  "control_opcodes =
    [(OP_NOP, ''OP_NOP'', 1, Fn_Nop),
     (OP_VER, ''OP_VER'', 1, Fn_Reserved),
     (OP_IF, ''OP_IF'', 1, Fn_If),
     (OP_NOTIF, ''OP_NOTIF'', 1, Fn_NotIf),
     (OP_VERIF, ''OP_VERIF'', 1, Fn_Reserved),
     (OP_VERNOTIF, ''OP_VERNOTIF'', 1, Fn_Reserved),
     (OP_ELSE, ''OP_ELSE'', 1, Fn_Else),
     (OP_ENDIF, ''OP_ENDIF'', 1, Fn_Endif),
     (OP_VERIFY, ''OP_VERIFY'', 1, Fn_Verify),
     (OP_RETURN, ''OP_RETURN'', 1, Fn_Return),
     (OP_CHECKLOCKTIMEVERIFY, ''OP_CHECKLOCKTIMEVERIFY'', 1, Fn_CheckLockTimeVerify),
     (OP_CHECKSEQUENCEVERIFY, ''OP_CHECKSEQUENCEVERIFY'', 1, Fn_CheckSequenceVerify)]"

definition stack_opcodes :: "(byte \<times> string \<times> int \<times> opfunc) list" where
  "stack_opcodes =
    [(OP_TOALTSTACK, ''OP_TOALTSTACK'', 1, Fn_ToAltStack),
     (OP_FROMALTSTACK, ''OP_FROMALTSTACK'', 1, Fn_FromAltStack),
     (OP_2DROP, ''OP_2DROP'', 1, Fn_2Drop),
     (OP_2DUP, ''OP_2DUP'', 1, Fn_2Dup),
     (OP_3DUP, ''OP_3DUP'', 1, Fn_3Dup),
     (OP_2OVER, ''OP_2OVER'', 1, Fn_2Over),
     (OP_2ROT, ''OP_2ROT'', 1, Fn_2Rot),
     (OP_2SWAP, ''OP_2SWAP'', 1, Fn_2Swap),
     (OP_IFDUP, ''OP_IFDUP'', 1, Fn_IfDup),
     (OP_DEPTH, ''OP_DEPTH'', 1, Fn_Depth),
     (OP_DROP, ''OP_DROP'', 1, Fn_Drop),
     (OP_DUP, ''OP_DUP'', 1, Fn_Dup),
     (OP_NIP, ''OP_NIP'', 1, Fn_Nip),
     (OP_OVER, ''OP_OVER'', 1, Fn_Over),
     (OP_PICK, ''OP_PICK'', 1, Fn_Pick),
     (OP_ROLL, ''OP_ROLL'', 1, Fn_Roll),
     (OP_ROT, ''OP_ROT'', 1, Fn_Rot),
     (OP_SWAP, ''OP_SWAP'', 1, Fn_Swap),
     (OP_TUCK, ''OP_TUCK'', 1, Fn_Tuck)]"

definition splice_opcodes :: "(byte \<times> string \<times> int \<times> opfunc) list" where
  "splice_opcodes =
    [(OP_CAT, ''OP_CAT'', 1, Fn_Disabled),
     (OP_SUBSTR, ''OP_SUBSTR'', 1, Fn_Disabled),
     (OP_LEFT, ''OP_LEFT'', 1, Fn_Disabled),
     (OP_RIGHT, ''OP_RIGHT'', 1, Fn_Disabled),
     (OP_SIZE, ''OP_SIZE'', 1, Fn_Size),
     (OP_INVERT, ''OP_INVERT'', 1, Fn_Disabled),
     (OP_AND, ''OP_AND'', 1, Fn_Disabled),
     (OP_OR, ''OP_OR'', 1, Fn_Disabled),
     (OP_XOR, ''OP_XOR'', 1, Fn_Disabled),
     (OP_EQUAL, ''OP_EQUAL'', 1, Fn_Equal),
     (OP_EQUALVERIFY, ''OP_EQUALVERIFY'', 1, Fn_EqualVerify),
     (OP_RESERVED1, ''OP_RESERVED1'', 1, Fn_Reserved),
     (OP_RESERVED2, ''OP_RESERVED2'', 1, Fn_Reserved)]"

definition numeric_opcodes :: "(byte \<times> string \<times> int \<times> opfunc) list" where
  "numeric_opcodes =
    [(OP_1ADD, ''OP_1ADD'', 1, Fn_1Add),
     (OP_1SUB, ''OP_1SUB'', 1, Fn_1Sub),
     (OP_2MUL, ''OP_2MUL'', 1, Fn_Disabled),
     (OP_2DIV, ''OP_2DIV'', 1, Fn_Disabled),
     (OP_NEGATE, ''OP_NEGATE'', 1, Fn_Negate),
     (OP_ABS, ''OP_ABS'', 1, Fn_Abs),
     (OP_NOT, ''OP_NOT'', 1, Fn_Not),
     (OP_0NOTEQUAL, ''OP_0NOTEQUAL'', 1, Fn_0NotEqual),
     (OP_ADD, ''OP_ADD'', 1, Fn_Add),
     (OP_SUB, ''OP_SUB'', 1, Fn_Sub),
     (OP_MUL, ''OP_MUL'', 1, Fn_Disabled),
     (OP_DIV, ''OP_DIV'', 1, Fn_Disabled),
     (OP_MOD, ''OP_MOD'', 1, Fn_Disabled),
     (OP_LSHIFT, ''OP_LSHIFT'', 1, Fn_Disabled),
     (OP_RSHIFT, ''OP_RSHIFT'', 1, Fn_Disabled),
     (OP_BOOLAND, ''OP_BOOLAND'', 1, Fn_BoolAnd),
     (OP_BOOLOR, ''OP_BOOLOR'', 1, Fn_BoolOr),
     (OP_NUMEQUAL, ''OP_NUMEQUAL'', 1, Fn_NumEqual),
     (OP_NUMEQUALVERIFY, ''OP_NUMEQUALVERIFY'', 1, Fn_NumEqualVerify),
     (OP_NUMNOTEQUAL, ''OP_NUMNOTEQUAL'', 1, Fn_NumNotEqual),
     (OP_LESSTHAN, ''OP_LESSTHAN'', 1, Fn_LessThan),
     (OP_GREATERTHAN, ''OP_GREATERTHAN'', 1, Fn_GreaterThan),
     (OP_LESSTHANOREQUAL, ''OP_LESSTHANOREQUAL'', 1, Fn_LessThanOrEqual),
     (OP_GREATERTHANOREQUAL, ''OP_GREATERTHANOREQUAL'', 1, Fn_GreaterThanOrEqual),
     (OP_MIN, ''OP_MIN'', 1, Fn_Min),
     (OP_MAX, ''OP_MAX'', 1, Fn_Max),
     (OP_WITHIN, ''OP_WITHIN'', 1, Fn_Within)]"

definition crypto_opcodes :: "(byte \<times> string \<times> int \<times> opfunc) list" where
  "crypto_opcodes =
    [(OP_RIPEMD160, ''OP_RIPEMD160'', 1, Fn_Ripemd160),
     (OP_SHA1, ''OP_SHA1'', 1, Fn_Sha1),
     (OP_SHA256, ''OP_SHA256'', 1, Fn_Sha256),
     (OP_HASH160, ''OP_HASH160'', 1, Fn_Hash160),
     (OP_HASH256, ''OP_HASH256'', 1, Fn_Hash256),
     (OP_CODESEPARATOR, ''OP_CODESEPARATOR'', 1, Fn_CodeSeparator),
     (OP_CHECKSIG, ''OP_CHECKSIG'', 1, Fn_CheckSig),
     (OP_CHECKSIGVERIFY, ''OP_CHECKSIGVERIFY'', 1, Fn_CheckSigVerify),
     (OP_CHECKMULTISIG, ''OP_CHECKMULTISIG'', 1, Fn_CheckMultiSig),
     (OP_CHECKMULTISIGVERIFY, ''OP_CHECKMULTISIGVERIFY'', 1, Fn_CheckMultiSigVerify)]"

definition reserved_opcodes :: "(byte \<times> string \<times> int \<times> opfunc) list" where
  "reserved_opcodes =
    [(OP_NOP1, ''OP_NOP1'', 1, Fn_Nop),
     (OP_NOP4, ''OP_NOP4'', 1, Fn_Nop),
     (OP_NOP5, ''OP_NOP5'', 1, Fn_Nop),
     (OP_NOP6, ''OP_NOP6'', 1, Fn_Nop),
     (OP_NOP7, ''OP_NOP7'', 1, Fn_Nop),
     (OP_NOP8, ''OP_NOP8'', 1, Fn_Nop),
     (OP_NOP9, ''OP_NOP9'', 1, Fn_Nop),
     (OP_NOP10, ''OP_NOP10'', 1, Fn_Nop),
     (OP_SMALLDATA, ''OP_SMALLDATA'', 1, Fn_Invalid),
     (OP_SMALLINTEGER, ''OP_SMALLINTEGER'', 1, Fn_Invalid),
     (OP_PUBKEYS, ''OP_PUBKEYS'', 1, Fn_Invalid),
     (OP_PUBKEYHASH, ''OP_PUBKEYHASH'', 1, Fn_Invalid),
     (OP_PUBKEY, ''OP_PUBKEY'', 1, Fn_Invalid),
     (OP_INVALIDOPCODE, ''OP_INVALIDOPCODE'', 1, Fn_Invalid)]"

definition opcodeTable :: "(byte \<times> string \<times> int \<times> opfunc) list" where
  "opcodeTable =
    push_opcodes @ control_opcodes @ stack_opcodes @ splice_opcodes @ numeric_opcodes @ crypto_opcodes @ reserved_opcodes"

definition opcodeArray :: "byte \<Rightarrow> opcode" where
  "opcodeArray v =
    (if OP_DATA_1 \<le> v \<and> v \<le> OP_DATA_75
     then \<lparr> op_value = v, op_name = ''OP_DATA_'' @ nat_text (unat v), op_length = 1 + uint v, op_func = Fn_PushData \<rparr>
     else case map_of opcodeTable v of
         Some (n, l, f) \<Rightarrow> \<lparr> op_value = v, op_name = n, op_length = l, op_func = f \<rparr>
       | None \<Rightarrow> \<lparr> op_value = v, op_name = ''OP_UNKNOWN'' @ nat_text (unat v), op_length = 1, op_func = Fn_Invalid \<rparr>)"

section \<open>Parsed instructions\<close>

record parsedOpcode =
  pop_opcode :: opcode
  pop_data :: "byte list"

abbreviation pop_value :: "parsedOpcode \<Rightarrow> byte" where
  "pop_value pop \<equiv> op_value (pop_opcode pop)"

definition isDisabled :: "parsedOpcode \<Rightarrow> bool" where
  "isDisabled pop \<longleftrightarrow> pop_value pop \<in> set
    [OP_CAT, OP_SUBSTR, OP_LEFT, OP_RIGHT, OP_INVERT, OP_AND, OP_OR, OP_XOR, OP_2MUL, OP_2DIV, OP_MUL, OP_DIV,
     OP_MOD, OP_LSHIFT, OP_RSHIFT]"

definition alwaysIllegal :: "parsedOpcode \<Rightarrow> bool" where
  "alwaysIllegal pop \<longleftrightarrow> pop_value pop \<in> set [OP_VERIF, OP_VERNOTIF]"

definition isConditional :: "parsedOpcode \<Rightarrow> bool" where
  "isConditional pop \<longleftrightarrow> pop_value pop \<in> set [OP_IF, OP_NOTIF, OP_ELSE, OP_ENDIF]"

definition checkMinimalDataPush :: "parsedOpcode \<Rightarrow> unit script_res" where
  "checkMinimalDataPush pop =
    (let data = pop_data pop; dataLen = length data; opcode = pop_value pop in
     if dataLen = 0 \<and> opcode \<noteq> OP_0 then Err ErrStackMinimalData
     else if dataLen = 1 \<and> data ! 0 \<ge> 1 \<and> data ! 0 \<le> 16 then
       guardR (opcode = OP_1 + data ! 0 - 1) ErrStackMinimalData
     else if dataLen = 1 \<and> data ! 0 = 0x81 then guardR (opcode = OP_1NEGATE) ErrStackMinimalData
     else if dataLen \<le> 75 then guardR (unat opcode = dataLen) ErrStackMinimalData
     else if dataLen \<le> 255 then guardR (opcode = OP_PUSHDATA1) ErrStackMinimalData
     else if dataLen \<le> 65535 then guardR (opcode = OP_PUSHDATA2) ErrStackMinimalData
     else Ok ())"

text \<open>\<^verbatim>\<open>bytes\<close>: the lengths after \<^verbatim>\<open>OP_PUSHDATA\<close> are the low bytes of the length of the data, and the final
  check compares the bytes written with what they announce.\<close>

definition pop_bytes :: "parsedOpcode \<Rightarrow> byte list script_res" where
  "pop_bytes pop =
    (let len = op_length (pop_opcode pop); data = pop_data pop; retbytes = [pop_value pop] in
     if len = 1 then (if length data \<noteq> 0 then Err ErrStackInvalidOpcode else Ok retbytes)
     else
       let l = length data;
           (retbytes, nbytes) =
             (if len < 0 then
                (if len = - 1 then (let r = retbytes @ put_le 1 l in (r, int (le_val (tl r) + length r)))
                 else if len = - 2 then (let r = retbytes @ put_le 2 l in (r, int (le_val (tl r) + length r)))
                 else if len = - 4 then (let r = retbytes @ put_le 4 l in (r, int (le_val (tl r) + length r)))
                 else (retbytes, len))
              else (retbytes, len));
           retbytes = retbytes @ data
       in if int (length retbytes) \<noteq> nbytes then Err ErrStackInvalidOpcode else Ok retbytes)"

section \<open>Properties of the table\<close>

lemmas opcode_tables =
  opcodeTable_def push_opcodes_def control_opcodes_def stack_opcodes_def splice_opcodes_def
  numeric_opcodes_def crypto_opcodes_def reserved_opcodes_def

lemma op_value_opcodeArray [simp]: "op_value (opcodeArray v) = v"
  by (simp add: opcodeArray_def split: option.splits)

lemma opcodeTable_lengths:
  "list_all (\<lambda>(v, n, l, f). l = (if v = OP_PUSHDATA1 then - 1 else if v = OP_PUSHDATA2 then - 2
    else if v = OP_PUSHDATA4 then - 4 else 1)) opcodeTable"
  by (simp add: opcode_tables)

lemma map_of_pushdata:
  "map_of opcodeTable OP_PUSHDATA1 = Some (''OP_PUSHDATA1'', - 1, Fn_PushData)"
  "map_of opcodeTable OP_PUSHDATA2 = Some (''OP_PUSHDATA2'', - 2, Fn_PushData)"
  "map_of opcodeTable OP_PUSHDATA4 = Some (''OP_PUSHDATA4'', - 4, Fn_PushData)"
  by (simp_all add: opcode_tables)

lemma op_length_opcodeArray:
  "op_length (opcodeArray v) =
    (if 1 \<le> v \<and> v \<le> 75 then 1 + uint v
     else if v = OP_PUSHDATA1 then - 1 else if v = OP_PUSHDATA2 then - 2
     else if v = OP_PUSHDATA4 then - 4 else 1)"
proof (cases "1 \<le> v \<and> v \<le> 75")
  case True
  then show ?thesis by (simp add: opcodeArray_def)
next
  case False
  show ?thesis
  proof (cases "map_of opcodeTable v")
    case None
    then have "v \<noteq> OP_PUSHDATA1" "v \<noteq> OP_PUSHDATA2" "v \<noteq> OP_PUSHDATA4" using map_of_pushdata by auto
    with None False show ?thesis unfolding opcodeArray_def by auto
  next
    case (Some e)
    obtain n l f where e: "e = (n, l, f)" by (cases e)
    have "(v, n, l, f) \<in> set opcodeTable" using Some e map_of_SomeD by fastforce
    with opcodeTable_lengths have
      "l = (if v = OP_PUSHDATA1 then - 1 else if v = OP_PUSHDATA2 then - 2 else if v = OP_PUSHDATA4 then - 4 else 1)"
      by (auto simp: list_all_iff)
    with Some e False show ?thesis unfolding opcodeArray_def by auto
  qed
qed

lemma opcode_length_cases:
  obtains (single) "op_length (opcodeArray v) = 1"
    | (data) n where "1 \<le> v" "v \<le> 75" "unat v = n" "0 < n" "op_length (opcodeArray v) = 1 + int n"
    | (pushdata) k where "op_length (opcodeArray v) = - int k" "k = 1 \<or> k = 2 \<or> k = 4"
proof -
  consider "1 \<le> v \<and> v \<le> 75" | "v = 76" | "v = 77" | "v = 78" | "op_length (opcodeArray v) = 1"
    using op_length_opcodeArray [of v] by (auto split: if_splits)
  then show ?thesis
  proof cases
    case 1
    then show ?thesis using data [of "unat v"] by (simp add: op_length_opcodeArray word_le_nat_alt)
  next
    case 2
    then show ?thesis using pushdata [of 1] by (simp add: op_length_opcodeArray)
  next
    case 3
    then show ?thesis using pushdata [of 2] by (simp add: op_length_opcodeArray)
  next
    case 4
    then show ?thesis using pushdata [of 4] by (simp add: op_length_opcodeArray)
  qed (rule single)
qed

end
