(* ===== verification/Script.thy ===== *)
theory Script
  imports Opcode
begin

text \<open>
  \<^verbatim>\<open>txscript/script.go\<close> without the signature hashes, and the limits of \<^verbatim>\<open>txscript/common.go\<close>: scripts as
  bytes are parsed into instructions and back, and the forms of output scripts are recognized on the parsed
  instructions. A parse returns the instructions up to the first error together with the error. The theory
  shows that parsing and unparsing are inverse, which byte sequences the three output forms are, and what
  the counting of signature operations sees of them.
\<close>

section \<open>Limits\<close>

definition LockTimeThreshold :: u64 where "LockTimeThreshold = 500000000"
definition ScriptDiscourageUpgradableNops :: u32 where "ScriptDiscourageUpgradableNops = 1"
definition ScriptMASSip2 :: u32 where "ScriptMASSip2 = 2"
definition SigHashAll :: u32 where "SigHashAll = 0x1"
definition SigHashNone :: u32 where "SigHashNone = 0x2"
definition SigHashSingle :: u32 where "SigHashSingle = 0x3"
definition SigHashAnyOneCanPay :: u32 where "SigHashAnyOneCanPay = 0x80"
definition sigHashMask :: u32 where "sigHashMask = 0x1f"
definition maxStackSize :: int where "maxStackSize = 1000"
definition maxScriptSize :: nat where "maxScriptSize = 10000"
definition MaxOpsPerScript :: int where "MaxOpsPerScript = 201"
definition MaxPubKeysPerMultiSig :: int where "MaxPubKeysPerMultiSig = 20"
definition MaxScriptElementSize :: nat where "MaxScriptElementSize = 520"
definition MaxDataCarrierSize :: nat where "MaxDataCarrierSize = 80"
definition WitnessV0ScriptHashDataSize :: nat where "WitnessV0ScriptHashDataSize = 32"
definition WitnessV0FrozenPeriodDataSize :: nat where "WitnessV0FrozenPeriodDataSize = 8"

section \<open>Parsing\<close>

definition add_pop :: "parsedOpcode \<Rightarrow> parsedOpcode list \<times> script_error option \<Rightarrow> parsedOpcode list \<times> script_error option" where
  "add_pop pop r = (pop # fst r, snd r)"

text \<open>The loop of \<^verbatim>\<open>parseScriptTemplate\<close> on the bytes that are left. The table has no entry of length 0, for
  which the loop would not advance.\<close>

function parseScriptTemplate :: "byte list \<Rightarrow> (byte \<Rightarrow> opcode) \<Rightarrow> parsedOpcode list \<times> script_error option" where
  "parseScriptTemplate [] opcodes = ([], None)"
| "parseScriptTemplate (instr # rest) opcodes =
    (let op = opcodes instr; len = op_length op in
     if len = 1 then add_pop \<lparr> pop_opcode = op, pop_data = [] \<rparr> (parseScriptTemplate rest opcodes)
     else if len > 1 then
       (if int (length (instr # rest)) < len then ([], Some ErrStackShortScript)
        else add_pop \<lparr> pop_opcode = op, pop_data = take (nat len - 1) rest \<rparr>
          (parseScriptTemplate (drop (nat len - 1) rest) opcodes))
     else
       (let k = nat (- len) in
        if length rest < k then ([], Some ErrStackShortScript)
        else if len \<noteq> - 1 \<and> len \<noteq> - 2 \<and> len \<noteq> - 4 then ([], Some (ErrText ''invalid opcode length''))
        else
          let l = le_val (take k rest); body = drop k rest in
          if l > length body then ([], Some ErrStackShortScript)
          else add_pop \<lparr> pop_opcode = op, pop_data = take l body \<rparr> (parseScriptTemplate (drop l body) opcodes)))"
  by pat_completeness auto
termination
  by (relation "measure (\<lambda>(s, _). length s)") auto

definition parseScript :: "byte list \<Rightarrow> parsedOpcode list \<times> script_error option" where
  "parseScript script = parseScriptTemplate script opcodeArray"

text \<open>A caller that stops at a parse error.\<close>

definition parsed :: "byte list \<Rightarrow> parsedOpcode list script_res" where
  "parsed script = (case parseScript script of (pops, None) \<Rightarrow> Ok pops | (pops, Some e) \<Rightarrow> Err e)"

definition unparseScript :: "parsedOpcode list \<Rightarrow> byte list script_res" where
  "unparseScript pops = foldR (\<lambda>pop script. bindR (pop_bytes pop) (\<lambda>b. Ok (script @ b))) pops []"

section \<open>Forms of scripts\<close>

definition isSmallInt :: "opcode \<Rightarrow> bool" where
  "isSmallInt op \<longleftrightarrow> op_value op = OP_0 \<or> (op_value op \<ge> OP_1 \<and> op_value op \<le> OP_16)"

definition asSmallInt :: "opcode \<Rightarrow> int" where
  "asSmallInt op = (if op_value op = OP_0 then 0 else uint (op_value op - (OP_1 - 1)))"

definition isWitnessScriptHash :: "parsedOpcode list \<Rightarrow> bool" where
  "isWitnessScriptHash pops \<longleftrightarrow>
    length pops = 2 \<and> pop_value (pops ! 0) = OP_0 \<and> pop_value (pops ! 1) = OP_DATA_32"

definition isWitnessStakingScript :: "parsedOpcode list \<Rightarrow> bool" where
  "isWitnessStakingScript pops \<longleftrightarrow>
    length pops = 3 \<and> pop_value (pops ! 0) = OP_0 \<and> pop_value (pops ! 1) = OP_DATA_32 \<and> pop_value (pops ! 2) = OP_DATA_8"

definition isWitnessBindingScript :: "parsedOpcode list \<Rightarrow> bool" where
  "isWitnessBindingScript pops \<longleftrightarrow>
    length pops = 3 \<and> pop_value (pops ! 0) = OP_0 \<and> pop_value (pops ! 1) = OP_DATA_32 \<and>
    (pop_value (pops ! 2) = OP_DATA_20 \<or> pop_value (pops ! 2) = OP_DATA_22)"

definition if_parsed :: "(parsedOpcode list \<Rightarrow> bool) \<Rightarrow> byte list \<Rightarrow> bool" where
  "if_parsed P script = (case parsed script of Ok pops \<Rightarrow> P pops | _ \<Rightarrow> False)"

definition IsPayToWitnessScriptHash :: "byte list \<Rightarrow> bool" where
  "IsPayToWitnessScriptHash script = if_parsed isWitnessScriptHash script"

definition IsPayToStakingScriptHash :: "byte list \<Rightarrow> bool" where
  "IsPayToStakingScriptHash script = if_parsed isWitnessStakingScript script"

definition IsPayToBindingScriptHash :: "byte list \<Rightarrow> bool" where
  "IsPayToBindingScriptHash script = if_parsed isWitnessBindingScript script"

definition canonicalPush :: "parsedOpcode \<Rightarrow> bool" where
  "canonicalPush pop =
    (let opcode = pop_value pop; data = pop_data pop; dataLen = length data in
     if opcode > OP_16 then True
     else if opcode < OP_PUSHDATA1 \<and> opcode > OP_0 \<and> dataLen = 1 \<and> data ! 0 \<le> 16 then False
     else if opcode = OP_PUSHDATA1 \<and> dataLen < unat OP_PUSHDATA1 then False
     else if opcode = OP_PUSHDATA2 \<and> dataLen \<le> 0xff then False
     else if opcode = OP_PUSHDATA4 \<and> dataLen \<le> 0xffff then False
     else True)"

definition isWitnessProgram :: "parsedOpcode list \<Rightarrow> bool" where
  "isWitnessProgram pops \<longleftrightarrow>
    length pops = 2 \<and> isSmallInt (pop_opcode (pops ! 0)) \<and> canonicalPush (pops ! 1) \<and>
    length (pop_data (pops ! 1)) \<ge> 2 \<and> length (pop_data (pops ! 1)) \<le> 40"

definition IsWitnessProgram :: "byte list \<Rightarrow> bool" where
  "IsWitnessProgram script =
    (if length script < 4 \<or> length script > 42 then False else if_parsed isWitnessProgram script)"

definition isMASSWitnessProgram :: "parsedOpcode list \<Rightarrow> bool" where
  "isMASSWitnessProgram pops \<longleftrightarrow>
    length pops = 3 \<and> isSmallInt (pop_opcode (pops ! 0)) \<and>
    canonicalPush (pops ! 1) \<and> length (pop_data (pops ! 1)) \<ge> 2 \<and> length (pop_data (pops ! 1)) \<le> 40 \<and>
    canonicalPush (pops ! 2) \<and>
    (length (pop_data (pops ! 2)) = 8 \<or> length (pop_data (pops ! 2)) = 20 \<or> length (pop_data (pops ! 2)) = 22)"

definition IsMASSWitnessProgram :: "byte list \<Rightarrow> bool" where
  "IsMASSWitnessProgram script = if_parsed isMASSWitnessProgram script"

definition extractWitnessProgramInfo :: "parsedOpcode list \<Rightarrow> (int \<times> byte list \<times> parsedOpcode list) script_res" where
  "extractWitnessProgramInfo pops =
    (if \<not> isWitnessProgram pops \<and> \<not> isMASSWitnessProgram pops then Err ErrwitnessProgramFormat
     else Ok (asSmallInt (pop_opcode (pops ! 0)), pop_data (pops ! 1), drop 2 pops))"

definition ExtractWitnessProgramInfo :: "byte list \<Rightarrow> (int \<times> byte list \<times> parsedOpcode list) script_res" where
  "ExtractWitnessProgramInfo script = bindR (parsed script) extractWitnessProgramInfo"

definition isPushOnly :: "parsedOpcode list \<Rightarrow> bool" where
  "isPushOnly pops \<longleftrightarrow> list_all (\<lambda>pop. \<not> pop_value pop > OP_16) pops"

definition IsPushOnlyScript :: "byte list \<Rightarrow> bool" where
  "IsPushOnlyScript script = if_parsed isPushOnly script"

text \<open>\<^verbatim>\<open>bytes.Contains\<close>.\<close>

definition contains :: "byte list \<Rightarrow> byte list \<Rightarrow> bool" where
  "contains b sub \<longleftrightarrow> list_ex (\<lambda>i. take (length sub) (drop i b) = sub) [0..<Suc (length b)]"

definition removeOpcodeByData :: "parsedOpcode list \<Rightarrow> byte list \<Rightarrow> parsedOpcode list" where
  "removeOpcodeByData pkscript data = filter (\<lambda>pop. \<not> canonicalPush pop \<or> \<not> contains (pop_data pop) data) pkscript"

definition IsUnspendable :: "byte list \<Rightarrow> bool" where
  "IsUnspendable pkScript =
    (case parsed pkScript of Ok pops \<Rightarrow> length pops > 0 \<and> pop_value (pops ! 0) = OP_RETURN | _ \<Rightarrow> True)"

section \<open>Counting signature operations\<close>

text \<open>The loop of \<^verbatim>\<open>getSigOpCount\<close>; \<open>prev\<close> is the instruction before the current one.\<close>

fun sigop_loop :: "bool \<Rightarrow> parsedOpcode option \<Rightarrow> parsedOpcode list \<Rightarrow> int \<Rightarrow> int" where
  "sigop_loop precise prev [] nSigs = nSigs"
| "sigop_loop precise prev (pop # pops) nSigs =
    sigop_loop precise (Some pop) pops
      (if pop_value pop = OP_CHECKSIG \<or> pop_value pop = OP_CHECKSIGVERIFY then nSigs + 1
       else if pop_value pop = OP_CHECKMULTISIG \<or> pop_value pop = OP_CHECKMULTISIGVERIFY then
         nSigs + (case prev of
             Some p \<Rightarrow>
               (if precise \<and> pop_value p \<ge> OP_1 \<and> pop_value p \<le> OP_16 then asSmallInt (pop_opcode p)
                else MaxPubKeysPerMultiSig)
           | None \<Rightarrow> MaxPubKeysPerMultiSig)
       else nSigs)"

definition getSigOpCount :: "parsedOpcode list \<Rightarrow> bool \<Rightarrow> int" where
  "getSigOpCount pops precise = sigop_loop precise None pops 0"

definition GetSigOpCount :: "byte list \<Rightarrow> int" where
  "GetSigOpCount script = getSigOpCount (fst (parseScript script)) True"

definition getWitnessSigOps :: "byte list \<Rightarrow> byte list list \<Rightarrow> int" where
  "getWitnessSigOps pkScript witness =
    (case ExtractWitnessProgramInfo pkScript of
       Ok (witnessVersion, witnessProgram, _) \<Rightarrow>
         (if witnessVersion = 0 \<and> length witnessProgram = WitnessV0ScriptHashDataSize \<and> length witness > 0
          then getSigOpCount (fst (parseScript (witness ! (length witness - 1)))) True
          else 0)
     | _ \<Rightarrow> 0)"

definition GetWitnessSigOpCount :: "byte list \<Rightarrow> byte list list \<Rightarrow> int" where
  "GetWitnessSigOpCount pkScript witness =
    (if IsWitnessProgram pkScript then getWitnessSigOps pkScript witness else 0)"

section \<open>Parsing and unparsing are inverse\<close>

definition wf_pop :: "parsedOpcode \<Rightarrow> bool" where
  "wf_pop pop \<longleftrightarrow> pop_opcode pop = opcodeArray (pop_value pop)"

lemma add_pop_simps [simp]: "add_pop pop (pops, e) = (pop # pops, e)"
  by (simp add: add_pop_def)

lemma parseScript_Nil [simp]: "parseScript [] = ([], None)"
  by (simp add: parseScript_def)

lemma parse_single:
  "op_length (opcodeArray v) = 1 \<Longrightarrow>
    parseScript (v # rest) = add_pop \<lparr> pop_opcode = opcodeArray v, pop_data = [] \<rparr> (parseScript rest)"
  by (simp add: parseScript_def)

lemma parse_data:
  assumes "1 \<le> n" "n \<le> 75" "length d = unat n"
  shows "parseScript (n # d @ rest) = add_pop \<lparr> pop_opcode = opcodeArray n, pop_data = d \<rparr> (parseScript rest)"
proof -
  have l: "op_length (opcodeArray n) = 1 + int (length d)"
    using assms by (simp add: op_length_opcodeArray)
  have "0 < length d" using assms by (simp add: word_le_nat_alt)
  then show ?thesis by (simp add: parseScript_def l nat_add_distrib)
qed

lemma parse_pushdata:
  assumes "op_length (opcodeArray v) = - int k" "k = 1 \<or> k = 2 \<or> k = 4" "length d < 256 ^ k"
  shows "parseScript (v # put_le k (length d) @ d @ rest) =
    add_pop \<lparr> pop_opcode = opcodeArray v, pop_data = d \<rparr> (parseScript rest)"
  using assms by (auto simp: parseScript_def le_val_put_le)

lemma pop_bytes_cases:
  assumes "wf_pop pop" "pop_bytes pop = Ok b"
  obtains (single) "op_length (pop_opcode pop) = 1" "pop_data pop = []" "b = [pop_value pop]"
    | (data) "1 \<le> pop_value pop" "pop_value pop \<le> 75" "length (pop_data pop) = unat (pop_value pop)"
        "b = pop_value pop # pop_data pop"
    | (pushdata) k where "op_length (pop_opcode pop) = - int k" "k = 1 \<or> k = 2 \<or> k = 4"
        "length (pop_data pop) < 256 ^ k" "b = pop_value pop # put_le k (length (pop_data pop)) @ pop_data pop"
proof -
  let ?v = "pop_value pop"
  have o: "pop_opcode pop = opcodeArray ?v" using assms(1) by (simp add: wf_pop_def)
  show ?thesis
  proof (cases rule: opcode_length_cases [of ?v, case_names 1 2 3])
    case 1
    then show ?thesis using assms(2) single o by (simp add: pop_bytes_def split: if_splits)
  next
    case (2 n)
    then have "length (pop_data pop) = n \<and> b = ?v # pop_data pop"
      using assms(2) o by (simp add: pop_bytes_def Let_def split: if_splits)
    then show ?thesis using 2 data by simp
  next
    case (3 k)
    then have "length (pop_data pop) mod 256 ^ k = length (pop_data pop)"
         "b = ?v # put_le k (length (pop_data pop)) @ pop_data pop"
      using assms(2) o by (auto simp: pop_bytes_def Let_def le_val_put_le simp del: put_le.simps split: if_splits)
    moreover have "length (pop_data pop) mod 256 ^ k < 256 ^ k" by simp
    ultimately show ?thesis using pushdata [of k] 3 o by simp
  qed
qed

lemma parse_pop_bytes:
  assumes "wf_pop pop" "pop_bytes pop = Ok b"
  shows "parseScript (b @ rest) = add_pop pop (parseScript rest)"
proof -
  have o: "pop_opcode pop = opcodeArray (pop_value pop)" using assms(1) by (simp add: wf_pop_def)
  have e: "\<lparr> pop_opcode = opcodeArray (pop_value pop), pop_data = pop_data pop \<rparr> = pop" using o by simp
  show ?thesis
    using assms
  proof (cases rule: pop_bytes_cases)
    case single
    have "parseScript (pop_value pop # rest) = add_pop \<lparr> pop_opcode = opcodeArray (pop_value pop), pop_data = [] \<rparr> (parseScript rest)"
      by (rule parse_single) (use single o in simp)
    then show ?thesis using single(3) e [unfolded single(2)] by (simp only: append_Cons append_Nil)
  next
    case data
    then show ?thesis using parse_data [of "pop_value pop" "pop_data pop" rest] e by simp
  next
    case (pushdata k)
    have "op_length (opcodeArray (pop_value pop)) = - int k" using pushdata(1) o by simp
    then have "parseScript (pop_value pop # put_le k (length (pop_data pop)) @ pop_data pop @ rest) = add_pop pop (parseScript rest)"
      using parse_pushdata [of "pop_value pop" k "pop_data pop" rest] pushdata(2,3) e by (simp only:)
    then show ?thesis using pushdata(4) by simp
  qed
qed

lemma unparse_acc:
  "foldR (\<lambda>pop script. bindR (pop_bytes pop) (\<lambda>b. Ok (script @ b))) pops acc =
    bindR (unparseScript pops) (\<lambda>s. Ok (acc @ s))"
proof (induction pops arbitrary: acc)
  case (Cons pop pops)
  show ?case
    by (cases "pop_bytes pop") (simp_all add: unparseScript_def [of "pop # pops"] Cons.IH bindR_assoc)
qed (simp add: unparseScript_def)

lemma unparse_Nil [simp]: "unparseScript [] = Ok []"
  by (simp add: unparseScript_def)

lemma unparse_Cons [simp]:
  "unparseScript (pop # pops) = bindR (pop_bytes pop) (\<lambda>b. bindR (unparseScript pops) (\<lambda>s. Ok (b @ s)))"
proof -
  have "unparseScript (pop # pops) = bindR (bindR (pop_bytes pop) (\<lambda>b. Ok ([] @ b)))
    (foldR (\<lambda>pop script. bindR (pop_bytes pop) (\<lambda>b. Ok (script @ b))) pops)"
    by (simp add: unparseScript_def)
  also have "\<dots> = bindR (pop_bytes pop) (\<lambda>b. bindR (unparseScript pops) (\<lambda>s. Ok (b @ s)))"
    by (cases "pop_bytes pop") (simp_all add: unparse_acc)
  finally show ?thesis .
qed

lemma parse_unparse:
  "list_all wf_pop pops \<Longrightarrow> unparseScript pops = Ok s \<Longrightarrow> parseScript s = (pops, None)"
proof (induction pops arbitrary: s)
  case (Cons pop pops)
  then obtain b t where "pop_bytes pop = Ok b" "unparseScript pops = Ok t" "s = b @ t"
    by (auto simp: res_simps)
  with Cons parse_pop_bytes [of pop b t] show ?case by simp
qed simp

lemma wf_pop_pair [simp]: "wf_pop \<lparr> pop_opcode = opcodeArray v, pop_data = d \<rparr>"
  by (simp add: wf_pop_def)

lemma unparse_parse:
  "parseScript s = (pops, None) \<Longrightarrow> list_all wf_pop pops \<and> unparseScript pops = Ok s"
proof (induction s arbitrary: pops rule: length_induct)
  case (1 s)
  show ?case
  proof (cases s)
    case Nil
    with 1 show ?thesis by simp
  next
    case (Cons v rest)
    let ?len = "op_length (opcodeArray v)"
    have split: "list_all wf_pop pops \<and> unparseScript pops = Ok s"
      if e: "parseScript s = add_pop \<lparr> pop_opcode = opcodeArray v, pop_data = d \<rparr> (parseScript t)"
        and b: "pop_bytes \<lparr> pop_opcode = opcodeArray v, pop_data = d \<rparr> = Ok b" and s: "s = b @ t" "b \<noteq> []"
      for d t b
    proof -
      obtain ps where ps: "parseScript t = (ps, None)" "pops = \<lparr> pop_opcode = opcodeArray v, pop_data = d \<rparr> # ps"
        using 1(2) e by (cases "parseScript t") simp
      have "length t < length s" using s by simp
      then have "list_all wf_pop ps \<and> unparseScript ps = Ok t" using 1(1) ps(1) by blast
      then show ?thesis using ps(2) b s(1) by simp
    qed
    show ?thesis
    proof (cases rule: opcode_length_cases [of v])
      case single
      then show ?thesis
        by (intro split [of "[]" rest "[v]"]) (simp_all add: Cons parse_single pop_bytes_def)
    next
      case (data n)
      then have "n \<le> length rest" using 1(2) by (auto simp: Cons parseScript_def Let_def split: if_splits)
      then show ?thesis
        using data parse_data [of v "take n rest" "drop n rest"]
        by (intro split [of "take n rest" "drop n rest" "v # take n rest"]) (simp_all add: Cons pop_bytes_def Let_def)
    next
      case (pushdata k)
      define l where "l = le_val (take k rest)"
      have k: "k \<le> length rest" "l \<le> length (drop k rest)"
        using 1(2) pushdata by (auto simp: Cons parseScript_def l_def Let_def split: if_splits)
      have "take k rest = put_le k l" using put_le_le_val [of "take k rest"] k(1) by (simp add: l_def)
      moreover have "l < 256 ^ k" using le_val_less [of "take k rest"] k(1) by (simp add: l_def)
      moreover have "rest = take k rest @ take l (drop k rest) @ drop l (drop k rest)"
        by (simp only: append_take_drop_id)
      ultimately show ?thesis
        using pushdata k parse_pushdata [of v k "take l (drop k rest)" "drop l (drop k rest)"]
        by (intro split [of "take l (drop k rest)" "drop l (drop k rest)" "v # put_le k l @ take l (drop k rest)"])
          (auto simp: Cons pop_bytes_def le_val_put_le simp del: put_le.simps)
    qed
  qed
qed

text \<open>C31 (parsing). A script parses without error into a list of instructions exactly when these are
  instructions of the table that unparse to the script: parsing and unparsing are inverse to each other, and
  no two scripts parse to the same instructions.\<close>

theorem parse_iff_unparse:
  "parseScript s = (pops, None) \<longleftrightarrow> list_all wf_pop pops \<and> unparseScript pops = Ok s"
  using parse_unparse unparse_parse by blast

section \<open>The three output forms\<close>

lemma parsed_Ok_iff: "parsed s = Ok pops \<longleftrightarrow> list_all wf_pop pops \<and> unparseScript pops = Ok s"
proof -
  have "parsed s = Ok pops \<longleftrightarrow> parseScript s = (pops, None)"
    by (auto simp: parsed_def split: prod.splits option.splits)
  then show ?thesis using parse_unparse unparse_parse by blast
qed

lemma op_length_0 [simp]: "op_length (opcodeArray 0) = 1"
  by (simp add: op_length_opcodeArray)

abbreviation op_pop :: "byte \<Rightarrow> parsedOpcode" where
  "op_pop v \<equiv> \<lparr> pop_opcode = opcodeArray v, pop_data = [] \<rparr>"

abbreviation data_pop :: "byte list \<Rightarrow> parsedOpcode" where
  "data_pop d \<equiv> \<lparr> pop_opcode = opcodeArray (word_of_nat (length d)), pop_data = d \<rparr>"

lemma pop_eqI: "wf_pop pop \<Longrightarrow> pop_value pop = v \<Longrightarrow> pop_data pop = d \<Longrightarrow> pop = \<lparr> pop_opcode = opcodeArray v, pop_data = d \<rparr>"
  by (cases pop) (simp add: wf_pop_def)

lemma pop_bytes_op: "op_length (opcodeArray v) = 1 \<Longrightarrow> pop_bytes (op_pop v) = Ok [v]"
  by (simp add: pop_bytes_def)

lemma op_length_data:
  assumes "0 < n" "n \<le> 75"
  shows "op_length (opcodeArray (word_of_nat n)) = 1 + int n"
proof -
  have "unat (word_of_nat n :: byte) = n" using assms by (simp add: unat_of_nat)
  moreover from this have "uint (word_of_nat n :: byte) = int n" by (metis uint_nat)
  ultimately show ?thesis using assms by (simp add: op_length_opcodeArray word_le_nat_alt)
qed

lemma pop_bytes_data:
  assumes "length d = n" "0 < n" "n \<le> 75"
  shows "pop_bytes \<lparr> pop_opcode = opcodeArray (word_of_nat n), pop_data = d \<rparr> = Ok (word_of_nat n # d)"
  using assms op_length_data [of n] by (simp add: pop_bytes_def Let_def)

lemma pop_op0_cases:
  assumes "wf_pop pop" "pop_value pop = 0" "pop_bytes pop = Ok b"
  shows "pop = op_pop 0 \<and> b = [0]"
  using assms(1,3)
proof (cases rule: pop_bytes_cases)
  case single
  then show ?thesis using assms pop_eqI by simp
next
  case data
  then show ?thesis using assms(2) by simp
next
  case (pushdata k)
  moreover have "op_length (pop_opcode pop) = 1" using assms(1,2) by (simp add: wf_pop_def)
  ultimately show ?thesis by auto
qed

lemma pop_data_cases:
  assumes "wf_pop pop" "unat (pop_value pop) = n" "0 < n" "n \<le> 75" "pop_bytes pop = Ok b"
  shows "length (pop_data pop) = n \<and> pop = data_pop (pop_data pop) \<and> b = word_of_nat n # pop_data pop"
proof -
  have v: "pop_value pop = word_of_nat n" using assms(2) by auto
  have o: "op_length (pop_opcode pop) = 1 + int n"
    using assms(1) op_length_data [OF assms(3,4)] v by (simp add: wf_pop_def)
  show ?thesis
    using assms(1,5)
  proof (cases rule: pop_bytes_cases)
    case single
    then show ?thesis using o assms(3) by simp
  next
    case data
    then have "length (pop_data pop) = n" using assms(2) by simp
    then show ?thesis using data(4) v pop_eqI [OF assms(1) v] by simp
  next
    case (pushdata k)
    then show ?thesis using o by auto
  qed
qed

lemma unat_data_ops: "unat OP_DATA_32 = 32" "unat OP_DATA_8 = 8" "unat OP_DATA_20 = 20" "unat OP_DATA_22 = 22"
  by simp_all

lemma pops_two: "length pops = 2 \<longleftrightarrow> (\<exists>a b. pops = [a, b])"
  by (auto simp: numeral_2_eq_2 length_Suc_conv)

lemma pops_three: "length pops = 3 \<longleftrightarrow> (\<exists>a b c. pops = [a, b, c])"
  by (auto simp: numeral_3_eq_3 length_Suc_conv)

lemma parsed_p2wsh: "length h = 32 \<Longrightarrow> parsed (OP_0 # OP_DATA_32 # h) = Ok [op_pop OP_0, data_pop h]"
  using pop_bytes_data [of h 32] by (simp add: parsed_Ok_iff pop_bytes_op)

lemma parsed_extended:
  assumes "length h = 32" "length t = n" "0 < n" "n \<le> 75"
  shows "parsed (OP_0 # OP_DATA_32 # h @ word_of_nat n # t) = Ok [op_pop OP_0, data_pop h, data_pop t]"
  using assms pop_bytes_data [of h 32] pop_bytes_data [of t n] by (simp add: parsed_Ok_iff pop_bytes_op)

lemma parsed_two_forms:
  assumes "parsed s = Ok [p, q]" "pop_value p = OP_0" "pop_value q = OP_DATA_32"
  shows "\<exists>h. length h = 32 \<and> s = OP_0 # OP_DATA_32 # h"
proof -
  obtain b c where "pop_bytes p = Ok b" "pop_bytes q = Ok c" "s = b @ c" "wf_pop p" "wf_pop q"
    using assms(1) by (auto simp: parsed_Ok_iff res_simps)
  then show ?thesis using assms(2,3) pop_op0_cases [of p b] pop_data_cases [of q 32 c] by auto
qed

lemma parsed_three_forms:
  assumes "parsed s = Ok [p, q, r]" "pop_value p = OP_0" "pop_value q = OP_DATA_32"
    "unat (pop_value r) = n" "0 < n" "n \<le> 75"
  shows "\<exists>h t. length h = 32 \<and> length t = n \<and> s = OP_0 # OP_DATA_32 # h @ word_of_nat n # t"
proof -
  obtain b c d where "pop_bytes p = Ok b" "pop_bytes q = Ok c" "pop_bytes r = Ok d" "s = b @ c @ d"
    "wf_pop p" "wf_pop q" "wf_pop r"
    using assms(1) by (auto simp: parsed_Ok_iff res_simps)
  then show ?thesis
    using assms(2-) pop_op0_cases [of p b] pop_data_cases [of q 32 c] pop_data_cases [of r n d] by auto
qed

text \<open>C32 (output forms). The three kinds of output scripts are exactly the byte sequences \<^verbatim>\<open>0 32 hash\<close>,
  \<^verbatim>\<open>0 32 hash 8 period\<close>, and \<^verbatim>\<open>0 32 hash 20 target\<close> or \<^verbatim>\<open>0 32 hash 22 target\<close>.\<close>

theorem output_forms:
  "(IsPayToWitnessScriptHash s \<longleftrightarrow> (\<exists>h. length h = 32 \<and> s = 0 # 32 # h)) \<and>
   (IsPayToStakingScriptHash s \<longleftrightarrow> (\<exists>h t. length h = 32 \<and> length t = 8 \<and> s = 0 # 32 # h @ 8 # t)) \<and>
   (IsPayToBindingScriptHash s \<longleftrightarrow>
     (\<exists>h t. length h = 32 \<and> (length t = 20 \<and> s = 0 # 32 # h @ 20 # t \<or> length t = 22 \<and> s = 0 # 32 # h @ 22 # t)))"
proof (intro conjI iffI)
  assume "IsPayToWitnessScriptHash s"
  then show "\<exists>h. length h = 32 \<and> s = 0 # 32 # h"
    by (auto simp: IsPayToWitnessScriptHash_def if_parsed_def isWitnessScriptHash_def pops_two
        intro: parsed_two_forms split: res.splits)
next
  assume "IsPayToStakingScriptHash s"
  then obtain p q r where "parsed s = Ok [p, q, r]" "pop_value p = OP_0" "pop_value q = OP_DATA_32"
    "unat (pop_value r) = 8"
    by (auto simp: IsPayToStakingScriptHash_def if_parsed_def isWitnessStakingScript_def pops_three split: res.splits)
  from parsed_three_forms [OF this] show "\<exists>h t. length h = 32 \<and> length t = 8 \<and> s = 0 # 32 # h @ 8 # t" by simp
next
  assume "IsPayToBindingScriptHash s"
  then obtain p q r where *: "parsed s = Ok [p, q, r]" "pop_value p = OP_0" "pop_value q = OP_DATA_32"
    "unat (pop_value r) = 20 \<or> unat (pop_value r) = 22"
    by (auto simp: IsPayToBindingScriptHash_def if_parsed_def isWitnessBindingScript_def pops_three split: res.splits)
  from *(4) show "\<exists>h t. length h = 32 \<and> (length t = 20 \<and> s = 0 # 32 # h @ 20 # t \<or> length t = 22 \<and> s = 0 # 32 # h @ 22 # t)"
    using parsed_three_forms [OF *(1-3), of 20] parsed_three_forms [OF *(1-3), of 22] by auto
next
  assume "\<exists>h. length h = 32 \<and> s = 0 # 32 # h"
  then show "IsPayToWitnessScriptHash s"
    by (auto simp: IsPayToWitnessScriptHash_def if_parsed_def parsed_p2wsh isWitnessScriptHash_def)
next
  assume "\<exists>h t. length h = 32 \<and> length t = 8 \<and> s = 0 # 32 # h @ 8 # t"
  then obtain h t where "length h = 32" "length t = 8" "s = 0 # 32 # h @ 8 # t" by blast
  then show "IsPayToStakingScriptHash s"
    using parsed_extended [of h t 8] by (simp add: IsPayToStakingScriptHash_def if_parsed_def isWitnessStakingScript_def)
next
  assume "\<exists>h t. length h = 32 \<and> (length t = 20 \<and> s = 0 # 32 # h @ 20 # t \<or> length t = 22 \<and> s = 0 # 32 # h @ 22 # t)"
  then obtain h t where "length h = 32" "length t = 20 \<and> s = 0 # 32 # h @ 20 # t \<or> length t = 22 \<and> s = 0 # 32 # h @ 22 # t"
    by blast
  then show "IsPayToBindingScriptHash s"
    using parsed_extended [of h t 20] parsed_extended [of h t 22] by (auto simp: IsPayToBindingScriptHash_def if_parsed_def isWitnessBindingScript_def)
qed

text \<open>C33 (signature operations of witnesses). \<open>GetWitnessSigOpCount\<close>, which the description of a standard script
  uses, counts the signature operations of the witness script for a plain witness output; for a staking or a binding
  output it counts none, whatever the witness script is. The limit on a block does not use it: \<open>CountSigOps\<close> counts
  the last item of the witness of every input.\<close>

theorem GetWitnessSigOpCount_forms:
  assumes "length h = 32" "witness \<noteq> []" "length t = 8 \<or> length t = 20 \<or> length t = 22"
  shows "GetWitnessSigOpCount (0 # 32 # h) witness = GetSigOpCount (last witness) \<and>
    GetWitnessSigOpCount (0 # 32 # h @ word_of_nat (length t) # t) witness = 0"
proof -
  have "parsed (0 # 32 # h) = Ok [op_pop 0, data_pop h]" using parsed_p2wsh assms(1) by simp
  moreover have "isWitnessProgram [op_pop 0, data_pop h]"
    using assms(1) by (simp add: isWitnessProgram_def isSmallInt_def canonicalPush_def)
  ultimately have "GetWitnessSigOpCount (0 # 32 # h) witness = GetSigOpCount (last witness)"
    using assms(1,2)
    by (simp add: GetWitnessSigOpCount_def IsWitnessProgram_def if_parsed_def getWitnessSigOps_def
        ExtractWitnessProgramInfo_def extractWitnessProgramInfo_def asSmallInt_def WitnessV0ScriptHashDataSize_def
        GetSigOpCount_def last_conv_nth)
  moreover have "\<not> IsWitnessProgram (0 # 32 # h @ word_of_nat (length t) # t)"
    using assms(1,3) by (auto simp: IsWitnessProgram_def)
  ultimately show ?thesis by (simp add: GetWitnessSigOpCount_def)
qed

theorem GetWitnessSigOpCount_forms_witness:
  "GetWitnessSigOpCount (0 # 32 # replicate 32 7 @ word_of_nat (length [1, 0, 0, 0, 0, 0, 0, 0 :: byte]) # [1, 0, 0, 0, 0, 0, 0, 0])
    [[OP_CHECKSIG]] = 0"
  using GetWitnessSigOpCount_forms [of "replicate 32 7" "[[OP_CHECKSIG]]" "[1, 0, 0, 0, 0, 0, 0, 0]"] by simp

end
