(* ===== verification/Go_Hash.thy ===== *)
theory Go_Hash
  imports Go_Prelude
begin

text \<open>
  The hash functions of Go's standard library that the code calls: \<^verbatim>\<open>crypto/sha256.Sum256\<close> and
  \<^verbatim>\<open>crypto/sha1.Sum\<close>, as executable functions on byte lists (FIPS 180-4), and the wrappers of
  \<^verbatim>\<open>wire/common.go\<close>. What the rest of the development uses of them is their type and the length of the digest.
\<close>

section \<open>Padding and blocks\<close>

function chunks :: "nat \<Rightarrow> 'a list \<Rightarrow> 'a list list" where
  "chunks n xs = (if n = 0 \<or> xs = [] then [] else take n xs # chunks n (drop n xs))"
  by pat_completeness auto
termination
  by (relation "measure (\<lambda>(n, xs). length xs)") auto

declare chunks.simps [simp del]

text \<open>A one bit, zeros up to 56 bytes modulo 64, and the bit length as a 64-bit big-endian integer.\<close>

definition sha_pad :: "byte list \<Rightarrow> byte list" where
  "sha_pad m = m @ [0x80] @ replicate ((119 - length m mod 64) mod 64) 0 @ put_be 8 (8 * length m)"

definition block_words :: "byte list \<Rightarrow> u32 list" where
  "block_words b = map (\<lambda>c. word_of_nat (be_val c)) (chunks 4 b)"

section \<open>SHA-256\<close>

text \<open>The round constants are, by the standard, the first 32 bits of the fractional parts of the cube roots of
  the first 64 primes. \<open>cube_root\<close> finds the integer cube root bit by bit; the low 32 bits of the root of
  \<open>p * 2 ^ 96\<close> are the constant of the prime \<open>p\<close>.\<close>

fun cube_root :: "nat \<Rightarrow> nat \<Rightarrow> nat \<Rightarrow> nat" where
  "cube_root 0 n r = r"
| "cube_root (Suc k) n r = cube_root k n (if (r + 2 ^ k) ^ 3 \<le> n then r + 2 ^ k else r)"

definition first_primes :: "nat list" where
  "first_primes =
    [2, 3, 5, 7, 11, 13, 17, 19, 23, 29, 31, 37, 41, 43, 47, 53, 59, 61, 67, 71, 73, 79,
     83, 89, 97, 101, 103, 107, 109, 113, 127, 131, 137, 139, 149, 151, 157, 163, 167, 173, 179, 181, 191, 193,
     197, 199, 211, 223, 227, 229, 233, 239, 241, 251, 257, 263, 269, 271, 277, 281, 283, 293, 307, 311]"

definition sha256_K :: "u32 list" where
  "sha256_K = map (\<lambda>p. word_of_nat (cube_root 35 (p * 2 ^ 96) 0)) first_primes"

definition sha256_H0 :: "u32 list" where
  "sha256_H0 = [0x6a09e667, 0xbb67ae85, 0x3c6ef372, 0xa54ff53a, 0x510e527f, 0x9b05688c, 0x1f83d9ab, 0x5be0cd19]"

fun sha256_schedule :: "nat \<Rightarrow> u32 list \<Rightarrow> u32 list" where
  "sha256_schedule 0 w = w"
| "sha256_schedule (Suc k) w =
    (let i = length w;
         a = w ! (i - 15);
         b = w ! (i - 2);
         s0 = xor (xor (word_rotr 7 a) (word_rotr 18 a)) (drop_bit 3 a);
         s1 = xor (xor (word_rotr 17 b) (word_rotr 19 b)) (drop_bit 10 b)
     in sha256_schedule k (w @ [w ! (i - 16) + s0 + w ! (i - 7) + s1]))"

definition sha256_round :: "u32 \<times> u32 \<Rightarrow> u32 list \<Rightarrow> u32 list" where
  "sha256_round kw h =
    (case h of [a, b, c, d, e, f, g, hh] \<Rightarrow>
       let S1 = xor (xor (word_rotr 6 e) (word_rotr 11 e)) (word_rotr 25 e);
           ch = xor (and e f) (and (not e) g);
           t1 = hh + S1 + ch + fst kw + snd kw;
           S0 = xor (xor (word_rotr 2 a) (word_rotr 13 a)) (word_rotr 22 a);
           maj = xor (xor (and a b) (and a c)) (and b c);
           t2 = S0 + maj
       in [t1 + t2, a, b, c, d + t1, e, f, g]
     | _ \<Rightarrow> h)"

definition sha256_block :: "u32 list \<Rightarrow> byte list \<Rightarrow> u32 list" where
  "sha256_block h b =
    map2 (+) h (foldl (\<lambda>s kw. sha256_round kw s) h (zip sha256_K (sha256_schedule 48 (block_words b))))"

definition sha256_Sum256 :: "byte list \<Rightarrow> byte list" where
  "sha256_Sum256 m = concat (map be_PutUint32 (foldl sha256_block sha256_H0 (chunks 64 (sha_pad m))))"

section \<open>SHA-1\<close>

definition sha1_H0 :: "u32 list" where
  "sha1_H0 = [0x67452301, 0xefcdab89, 0x98badcfe, 0x10325476, 0xc3d2e1f0]"

fun sha1_schedule :: "nat \<Rightarrow> u32 list \<Rightarrow> u32 list" where
  "sha1_schedule 0 w = w"
| "sha1_schedule (Suc k) w =
    (let i = length w in
     sha1_schedule k (w @ [word_rotl 1 (xor (xor (xor (w ! (i - 3)) (w ! (i - 8))) (w ! (i - 14))) (w ! (i - 16)))]))"

definition sha1_round :: "nat \<times> u32 \<Rightarrow> u32 list \<Rightarrow> u32 list" where
  "sha1_round tw h =
    (case h of [a, b, c, d, e] \<Rightarrow>
       let t = fst tw;
           f = (if t < 20 then or (and b c) (and (not b) d)
                else if t < 40 then xor (xor b c) d
                else if t < 60 then or (or (and b c) (and b d)) (and c d)
                else xor (xor b c) d);
           k = (if t < 20 then 0x5a827999 else if t < 40 then 0x6ed9eba1
                else if t < 60 then 0x8f1bbcdc else 0xca62c1d6)
       in [word_rotl 5 a + f + e + k + snd tw, a, word_rotl 30 b, c, d]
     | _ \<Rightarrow> h)"

definition sha1_block :: "u32 list \<Rightarrow> byte list \<Rightarrow> u32 list" where
  "sha1_block h b =
    map2 (+) h (foldl (\<lambda>s tw. sha1_round tw s) h (zip [0..<80] (sha1_schedule 64 (block_words b))))"

definition sha1_Sum :: "byte list \<Rightarrow> byte list" where
  "sha1_Sum m = concat (map be_PutUint32 (foldl sha1_block sha1_H0 (chunks 64 (sha_pad m))))"

section \<open>The wrappers of the wire package\<close>

definition HashB :: "byte list \<Rightarrow> byte list" where
  "HashB b = sha256_Sum256 b"

definition HashH :: "byte list \<Rightarrow> byte list" where
  "HashH b = sha256_Sum256 b"

definition DoubleHashB :: "byte list \<Rightarrow> byte list" where
  "DoubleHashB b = (let first = sha256_Sum256 b; second = sha256_Sum256 first in second)"

definition DoubleHashH :: "byte list \<Rightarrow> byte list" where
  "DoubleHashH b = (let first = sha256_Sum256 b in sha256_Sum256 first)"

section \<open>The round constants\<close>

lemma cube_root_bounds:
  "r ^ 3 \<le> n \<Longrightarrow> n < (r + 2 ^ k) ^ 3 \<Longrightarrow> (cube_root k n r) ^ 3 \<le> n \<and> n < (cube_root k n r + 1) ^ 3"
proof (induction k arbitrary: r)
  case (Suc k)
  have e: "r + 2 ^ Suc k = (r + 2 ^ k) + 2 ^ k" by simp
  show ?case
  proof (cases "(r + 2 ^ k) ^ 3 \<le> n")
    case True
    with Suc.prems(2) show ?thesis unfolding e using Suc.IH [of "r + 2 ^ k"] by simp
  next
    case False
    with Suc.prems(1) show ?thesis using Suc.IH [of r] by simp
  qed
qed simp

lemma sha256_K_cube_root:
  assumes "p < 343"
  shows "(cube_root 35 (p * 2 ^ 96) 0) ^ 3 \<le> p * 2 ^ 96 \<and> p * 2 ^ 96 < (cube_root 35 (p * 2 ^ 96) 0 + 1) ^ 3"
  using assms by (intro cube_root_bounds) simp_all

section \<open>Digest lengths\<close>

lemma length_sha256_round: "length (sha256_round kw h) = length h"
  by (auto simp: sha256_round_def Let_def split: list.splits)

lemma length_sha256_rounds: "length (foldl (\<lambda>s kw. sha256_round kw s) h ks) = length h"
  by (induction ks arbitrary: h) (auto simp: length_sha256_round)

lemma length_sha256_blocks: "length (foldl sha256_block h bs) = length h"
  by (induction bs arbitrary: h) (auto simp: sha256_block_def length_sha256_rounds)

lemma length_words: "length (concat (map be_PutUint32 ws)) = 4 * length ws"
  by (induction ws) auto

lemma length_sha256 [simp]: "length (sha256_Sum256 m) = 32"
  by (simp add: sha256_Sum256_def length_words length_sha256_blocks sha256_H0_def)

lemma length_sha1_round: "length (sha1_round kw h) = length h"
  by (auto simp: sha1_round_def Let_def split: list.splits)

lemma length_sha1_rounds: "length (foldl (\<lambda>s kw. sha1_round kw s) h ks) = length h"
  by (induction ks arbitrary: h) (auto simp: length_sha1_round)

lemma length_sha1_blocks: "length (foldl sha1_block h bs) = length h"
  by (induction bs arbitrary: h) (auto simp: sha1_block_def length_sha1_rounds)

lemma length_sha1 [simp]: "length (sha1_Sum m) = 20"
  by (simp add: sha1_Sum_def length_words length_sha1_blocks sha1_H0_def)

lemma length_wire_hashes [simp]:
  "length (HashB b) = 32" "length (HashH b) = 32" "length (DoubleHashB b) = 32" "length (DoubleHashH b) = 32"
  by (simp_all add: HashB_def HashH_def DoubleHashB_def DoubleHashH_def Let_def)

end
