(* ===== verification/Wire_Tx.thy ===== *)
theory Wire_Tx
  imports Go_Hash Consensus_Params
begin

text \<open>
  \<^verbatim>\<open>wire/msgtx.go\<close>, \<^verbatim>\<open>wire/shahash.go\<close> and \<^verbatim>\<open>wire/pb/tx.go\<close>: transactions, their protobuf form and the byte
  encodings from which the transaction id and the witness id are hashed. Generated protobuf structs are
  records whose pointer fields are options (\<open>None\<close> is nil). The theory shows the round trip through the
  protobuf form, the size of the plain encoding, and what the id encoding determines: it has no counts and
  no length prefixes, so it is injective only on transactions of the same shape.
\<close>

type_synonym hash = "byte list"

definition HashSize :: nat where "HashSize = 32"

definition zeroHash :: hash where "zeroHash = replicate 32 0"

definition is_hash :: "hash \<Rightarrow> bool" where "is_hash h \<longleftrightarrow> length h = 32"

section \<open>Structures\<close>

record OutPoint =
  op_Hash :: hash
  op_Index :: u32

record TxIn =
  PreviousOutPoint :: OutPoint
  Witness :: "byte list list"
  Sequence :: u64

record TxOut =
  Value :: int
  PkScript :: "byte list"

record MsgTx =
  tx_Version :: u32
  tx_TxIn :: "TxIn list"
  tx_TxOut :: "TxOut list"
  tx_LockTime :: u64
  tx_Payload :: "byte list"

definition MaxTxInSequenceNum :: u64 where "MaxTxInSequenceNum = 0xffffffffffffffff"
definition MaxPrevOutIndex :: u32 where "MaxPrevOutIndex = 0xffffffff"
definition SequenceLockTimeDisabled :: u64 where "SequenceLockTimeDisabled = push_bit 63 1"
definition SequenceLockTimeIsSeconds :: u64 where "SequenceLockTimeIsSeconds = push_bit 38 1"
definition SequenceLockTimeMask :: u64 where "SequenceLockTimeMask = 0x00000000ffffffff"
definition SequenceLockTimeGranularity :: nat where "SequenceLockTimeGranularity = 5"

definition NewOutPoint :: "hash \<Rightarrow> u32 \<Rightarrow> OutPoint" where
  "NewOutPoint h index = \<lparr> op_Hash = h, op_Index = index \<rparr>"

definition NewTxIn :: "OutPoint \<Rightarrow> byte list list \<Rightarrow> TxIn" where
  "NewTxIn prevOut witness = \<lparr> PreviousOutPoint = prevOut, Witness = witness, Sequence = MaxTxInSequenceNum \<rparr>"

definition NewTxOut :: "int \<Rightarrow> byte list \<Rightarrow> TxOut" where
  "NewTxOut value pkScript = \<lparr> Value = value, PkScript = pkScript \<rparr>"

definition NewMsgTx :: MsgTx where
  "NewMsgTx = \<lparr> tx_Version = 1, tx_TxIn = [], tx_TxOut = [], tx_LockTime = 0, tx_Payload = [] \<rparr>"

definition AddTxIn :: "MsgTx \<Rightarrow> TxIn \<Rightarrow> MsgTx" where
  "AddTxIn msg ti = msg\<lparr> tx_TxIn := tx_TxIn msg @ [ti] \<rparr>"

definition AddTxOut :: "MsgTx \<Rightarrow> TxOut \<Rightarrow> MsgTx" where
  "AddTxOut msg to = msg\<lparr> tx_TxOut := tx_TxOut msg @ [to] \<rparr>"

text \<open>Out of range, \<^verbatim>\<open>msg.TxOut[index+1:]\<close> panics.\<close>

definition RemoveTxOut :: "MsgTx \<Rightarrow> nat \<Rightarrow> ('e, MsgTx) res" where
  "RemoveTxOut msg index =
    (if index < length (tx_TxOut msg)
     then Ok (msg\<lparr> tx_TxOut := take index (tx_TxOut msg) @ drop (index + 1) (tx_TxOut msg) \<rparr>)
     else Panic)"

definition RemoveAllTxOut :: "MsgTx \<Rightarrow> MsgTx" where
  "RemoveAllTxOut msg = msg\<lparr> tx_TxOut := [] \<rparr>"

definition SetPayload :: "MsgTx \<Rightarrow> byte list \<Rightarrow> MsgTx" where
  "SetPayload msg payload = msg\<lparr> tx_Payload := payload \<rparr>"

definition IsCoinBaseTx_wire :: "MsgTx \<Rightarrow> bool" where
  "IsCoinBaseTx_wire msg =
    (case tx_TxIn msg of
       [] \<Rightarrow> False
     | ti # _ \<Rightarrow>
         let prevOut = PreviousOutPoint ti in
         \<not> (op_Index prevOut \<noteq> 0xffffffff \<or> op_Hash prevOut \<noteq> zeroHash))"

definition TxWitness_PlainSize :: "byte list list \<Rightarrow> nat" where
  "TxWitness_PlainSize t = (\<Sum>w\<leftarrow>t. length w)"

definition TxIn_PlainSize :: "TxIn \<Rightarrow> nat" where
  "TxIn_PlainSize t = 4 + 32 + TxWitness_PlainSize (Witness t) + 8"

definition TxOut_PlainSize :: "TxOut \<Rightarrow> nat" where
  "TxOut_PlainSize t = 8 + length (PkScript t)"

definition MsgTx_PlainSize :: "MsgTx \<Rightarrow> nat" where
  "MsgTx_PlainSize msg =
    4 + (\<Sum>ti\<leftarrow>tx_TxIn msg. TxIn_PlainSize ti) + (\<Sum>to\<leftarrow>tx_TxOut msg. TxOut_PlainSize to) + 8 +
    length (tx_Payload msg)"

definition IsValidFrozenPeriod :: "u64 \<Rightarrow> bool" where
  "IsValidFrozenPeriod height \<longleftrightarrow> height \<ge> MinFrozenPeriod \<and> height \<le> SequenceLockTimeMask - 1"

definition IsValidStakingValue :: "int \<Rightarrow> bool" where
  "IsValidStakingValue value \<longleftrightarrow> value \<ge> sint MinStakingValue"

section \<open>The protobuf form\<close>

record pb_hash =
  S0 :: u64
  S1 :: u64
  S2 :: u64
  S3 :: u64

record pb_OutPoint =
  pb_Hash :: "pb_hash option"
  pb_Index :: u32

record pb_TxIn =
  pb_PreviousOutPoint :: "pb_OutPoint option"
  pb_Witness :: "byte list list"
  pb_Sequence :: u64

record pb_TxOut =
  pb_Value :: int
  pb_PkScript :: "byte list"

record pb_Tx =
  pb_Version :: u32
  pb_TxIns :: "pb_TxIn option list"
  pb_TxOuts :: "pb_TxOut option list"
  pb_LockTime :: u64
  pb_Payload :: "byte list"

datatype wire_error =
    ErrNilProtoHash | ErrNilProtoTx | ErrNilProtoTxIn | ErrNilProtoOutPoint | ErrNilProtoTxOut

text \<open>Eight bytes of a hash as a big-endian integer; a hash has 32 bytes, so the slices are in range.\<close>

definition be_slice :: "nat \<Rightarrow> hash \<Rightarrow> u64" where
  "be_slice k h = word_of_nat (be_val (take 8 (drop k h)))"

definition Hash_ToProto :: "hash \<Rightarrow> pb_hash" where
  "Hash_ToProto h = \<lparr> S0 = be_slice 0 h, S1 = be_slice 8 h, S2 = be_slice 16 h, S3 = be_slice 24 h \<rparr>"

definition Hash_FromProto :: "pb_hash option \<Rightarrow> (wire_error, hash) res" where
  "Hash_FromProto pb =
    (case pb of
       None \<Rightarrow> Err ErrNilProtoHash
     | Some p \<Rightarrow> Ok (be_PutUint64 (S0 p) @ be_PutUint64 (S1 p) @ be_PutUint64 (S2 p) @ be_PutUint64 (S3 p)))"

definition TxIn_ToProto :: "TxIn \<Rightarrow> pb_TxIn" where
  "TxIn_ToProto ti =
    \<lparr> pb_PreviousOutPoint =
        Some \<lparr> pb_Hash = Some (Hash_ToProto (op_Hash (PreviousOutPoint ti))),
               pb_Index = op_Index (PreviousOutPoint ti) \<rparr>,
      pb_Witness = Witness ti, pb_Sequence = Sequence ti \<rparr>"

definition TxOut_ToProto :: "TxOut \<Rightarrow> pb_TxOut" where
  "TxOut_ToProto to = \<lparr> pb_Value = Value to, pb_PkScript = PkScript to \<rparr>"

definition MsgTx_ToProto :: "MsgTx \<Rightarrow> pb_Tx" where
  "MsgTx_ToProto msg =
    \<lparr> pb_Version = tx_Version msg, pb_TxIns = map (\<lambda>ti. Some (TxIn_ToProto ti)) (tx_TxIn msg),
      pb_TxOuts = map (\<lambda>to. Some (TxOut_ToProto to)) (tx_TxOut msg), pb_LockTime = tx_LockTime msg,
      pb_Payload = tx_Payload msg \<rparr>"

definition TxIn_FromProto :: "pb_TxIn option \<Rightarrow> (wire_error, TxIn) res" where
  "TxIn_FromProto pb =
    (case pb of
       None \<Rightarrow> Err ErrNilProtoTxIn
     | Some ti \<Rightarrow>
         (case pb_PreviousOutPoint ti of
            None \<Rightarrow> Err ErrNilProtoOutPoint
          | Some op \<Rightarrow>
              bindR (Hash_FromProto (pb_Hash op)) (\<lambda>h.
              Ok \<lparr> PreviousOutPoint = \<lparr> op_Hash = h, op_Index = pb_Index op \<rparr>,
                   Witness = pb_Witness ti, Sequence = pb_Sequence ti \<rparr>)))"

definition TxOut_FromProto :: "pb_TxOut option \<Rightarrow> (wire_error, TxOut) res" where
  "TxOut_FromProto pb =
    (case pb of
       None \<Rightarrow> Err ErrNilProtoTxOut
     | Some to \<Rightarrow> Ok \<lparr> Value = pb_Value to, PkScript = pb_PkScript to \<rparr>)"

text \<open>A loop that converts a slice and returns at the first error.\<close>

fun mapR :: "('a \<Rightarrow> ('e, 'b) res) \<Rightarrow> 'a list \<Rightarrow> ('e, 'b list) res" where
  "mapR f [] = Ok []"
| "mapR f (x # xs) = bindR (f x) (\<lambda>y. bindR (mapR f xs) (\<lambda>ys. Ok (y # ys)))"

definition MsgTx_FromProto :: "pb_Tx option \<Rightarrow> (wire_error, MsgTx) res" where
  "MsgTx_FromProto pb =
    (case pb of
       None \<Rightarrow> Err ErrNilProtoTx
     | Some p \<Rightarrow>
         bindR (mapR TxIn_FromProto (pb_TxIns p)) (\<lambda>txIns.
         bindR (mapR TxOut_FromProto (pb_TxOuts p)) (\<lambda>txOuts.
         Ok \<lparr> tx_Version = pb_Version p, tx_TxIn = txIns, tx_TxOut = txOuts,
              tx_LockTime = pb_LockTime p, tx_Payload = pb_Payload p \<rparr>)))"

section \<open>Byte encodings\<close>

text \<open>Writing to a \<^verbatim>\<open>bytes.Buffer\<close> does not fail, so a writer is the list of bytes it writes. Calling a
  method on a nil pointer that reads a field panics.\<close>

definition pbHash_Bytes :: "pb_hash \<Rightarrow> byte list" where
  "pbHash_Bytes m = le_PutUint64 (S0 m) @ le_PutUint64 (S1 m) @ le_PutUint64 (S2 m) @ le_PutUint64 (S3 m)"

definition pbOutPoint_Bytes :: "pb_OutPoint option \<Rightarrow> (wire_error, byte list) res" where
  "pbOutPoint_Bytes m =
    (case m of
       None \<Rightarrow> Panic
     | Some op \<Rightarrow>
         (case pb_Hash op of None \<Rightarrow> Panic | Some h \<Rightarrow> Ok (pbHash_Bytes h @ le_PutUint32 (pb_Index op))))"

definition pbTxIn_Bytes :: "pb_TxIn option \<Rightarrow> (wire_error, byte list) res" where
  "pbTxIn_Bytes m =
    (case m of
       None \<Rightarrow> Panic
     | Some ti \<Rightarrow>
         bindR (pbOutPoint_Bytes (pb_PreviousOutPoint ti)) (\<lambda>op.
         Ok (op @ concat (pb_Witness ti) @ le_PutUint64 (pb_Sequence ti))))"

definition pbTxIn_BytesNoWitness :: "pb_TxIn option \<Rightarrow> (wire_error, byte list) res" where
  "pbTxIn_BytesNoWitness m =
    (case m of
       None \<Rightarrow> Panic
     | Some ti \<Rightarrow>
         bindR (pbOutPoint_Bytes (pb_PreviousOutPoint ti)) (\<lambda>op. Ok (op @ le_PutUint64 (pb_Sequence ti))))"

definition pbTxOut_Bytes :: "pb_TxOut option \<Rightarrow> (wire_error, byte list) res" where
  "pbTxOut_Bytes m =
    (case m of
       None \<Rightarrow> Panic
     | Some to \<Rightarrow> Ok (le_PutUint64 (word_of_int (pb_Value to)) @ pb_PkScript to))"

definition pbTx_Write :: "pb_Tx \<Rightarrow> (wire_error, byte list) res" where
  "pbTx_Write m =
    bindR (mapR pbTxIn_Bytes (pb_TxIns m)) (\<lambda>ins.
    bindR (mapR pbTxOut_Bytes (pb_TxOuts m)) (\<lambda>outs.
    Ok (le_PutUint32 (pb_Version m) @ concat ins @ concat outs @ le_PutUint64 (pb_LockTime m) @ pb_Payload m)))"

definition pbTx_WriteNoWitness :: "pb_Tx \<Rightarrow> (wire_error, byte list) res" where
  "pbTx_WriteNoWitness m =
    bindR (mapR pbTxIn_BytesNoWitness (pb_TxIns m)) (\<lambda>ins.
    bindR (mapR pbTxOut_Bytes (pb_TxOuts m)) (\<lambda>outs.
    Ok (le_PutUint32 (pb_Version m) @ concat ins @ concat outs @ le_PutUint64 (pb_LockTime m) @ pb_Payload m)))"

text \<open>\<^verbatim>\<open>Encode\<close> in the modes without protobuf marshalling.\<close>

datatype CodecMode = Plain | WitnessID | ID

definition MsgTx_Encode :: "MsgTx \<Rightarrow> CodecMode \<Rightarrow> (wire_error, byte list) res" where
  "MsgTx_Encode msg mode =
    (let pb = MsgTx_ToProto msg in
     case mode of
       Plain \<Rightarrow> pbTx_Write pb
     | WitnessID \<Rightarrow> pbTx_Write pb
     | ID \<Rightarrow> pbTx_WriteNoWitness pb)"

definition TxHash :: "MsgTx \<Rightarrow> hash" where
  "TxHash msg = (case MsgTx_Encode msg ID of Ok buf \<Rightarrow> DoubleHashH buf | _ \<Rightarrow> zeroHash)"

definition WitnessHash :: "MsgTx \<Rightarrow> hash" where
  "WitnessHash msg = (case MsgTx_Encode msg WitnessID of Ok buf \<Rightarrow> DoubleHashH buf | _ \<Rightarrow> zeroHash)"

text \<open>\<^verbatim>\<open>WriteTxOut\<close>, used by the signature hash.\<close>

definition WriteUint64 :: "u64 \<Rightarrow> byte list" where
  "WriteUint64 val = le_PutUint64 val"

definition WriteVarBytes :: "byte list \<Rightarrow> byte list" where
  "WriteVarBytes bytes = bytes"

definition WriteTxOut :: "TxOut \<Rightarrow> byte list" where
  "WriteTxOut to = WriteUint64 (word_of_int (Value to)) @ WriteVarBytes (PkScript to)"

section \<open>Hashes\<close>

lemma be_slice_Put:
  assumes "length h = 32" "k + 8 \<le> 32"
  shows "be_PutUint64 (be_slice k h) = take 8 (drop k h)"
proof -
  let ?s = "take 8 (drop k h)"
  have l: "length ?s = 8" using assms by simp
  then have "be_val ?s < 2 ^ 64" using be_val_less [of ?s] by simp
  then have "unat (be_slice k h) = be_val ?s" by (simp add: be_slice_def unat_of_nat)
  then show ?thesis using put_be_be_val [of ?s] l by (simp add: be_PutUint64_def)
qed

lemma split_32:
  assumes "length h = 32"
  shows "take 8 h @ take 8 (drop 8 h) @ take 8 (drop 16 h) @ take 8 (drop 24 h) = h"
proof -
  have "take 8 h @ take 24 (drop 8 h) = h" using take_add [of 8 24 h] assms by simp
  moreover have "take 24 (drop 8 h) = take 8 (drop 8 h) @ take 16 (drop 16 h)"
    using take_add [of 8 16 "drop 8 h"] by simp
  moreover have "take 16 (drop 16 h) = take 8 (drop 16 h) @ take 8 (drop 24 h)"
    using take_add [of 8 8 "drop 16 h"] by simp
  ultimately show ?thesis by simp
qed

lemma Hash_FromProto_ToProto:
  assumes "is_hash h"
  shows "Hash_FromProto (Some (Hash_ToProto h)) = Ok h"
  using assms split_32 [of h] be_slice_Put [of h]
  by (simp add: Hash_FromProto_def Hash_ToProto_def is_hash_def)

lemma pbHash_Bytes_inj:
  "pbHash_Bytes a = pbHash_Bytes b \<longleftrightarrow> a = b"
proof
  assume "pbHash_Bytes a = pbHash_Bytes b"
  then have "S0 a = S0 b \<and> S1 a = S1 b \<and> S2 a = S2 b \<and> S3 a = S3 b"
    by (simp add: pbHash_Bytes_def le_PutUint64_inj)
  then show "a = b" by simp
qed simp

lemma Hash_ToProto_inj: "is_hash a \<Longrightarrow> is_hash b \<Longrightarrow> Hash_ToProto a = Hash_ToProto b \<longleftrightarrow> a = b"
  using Hash_FromProto_ToProto by (metis res.inject(1))

lemma length_pbHash_Bytes [simp]: "length (pbHash_Bytes h) = 32"
  by (simp add: pbHash_Bytes_def)

section \<open>Encodings of transactions\<close>

definition txin_id_bytes :: "TxIn \<Rightarrow> byte list" where
  "txin_id_bytes ti =
    pbHash_Bytes (Hash_ToProto (op_Hash (PreviousOutPoint ti))) @ le_PutUint32 (op_Index (PreviousOutPoint ti)) @
    le_PutUint64 (Sequence ti)"

definition txin_plain_bytes :: "TxIn \<Rightarrow> byte list" where
  "txin_plain_bytes ti =
    pbHash_Bytes (Hash_ToProto (op_Hash (PreviousOutPoint ti))) @ le_PutUint32 (op_Index (PreviousOutPoint ti)) @
    concat (Witness ti) @ le_PutUint64 (Sequence ti)"

definition txout_bytes :: "TxOut \<Rightarrow> byte list" where
  "txout_bytes to = le_PutUint64 (word_of_int (Value to)) @ PkScript to"

lemma mapR_Ok: "(\<And>x. x \<in> set xs \<Longrightarrow> f x = Ok (g x)) \<Longrightarrow> mapR f xs = Ok (map g xs)"
  by (induction xs) auto

lemma mapR_map: "mapR f (map h xs) = mapR (\<lambda>x. f (h x)) xs"
  by (induction xs) auto

lemma encode_ID:
  "MsgTx_Encode msg ID = Ok (le_PutUint32 (tx_Version msg) @ concat (map txin_id_bytes (tx_TxIn msg)) @
    concat (map txout_bytes (tx_TxOut msg)) @ le_PutUint64 (tx_LockTime msg) @ tx_Payload msg)"
proof -
  have "mapR pbTxIn_BytesNoWitness (map (\<lambda>ti. Some (TxIn_ToProto ti)) (tx_TxIn msg)) = Ok (map txin_id_bytes (tx_TxIn msg))"
    unfolding mapR_map
    by (rule mapR_Ok) (simp add: pbTxIn_BytesNoWitness_def TxIn_ToProto_def pbOutPoint_Bytes_def txin_id_bytes_def)
  moreover have "mapR pbTxOut_Bytes (map (\<lambda>to. Some (TxOut_ToProto to)) (tx_TxOut msg)) = Ok (map txout_bytes (tx_TxOut msg))"
    unfolding mapR_map by (rule mapR_Ok) (simp add: pbTxOut_Bytes_def TxOut_ToProto_def txout_bytes_def)
  ultimately show ?thesis by (simp add: MsgTx_Encode_def pbTx_WriteNoWitness_def MsgTx_ToProto_def)
qed

lemma encode_Plain:
  "MsgTx_Encode msg Plain = Ok (le_PutUint32 (tx_Version msg) @ concat (map txin_plain_bytes (tx_TxIn msg)) @
    concat (map txout_bytes (tx_TxOut msg)) @ le_PutUint64 (tx_LockTime msg) @ tx_Payload msg)"
proof -
  have "mapR pbTxIn_Bytes (map (\<lambda>ti. Some (TxIn_ToProto ti)) (tx_TxIn msg)) = Ok (map txin_plain_bytes (tx_TxIn msg))"
    unfolding mapR_map
    by (rule mapR_Ok) (simp add: pbTxIn_Bytes_def TxIn_ToProto_def pbOutPoint_Bytes_def txin_plain_bytes_def)
  moreover have "mapR pbTxOut_Bytes (map (\<lambda>to. Some (TxOut_ToProto to)) (tx_TxOut msg)) = Ok (map txout_bytes (tx_TxOut msg))"
    unfolding mapR_map by (rule mapR_Ok) (simp add: pbTxOut_Bytes_def TxOut_ToProto_def txout_bytes_def)
  ultimately show ?thesis by (simp add: MsgTx_Encode_def pbTx_Write_def MsgTx_ToProto_def)
qed

section \<open>Correctness\<close>

definition wf_tx :: "MsgTx \<Rightarrow> bool" where
  "wf_tx msg \<longleftrightarrow>
    list_all (\<lambda>ti. is_hash (op_Hash (PreviousOutPoint ti))) (tx_TxIn msg) \<and>
    list_all (\<lambda>to. int64 (Value to)) (tx_TxOut msg)"

lemma mapR_inverse:
  "list_all P xs \<Longrightarrow> (\<And>x. P x \<Longrightarrow> f (h x) = Ok x) \<Longrightarrow> mapR f (map h xs) = Ok xs"
  by (induction xs) auto

text \<open>C29 (protobuf form). Converting a transaction to its protobuf form and back gives the same
  transaction; the plain encoding succeeds and has the size that \<open>MsgTx_PlainSize\<close> computes.\<close>

theorem MsgTx_proto_roundtrip:
  assumes "wf_tx msg"
  shows "MsgTx_FromProto (Some (MsgTx_ToProto msg)) = Ok msg \<and>
    (\<exists>bs. MsgTx_Encode msg Plain = Ok bs \<and> length bs = MsgTx_PlainSize msg)"
proof -
  have i: "mapR TxIn_FromProto (map (\<lambda>ti. Some (TxIn_ToProto ti)) (tx_TxIn msg)) = Ok (tx_TxIn msg)"
    by (rule mapR_inverse [where P = "\<lambda>ti. is_hash (op_Hash (PreviousOutPoint ti))"])
      (use assms in \<open>auto simp: wf_tx_def TxIn_FromProto_def TxIn_ToProto_def Hash_FromProto_ToProto\<close>)
  have o: "mapR TxOut_FromProto (map (\<lambda>to. Some (TxOut_ToProto to)) (tx_TxOut msg)) = Ok (tx_TxOut msg)"
    by (rule mapR_inverse [where P = "\<lambda>_. True"]) (auto simp: TxOut_FromProto_def TxOut_ToProto_def list_all_iff)
  have "length (concat (map txin_plain_bytes tis)) = (\<Sum>ti\<leftarrow>tis. TxIn_PlainSize ti)" for tis
    by (induction tis) (auto simp: txin_plain_bytes_def TxIn_PlainSize_def TxWitness_PlainSize_def length_concat)
  moreover have "length (concat (map txout_bytes tos)) = (\<Sum>to\<leftarrow>tos. TxOut_PlainSize to)" for tos
    by (induction tos) (auto simp: txout_bytes_def TxOut_PlainSize_def)
  ultimately have "\<exists>bs. MsgTx_Encode msg Plain = Ok bs \<and> length bs = MsgTx_PlainSize msg"
    by (simp add: encode_Plain MsgTx_PlainSize_def)
  with i o show ?thesis by (simp add: MsgTx_FromProto_def MsgTx_ToProto_def)
qed

definition sample_tx :: MsgTx where
  "sample_tx =
    \<lparr> tx_Version = 1,
      tx_TxIn = [\<lparr> PreviousOutPoint = \<lparr> op_Hash = replicate 32 7, op_Index = 2 \<rparr>, Witness = [[1], [2, 3]], Sequence = 5 \<rparr>],
      tx_TxOut = [\<lparr> Value = 100, PkScript = [0, 1, 2] \<rparr>], tx_LockTime = 0, tx_Payload = [9] \<rparr>"

theorem MsgTx_proto_roundtrip_witness:
  "MsgTx_FromProto (Some (MsgTx_ToProto sample_tx)) = Ok sample_tx \<and>
    (\<exists>bs. MsgTx_Encode sample_tx Plain = Ok bs \<and> length bs = MsgTx_PlainSize sample_tx)"
  by (rule MsgTx_proto_roundtrip) (simp add: wf_tx_def sample_tx_def is_hash_def int64_def)

text \<open>Two consecutive outputs and the single output that has the bytes of the second one appended to the
  script of the first.\<close>

definition merge_outputs :: "TxOut \<Rightarrow> TxOut \<Rightarrow> TxOut" where
  "merge_outputs a b = \<lparr> Value = Value a, PkScript = PkScript a @ le_PutUint64 (word_of_int (Value b)) @ PkScript b \<rparr>"

text \<open>C28 (transaction ids are ambiguous). The id encoding has neither counts nor length prefixes: merging two
  consecutive outputs into one changes the number of outputs and the amount paid out but not the transaction
  id, nor the witness id.\<close>

theorem TxHash_merge_outputs:
  "TxHash (msg\<lparr> tx_TxOut := xs @ a # b # ys \<rparr>) = TxHash (msg\<lparr> tx_TxOut := xs @ merge_outputs a b # ys \<rparr>) \<and>
   WitnessHash (msg\<lparr> tx_TxOut := xs @ a # b # ys \<rparr>) = WitnessHash (msg\<lparr> tx_TxOut := xs @ merge_outputs a b # ys \<rparr>) \<and>
   msg\<lparr> tx_TxOut := xs @ a # b # ys \<rparr> \<noteq> msg\<lparr> tx_TxOut := xs @ merge_outputs a b # ys \<rparr>"
proof -
  have w: "MsgTx_Encode m WitnessID = MsgTx_Encode m Plain" for m by (simp add: MsgTx_Encode_def)
  have "xs @ a # b # ys \<noteq> xs @ merge_outputs a b # ys"
    by (metis append_same_eq append_eq_appendI length_Cons length_append add_left_cancel n_not_Suc_n)
  then have "tx_TxOut (msg\<lparr> tx_TxOut := xs @ a # b # ys \<rparr>) \<noteq> tx_TxOut (msg\<lparr> tx_TxOut := xs @ merge_outputs a b # ys \<rparr>)"
    by simp
  then have "msg\<lparr> tx_TxOut := xs @ a # b # ys \<rparr> \<noteq> msg\<lparr> tx_TxOut := xs @ merge_outputs a b # ys \<rparr>" by metis
  then show ?thesis
    by (simp add: TxHash_def WitnessHash_def w encode_ID encode_Plain txout_bytes_def merge_outputs_def)
qed

text \<open>What the id covers: everything but the witnesses.\<close>

definition strip_witness :: "MsgTx \<Rightarrow> MsgTx" where
  "strip_witness msg = msg\<lparr> tx_TxIn := map (\<lambda>ti. ti\<lparr> Witness := [] \<rparr>) (tx_TxIn msg) \<rparr>"

definition same_shape :: "MsgTx \<Rightarrow> MsgTx \<Rightarrow> bool" where
  "same_shape a b \<longleftrightarrow>
    length (tx_TxIn a) = length (tx_TxIn b) \<and>
    map (\<lambda>to. length (PkScript to)) (tx_TxOut a) = map (\<lambda>to. length (PkScript to)) (tx_TxOut b)"

lemma concat_inj:
  assumes "list_all2 (\<lambda>x y. length (f x) = length (f y)) xs ys" "concat (map f xs) @ r = concat (map f ys) @ s"
  shows "list_all2 (\<lambda>x y. f x = f y) xs ys \<and> r = s"
  using assms by (induction xs ys rule: list_all2_induct) auto

lemma txin_id_bytes_inj:
  assumes "txin_id_bytes a = txin_id_bytes b" "is_hash (op_Hash (PreviousOutPoint a))" "is_hash (op_Hash (PreviousOutPoint b))"
  shows "a\<lparr> Witness := [] \<rparr> = b\<lparr> Witness := [] \<rparr>"
  using assms by (simp add: txin_id_bytes_def pbHash_Bytes_inj Hash_ToProto_inj)

lemma txout_bytes_inj:
  assumes "txout_bytes a = txout_bytes b" "int64 (Value a)" "int64 (Value b)"
  shows "a = b"
proof -
  have "sint (word_of_int (Value a) :: u64) = sint (word_of_int (Value b) :: u64)" "PkScript a = PkScript b"
    using assms(1) by (simp_all add: txout_bytes_def)
  then show ?thesis using assms(2,3) by (simp add: sint_word64)
qed

text \<open>C27 (transaction ids on equal shapes). Two well-formed transactions with the same number of inputs and
  the same number of outputs with scripts of the same lengths have the same id encoding only if they agree
  in everything but their witnesses; the id does not depend on the witnesses.\<close>

theorem TxHash_encoding_injective:
  assumes "wf_tx a" "wf_tx b" "same_shape a b"
  shows "(MsgTx_Encode a ID = MsgTx_Encode b ID \<longleftrightarrow> strip_witness a = strip_witness b) \<and>
    TxHash (strip_witness a) = TxHash a"
proof -
  have li: "list_all2 (\<lambda>x y. length (txin_id_bytes x) = length (txin_id_bytes y)) (tx_TxIn a) (tx_TxIn b)"
    using assms(3) by (simp add: same_shape_def list_all2_conv_all_nth txin_id_bytes_def)
  have lo: "list_all2 (\<lambda>x y. length (txout_bytes x) = length (txout_bytes y)) (tx_TxOut a) (tx_TxOut b)"
    using assms(3) by (auto simp: same_shape_def list_all2_conv_all_nth txout_bytes_def list_eq_iff_nth_eq)
  have s: "txin_id_bytes \<circ> Witness_update (\<lambda>_. []) = txin_id_bytes"
    by (rule ext) (simp add: txin_id_bytes_def)
  have strip: "MsgTx_Encode (strip_witness m) ID = MsgTx_Encode m ID" for m
    by (simp add: encode_ID strip_witness_def s)
  have "strip_witness a = strip_witness b" if e: "MsgTx_Encode a ID = MsgTx_Encode b ID"
  proof -
    have e': "tx_Version a = tx_Version b"
      "concat (map txin_id_bytes (tx_TxIn a)) @ concat (map txout_bytes (tx_TxOut a)) @ le_PutUint64 (tx_LockTime a) @ tx_Payload a =
       concat (map txin_id_bytes (tx_TxIn b)) @ concat (map txout_bytes (tx_TxOut b)) @ le_PutUint64 (tx_LockTime b) @ tx_Payload b"
      using e by (simp_all add: encode_ID)
    note i = concat_inj [OF li e'(2)]
    note o = concat_inj [OF lo i [THEN conjunct2]]
    have "map (\<lambda>ti. ti\<lparr> Witness := [] \<rparr>) (tx_TxIn a) = map (\<lambda>ti. ti\<lparr> Witness := [] \<rparr>) (tx_TxIn b)"
      using i [THEN conjunct1] assms(1,2)
      by (auto simp: list_all2_conv_all_nth list_eq_iff_nth_eq wf_tx_def list_all_length intro!: txin_id_bytes_inj)
    moreover have "tx_TxOut a = tx_TxOut b"
      using o [THEN conjunct1] assms(1,2)
      by (auto simp: list_all2_conv_all_nth list_eq_iff_nth_eq wf_tx_def list_all_length intro!: txout_bytes_inj)
    moreover have "tx_LockTime a = tx_LockTime b" "tx_Payload a = tx_Payload b"
      using o [THEN conjunct2] by simp_all
    ultimately show ?thesis using e'(1) by (simp add: strip_witness_def)
  qed
  moreover have "MsgTx_Encode a ID = MsgTx_Encode b ID" if "strip_witness a = strip_witness b"
    using that strip [of a] strip [of b] by simp
  moreover have "TxHash (strip_witness a) = TxHash a" by (simp add: TxHash_def strip)
  ultimately show ?thesis by blast
qed

theorem TxHash_encoding_injective_witness:
  "MsgTx_Encode sample_tx ID \<noteq> MsgTx_Encode (sample_tx\<lparr> tx_LockTime := 1 \<rparr>) ID \<and>
   TxHash (strip_witness sample_tx) = TxHash sample_tx"
  using TxHash_encoding_injective [of sample_tx "sample_tx\<lparr> tx_LockTime := 1 \<rparr>"]
  by (simp add: wf_tx_def sample_tx_def is_hash_def int64_def same_shape_def strip_witness_def)

end
