(* ===== verification/SigHash.thy ===== *)
theory SigHash
  imports Script Wire_Tx
begin

text \<open>
  The signature hash of \<^verbatim>\<open>txscript/script.go\<close>, its cached parts (\<^verbatim>\<open>hashcache.go\<close>) and the cache of verified
  signatures (\<^verbatim>\<open>sigcache.go\<close>). Keys and signatures come from the package btcec and the hash ripemd160 from
  golang.org/x/crypto, which are not part of the repository: the record \<open>crypto\<close> holds their functions and
  is a parameter of everything that uses them, as are the random bytes and the order in which Go ranges over
  a map. The theory shows exactly what a signature hash commits to under each of the six hash types, that the cached parts do not
  change it, that the signature cache stays within its size, and that checking a signature through the cache
  gives the same answer as verifying it.
\<close>

section \<open>Signature hashes\<close>

record TxSigHashes =
  HashPrevOuts :: hash
  HashSequence :: hash
  HashOutputs :: hash
  TxVersion :: "byte list"
  TxLockTime :: "byte list"

definition calcHashPrevOuts :: "MsgTx \<Rightarrow> hash" where
  "calcHashPrevOuts tx =
    DoubleHashH (concat (map (\<lambda>ti. op_Hash (PreviousOutPoint ti) @ le_PutUint32 (op_Index (PreviousOutPoint ti))) (tx_TxIn tx)))"

definition calcHashSequence :: "MsgTx \<Rightarrow> hash" where
  "calcHashSequence tx = DoubleHashH (concat (map (\<lambda>ti. le_PutUint64 (Sequence ti)) (tx_TxIn tx)))"

definition calcHashOutputs :: "MsgTx \<Rightarrow> hash" where
  "calcHashOutputs tx = DoubleHashH (concat (map WriteTxOut (tx_TxOut tx)))"

definition NewTxSigHashes :: "MsgTx \<Rightarrow> TxSigHashes" where
  "NewTxSigHashes tx =
    \<lparr> HashPrevOuts = calcHashPrevOuts tx, HashSequence = calcHashSequence tx, HashOutputs = calcHashOutputs tx,
      TxVersion = le_PutUint32 (tx_Version tx), TxLockTime = le_PutUint64 (tx_LockTime tx) \<rparr>"

text \<open>The bytes \<^verbatim>\<open>calcWitnessSignatureHash\<close> writes for the input \<open>txIn\<close> at position \<open>idx\<close>.\<close>

definition sighash_preimage ::
  "byte list \<Rightarrow> TxSigHashes \<Rightarrow> u32 \<Rightarrow> MsgTx \<Rightarrow> nat \<Rightarrow> TxIn \<Rightarrow> int \<Rightarrow> byte list" where
  "sighash_preimage rawScript sigHashes hashType tx idx txIn amt =
    TxVersion sigHashes @
    (if hashType AND SigHashAnyOneCanPay = 0 then HashPrevOuts sigHashes else zeroHash) @
    (if hashType AND SigHashAnyOneCanPay = 0 \<and> hashType AND sigHashMask \<noteq> SigHashSingle \<and>
        hashType AND sigHashMask \<noteq> SigHashNone
     then HashSequence sigHashes else zeroHash) @
    op_Hash (PreviousOutPoint txIn) @
    le_PutUint32 (op_Index (PreviousOutPoint txIn)) @
    WriteVarBytes rawScript @
    le_PutUint64 (word_of_int amt) @
    le_PutUint64 (Sequence txIn) @
    tx_Payload tx @
    (if hashType AND SigHashSingle \<noteq> SigHashSingle \<and> hashType AND SigHashNone \<noteq> SigHashNone
     then HashOutputs sigHashes
     else if hashType AND sigHashMask = SigHashSingle \<and> idx < length (tx_TxOut tx)
     then DoubleHashB (WriteTxOut (tx_TxOut tx ! idx))
     else zeroHash) @
    TxLockTime sigHashes @
    le_PutUint32 hashType"

definition calcWitnessSignatureHash ::
  "parsedOpcode list \<Rightarrow> TxSigHashes \<Rightarrow> u32 \<Rightarrow> MsgTx \<Rightarrow> nat \<Rightarrow> int \<Rightarrow> byte list script_res" where
  "calcWitnessSignatureHash subScript sigHashes hashType tx idx amt =
    (if int idx > int (length (tx_TxIn tx)) - 1 then Err (ErrText ''idx but txins'')
     else
       bindR (at (tx_TxIn tx) idx) (\<lambda>txIn.
       let rawScript = (case unparseScript subScript of Ok s \<Rightarrow> s | _ \<Rightarrow> []) in
       Ok (DoubleHashB (sighash_preimage rawScript sigHashes hashType tx idx txIn amt))))"

section \<open>The cache of partial hashes\<close>

type_synonym HashCache = "hash \<rightharpoonup> TxSigHashes"

definition NewHashCache :: HashCache where
  "NewHashCache = Map.empty"

definition AddSigHashes :: "MsgTx \<Rightarrow> HashCache \<Rightarrow> HashCache" where
  "AddSigHashes tx h = h(TxHash tx \<mapsto> NewTxSigHashes tx)"

definition ContainsHashes :: "HashCache \<Rightarrow> hash \<Rightarrow> bool" where
  "ContainsHashes h txid = (h txid \<noteq> None)"

definition GetSigHashes :: "HashCache \<Rightarrow> hash \<Rightarrow> TxSigHashes option" where
  "GetSigHashes h txid = h txid"

definition PurgeSigHashes :: "hash \<Rightarrow> HashCache \<Rightarrow> HashCache" where
  "PurgeSigHashes txid h = h(txid := None)"

section \<open>The cache of verified signatures\<close>

record sigInfo =
  si_sigHash :: hash
  si_sig :: "byte list"
  si_pubKey :: "byte list"

record SigCache =
  validSigs :: "sigInfo list"
  maxEntries :: nat

record ('pk, 'sig) crypto =
  ParsePubKey :: "byte list \<Rightarrow> 'pk option"
  ParseDERSignature :: "byte list \<Rightarrow> 'sig option"
  sig_Verify :: "'sig \<Rightarrow> byte list \<Rightarrow> 'pk \<Rightarrow> bool"
  sig_Serialize :: "'sig \<Rightarrow> byte list"
  SerializeCompressed :: "'pk \<Rightarrow> byte list"
  IsCompressedPubKey :: "byte list \<Rightarrow> bool"
  S256_N :: int
  ripemd160_Sum :: "byte list \<Rightarrow> byte list"
  rand_Read :: "SigCache \<Rightarrow> byte list option"
  map_range :: "sigInfo list \<Rightarrow> sigInfo list"

definition NewSigCache :: "nat \<Rightarrow> SigCache" where
  "NewSigCache n = \<lparr> validSigs = [], maxEntries = n \<rparr>"

definition sig_info :: "('pk, 'sig) crypto \<Rightarrow> hash \<Rightarrow> 'sig \<Rightarrow> 'pk \<Rightarrow> sigInfo" where
  "sig_info C sigHash sig pubKey =
    \<lparr> si_sigHash = sigHash, si_sig = sig_Serialize C sig, si_pubKey = SerializeCompressed C pubKey \<rparr>"

definition SigCache_Exists :: "('pk, 'sig) crypto \<Rightarrow> SigCache \<Rightarrow> hash \<Rightarrow> 'sig \<Rightarrow> 'pk \<Rightarrow> bool" where
  "SigCache_Exists C s sigHash sig pubKey = (sig_info C sigHash sig pubKey \<in> set (validSigs s))"

text \<open>The loop that picks the entry to evict.\<close>

fun evict_loop :: "byte list \<Rightarrow> sigInfo \<Rightarrow> sigInfo list \<Rightarrow> sigInfo" where
  "evict_loop randHash foundEntry [] = foundEntry"
| "evict_loop randHash foundEntry (sigEntry # rest) =
    (let foundEntry = (if si_sig foundEntry = [] then sigEntry else foundEntry) in
     if bytes_Compare (si_sigHash sigEntry) randHash > 0 then sigEntry
     else evict_loop randHash foundEntry rest)"

definition SigCache_Add :: "('pk, 'sig) crypto \<Rightarrow> SigCache \<Rightarrow> hash \<Rightarrow> 'sig \<Rightarrow> 'pk \<Rightarrow> SigCache" where
  "SigCache_Add C s sigHash sig pubKey =
    (if maxEntries s \<le> 0 then s
     else
       let insert_info = (\<lambda>s. s\<lparr> validSigs := List.insert (sig_info C sigHash sig pubKey) (validSigs s) \<rparr>) in
       if length (validSigs s) + 1 > maxEntries s then
         (case rand_Read C s of
            None \<Rightarrow> s
          | Some randHash \<Rightarrow>
              (let foundEntry = evict_loop randHash \<lparr> si_sigHash = zeroHash, si_sig = [], si_pubKey = [] \<rparr>
                     (map_range C (validSigs s))
               in insert_info (s\<lparr> validSigs := removeAll foundEntry (validSigs s) \<rparr>)))
       else insert_info s)"

text \<open>The block in which \<^verbatim>\<open>opcodeCheckSig\<close> and \<^verbatim>\<open>opcodeCheckMultiSig\<close> verify a signature.\<close>

definition verify_cached ::
  "('pk, 'sig) crypto \<Rightarrow> SigCache option \<Rightarrow> byte list \<Rightarrow> 'sig \<Rightarrow> 'pk \<Rightarrow> bool \<times> SigCache option" where
  "verify_cached C cache hash signature pubKey =
    (case cache of
       None \<Rightarrow> (sig_Verify C signature hash pubKey, None)
     | Some c \<Rightarrow>
         (if SigCache_Exists C c hash signature pubKey then (True, Some c)
          else if sig_Verify C signature hash pubKey then (True, Some (SigCache_Add C c hash signature pubKey))
          else (False, Some c)))"

section \<open>What a signature hash commits to\<close>

lemma length_NewTxSigHashes [simp]:
  "length (HashPrevOuts (NewTxSigHashes tx)) = 32" "length (HashSequence (NewTxSigHashes tx)) = 32"
  "length (HashOutputs (NewTxSigHashes tx)) = 32" "length (TxVersion (NewTxSigHashes tx)) = 4"
  "length (TxLockTime (NewTxSigHashes tx)) = 8"
  by (simp_all add: NewTxSigHashes_def calcHashPrevOuts_def calcHashSequence_def calcHashOutputs_def)

lemmas sighash_consts = SigHashAll_def SigHashNone_def SigHashSingle_def SigHashAnyOneCanPay_def sigHashMask_def



text \<open>The parts of the hashed bytes that depend on the hash type: \<open>base\<close> says which outputs are signed and
  \<open>anyone\<close> whether other inputs may be added.\<close>

definition hash_type :: "u32 \<Rightarrow> bool \<Rightarrow> u32" where
  "hash_type base anyone = (if anyone then base OR SigHashAnyOneCanPay else base)"

definition signed_output :: "MsgTx \<Rightarrow> nat \<Rightarrow> byte list" where
  "signed_output tx idx =
    (if idx < length (tx_TxOut tx) then DoubleHashB (WriteTxOut (tx_TxOut tx ! idx)) else zeroHash)"

definition prevouts_part :: "bool \<Rightarrow> MsgTx \<Rightarrow> byte list" where
  "prevouts_part anyone tx = (if anyone then zeroHash else calcHashPrevOuts tx)"

definition sequence_part :: "u32 \<Rightarrow> bool \<Rightarrow> MsgTx \<Rightarrow> byte list" where
  "sequence_part base anyone tx = (if \<not> anyone \<and> base = SigHashAll then calcHashSequence tx else zeroHash)"

definition outputs_part :: "u32 \<Rightarrow> MsgTx \<Rightarrow> nat \<Rightarrow> byte list" where
  "outputs_part base tx idx =
    (if base = SigHashAll then calcHashOutputs tx else if base = SigHashSingle then signed_output tx idx else zeroHash)"

lemmas sighash_parts = prevouts_part_def sequence_part_def outputs_part_def signed_output_def

lemma length_zeroHash [simp]: "length zeroHash = 32"
  by (simp add: zeroHash_def)

lemma length_sighash_parts [simp]:
  "length (prevouts_part anyone tx) = 32" "length (sequence_part base anyone tx) = 32"
  "length (outputs_part base tx idx) = 32"
  by (simp_all add: sighash_parts calcHashPrevOuts_def calcHashSequence_def calcHashOutputs_def)

lemma sighash_preimage_parts:
  assumes "base \<in> {SigHashAll, SigHashNone, SigHashSingle}"
  shows "sighash_preimage rs (NewTxSigHashes tx) (hash_type base anyone) tx idx ti amt =
    le_PutUint32 (tx_Version tx) @ prevouts_part anyone tx @ sequence_part base anyone tx @
    op_Hash (PreviousOutPoint ti) @ le_PutUint32 (op_Index (PreviousOutPoint ti)) @ WriteVarBytes rs @
    le_PutUint64 (word_of_int amt) @ le_PutUint64 (Sequence ti) @ tx_Payload tx @ outputs_part base tx idx @
    le_PutUint64 (tx_LockTime tx) @ le_PutUint32 (hash_type base anyone)"
  using assms
  by (cases anyone)
    (auto simp: sighash_preimage_def hash_type_def sighash_parts sighash_consts NewTxSigHashes_def)

text \<open>C40 (hash types). For each of the six hash types (all, none or a single output, with or without
  other inputs allowed) the hashed bytes of two transactions, for scripts of the same length, agree if and only
  if the parts that the type covers agree. The version, the spent output, the script, the amount, the sequence number
  of the input, the payload and the lock time are always covered; all previous outputs unless anyone can pay;
  all sequence numbers only for the type of all outputs without that flag; all outputs for the type of all
  outputs, the output at the position of the input (or its absence) for the type of a single output, and no output for the
  type of none. So a signature of the other types holds in every transaction that differs only in what it does not
  cover, and in no other up to collisions of the hash.\<close>

theorem sighash_types:
  assumes "base \<in> {SigHashAll, SigHashNone, SigHashSingle}"
    and "length rs = length rs'" "is_hash (op_Hash (PreviousOutPoint ti))" "is_hash (op_Hash (PreviousOutPoint ti'))"
    and "int64 amt" "int64 amt'"
  shows "sighash_preimage rs (NewTxSigHashes tx) (hash_type base anyone) tx idx ti amt =
      sighash_preimage rs' (NewTxSigHashes tx') (hash_type base anyone) tx' idx' ti' amt' \<longleftrightarrow>
    tx_Version tx = tx_Version tx' \<and> PreviousOutPoint ti = PreviousOutPoint ti' \<and> Sequence ti = Sequence ti' \<and>
    rs = rs' \<and> amt = amt' \<and> tx_Payload tx = tx_Payload tx' \<and> tx_LockTime tx = tx_LockTime tx' \<and>
    (\<not> anyone \<longrightarrow> calcHashPrevOuts tx = calcHashPrevOuts tx') \<and>
    (\<not> anyone \<and> base = SigHashAll \<longrightarrow> calcHashSequence tx = calcHashSequence tx') \<and>
    (base = SigHashAll \<longrightarrow> calcHashOutputs tx = calcHashOutputs tx') \<and>
    (base = SigHashSingle \<longrightarrow> signed_output tx idx = signed_output tx' idx')"
proof -
  have e: "(word_of_int amt :: u64) = word_of_int amt' \<longleftrightarrow> amt = amt'"
    using assms(5,6) sint_word64 by metis
  have "sighash_preimage rs (NewTxSigHashes tx) (hash_type base anyone) tx idx ti amt =
      sighash_preimage rs' (NewTxSigHashes tx') (hash_type base anyone) tx' idx' ti' amt' \<longleftrightarrow>
    tx_Version tx = tx_Version tx' \<and> prevouts_part anyone tx = prevouts_part anyone tx' \<and>
    sequence_part base anyone tx = sequence_part base anyone tx' \<and>
    op_Hash (PreviousOutPoint ti) = op_Hash (PreviousOutPoint ti') \<and>
    op_Index (PreviousOutPoint ti) = op_Index (PreviousOutPoint ti') \<and> rs = rs' \<and> amt = amt' \<and>
    Sequence ti = Sequence ti' \<and> tx_Payload tx = tx_Payload tx' \<and>
    outputs_part base tx idx = outputs_part base tx' idx' \<and> tx_LockTime tx = tx_LockTime tx'"
    unfolding sighash_preimage_parts [OF assms(1)]
    using assms(2-4) by (simp add: is_hash_def WriteVarBytes_def e)
  moreover have "PreviousOutPoint ti = PreviousOutPoint ti' \<longleftrightarrow>
      op_Hash (PreviousOutPoint ti) = op_Hash (PreviousOutPoint ti') \<and>
      op_Index (PreviousOutPoint ti) = op_Index (PreviousOutPoint ti')"
    by (cases "PreviousOutPoint ti"; cases "PreviousOutPoint ti'") simp
  moreover have "SigHashSingle \<noteq> SigHashAll" by (simp add: sighash_consts)
  ultimately show ?thesis
    unfolding prevouts_part_def sequence_part_def outputs_part_def by auto
qed

theorem sighash_types_witness:
  "sighash_preimage [1] (NewTxSigHashes sample_tx) (hash_type SigHashNone True) sample_tx 0 (tx_TxIn sample_tx ! 0) 5 =
   sighash_preimage [1] (NewTxSigHashes (sample_tx\<lparr> tx_TxOut := [] \<rparr>)) (hash_type SigHashNone True) (sample_tx\<lparr> tx_TxOut := [] \<rparr>) 0
     (tx_TxIn sample_tx ! 0) 5"
  using sighash_types [of SigHashNone "[1]" "[1]" "tx_TxIn sample_tx ! 0" "tx_TxIn sample_tx ! 0" 5 5 sample_tx True 0
      "sample_tx\<lparr> tx_TxOut := [] \<rparr>" 0]
  by (simp add: sample_tx_def is_hash_def int64_def sighash_consts)

section \<open>Caches\<close>

text \<open>A store of facts about keys: what is found is valid, and adding a valid fact keeps it so.\<close>

locale fact_cache =
  fixes sound :: "'c \<Rightarrow> bool" and found :: "'c \<Rightarrow> 'k \<Rightarrow> bool" and add :: "'k \<Rightarrow> 'c \<Rightarrow> 'c" and valid :: "'k \<Rightarrow> bool"
  assumes found_valid: "sound c \<Longrightarrow> found c k \<Longrightarrow> valid k"
    and add_sound: "sound c \<Longrightarrow> valid k \<Longrightarrow> sound (add k c)"
begin

lemma lookup_or_check:
  assumes "sound c"
  shows "(found c k \<or> valid k) = valid k \<and> sound (if \<not> found c k \<and> valid k then add k c else c)"
  using assms found_valid add_sound by auto

end

definition crypto_ok :: "('pk, 'sig) crypto \<Rightarrow> bool" where
  "crypto_ok C \<longleftrightarrow>
    (\<forall>s s' k k' h. sig_Serialize C s = sig_Serialize C s' \<longrightarrow> SerializeCompressed C k = SerializeCompressed C k' \<longrightarrow>
      sig_Verify C s h k = sig_Verify C s' h k') \<and>
    (\<forall>xs. set (map_range C xs) = set xs)"

lemma crypto_okD:
  "crypto_ok C \<Longrightarrow> sig_Serialize C s = sig_Serialize C s' \<Longrightarrow> SerializeCompressed C k = SerializeCompressed C k' \<Longrightarrow>
    sig_Verify C s' h k' \<Longrightarrow> sig_Verify C s h k"
  unfolding crypto_ok_def by blast

definition cache_sound :: "('pk, 'sig) crypto \<Rightarrow> SigCache \<Rightarrow> bool" where
  "cache_sound C c \<longleftrightarrow> crypto_ok C \<and>
    (\<forall>e\<in>set (validSigs c). \<exists>h s k. e = sig_info C h s k \<and> sig_Verify C s h k)"

lemma evict_loop_range: "evict_loop r f es \<in> insert f (set es)"
  by (induction es arbitrary: f) (auto simp: Let_def)

lemma evict_loop_in: "es \<noteq> [] \<Longrightarrow> si_sig found = [] \<Longrightarrow> evict_loop r found es \<in> set es"
  using evict_loop_range [of r "hd es" "tl es"] by (cases es) auto

lemma set_SigCache_Add: "set (validSigs (SigCache_Add C c h s k)) \<subseteq> insert (sig_info C h s k) (set (validSigs c))"
  by (auto simp: SigCache_Add_def Let_def split: option.splits)

interpretation sig_cache: fact_cache "cache_sound C"
  "\<lambda>c (h, s, k). SigCache_Exists C c h s k" "\<lambda>(h, s, k) c. SigCache_Add C c h s k"
  "\<lambda>(h, s, k). sig_Verify C s h k" for C :: "('pk, 'sig) crypto"
proof (unfold_locales, clarify)
  fix c h s k
  assume c: "cache_sound C c" and e: "SigCache_Exists C c h s k"
  then obtain s' k' where "sig_info C h s k = sig_info C h s' k'" "sig_Verify C s' h k'"
    by (auto simp: cache_sound_def SigCache_Exists_def sig_info_def)
  then show "sig_Verify C s h k"
    using c by (intro crypto_okD [of C s s' k k' h]) (simp_all add: cache_sound_def sig_info_def)
next
  fix c and x :: "hash \<times> 'sig \<times> 'pk"
  obtain h s k where x: "x = (h, s, k)" by (cases x)
  assume "cache_sound C c" "case x of (h, s, k) \<Rightarrow> sig_Verify C s h k"
  then show "cache_sound C ((case x of (h, s, k) \<Rightarrow> \<lambda>c. SigCache_Add C c h s k) c)"
    using set_SigCache_Add [of C c h s k] x unfolding cache_sound_def by (simp add: subset_iff) blast
qed

lemma SigCache_Add_bound:
  assumes "length (validSigs c) \<le> maxEntries c" "distinct (validSigs c)" "crypto_ok C"
  shows "length (validSigs (SigCache_Add C c h s k)) \<le> maxEntries c \<and> distinct (validSigs (SigCache_Add C c h s k)) \<and>
    maxEntries (SigCache_Add C c h s k) = maxEntries c"
proof -
  let ?z = "\<lparr> si_sigHash = zeroHash, si_sig = [], si_pubKey = [] \<rparr>"
  have "length (removeAll (evict_loop r ?z (map_range C (validSigs c))) (validSigs c)) < length (validSigs c)"
    if "validSigs c \<noteq> []" for r
  proof -
    have "map_range C (validSigs c) \<noteq> []" using that assms(3) by (metis crypto_ok_def set_empty)
    then have "evict_loop r ?z (map_range C (validSigs c)) \<in> set (validSigs c)"
      using evict_loop_in [of "map_range C (validSigs c)" ?z r] assms(3) by (simp add: crypto_ok_def)
    then show ?thesis by (rule length_removeAll_less)
  qed
  then have "length (List.insert e (removeAll (evict_loop r ?z (map_range C (validSigs c))) (validSigs c))) \<le> length (validSigs c)"
    if "validSigs c \<noteq> []" for r e
    using that by (auto simp: List.insert_def Suc_le_eq less_imp_le)
  then have i: "length (List.insert e (removeAll (evict_loop r ?z (map_range C (validSigs c))) (validSigs c))) \<le> maxEntries c"
    if "\<not> length (validSigs c) + 1 \<le> maxEntries c" "0 < maxEntries c" for r e
    using assms(1) that by (cases "validSigs c = []") (auto intro: order_trans)
  have j: "length (List.insert e (validSigs c)) \<le> maxEntries c" if "length (validSigs c) + 1 \<le> maxEntries c" for e
    using that by (simp add: List.insert_def)
  consider "maxEntries c = 0" | (room) "0 < maxEntries c" "length (validSigs c) + 1 \<le> maxEntries c"
    | (full) "0 < maxEntries c" "\<not> length (validSigs c) + 1 \<le> maxEntries c" by blast
  then show ?thesis
  proof cases
    case room
    then show ?thesis using assms(2) j by (simp add: SigCache_Add_def)
  next
    case full
    then show ?thesis
      using assms(1,2) i [OF full(2,1)] distinct_removeAll [OF assms(2)]
      by (cases "rand_Read C c") (simp_all add: SigCache_Add_def)
  qed (use assms in \<open>simp add: SigCache_Add_def\<close>)
qed

text \<open>C38 (signature cache). When the serializations of keys and signatures identify them and the entries of the
  cache have been verified, checking a signature through the cache gives the same answer as verifying it;
  afterwards the entries still have been verified and the cache does not exceed its size.\<close>

theorem verify_cached_correct:
  assumes "cache_sound C c" "length (validSigs c) \<le> maxEntries c" "distinct (validSigs c)"
  shows "\<exists>c'. verify_cached C (Some c) h s k = (fst (verify_cached C None h s k), Some c') \<and> cache_sound C c' \<and>
    length (validSigs c') \<le> maxEntries c' \<and> distinct (validSigs c')"
proof -
  note check = sig_cache.lookup_or_check [OF assms(1), of "(h, s, k)"]
  have "crypto_ok C" using assms(1) by (simp add: cache_sound_def)
  note bound = SigCache_Add_bound [OF assms(2,3) this, of h s k]
  show ?thesis
    using check bound assms
    by (cases "SigCache_Exists C c h s k"; cases "sig_Verify C s h k") (simp_all add: verify_cached_def)
qed

definition toy_crypto :: "(byte list, byte list) crypto" where
  "toy_crypto =
    \<lparr> ParsePubKey = Some, ParseDERSignature = Some, sig_Verify = (\<lambda>s h k. s = k), sig_Serialize = id,
      SerializeCompressed = id, IsCompressedPubKey = (\<lambda>k. length k = 33), S256_N = 2 ^ 256 - 1,
      ripemd160_Sum = take 20, rand_Read = (\<lambda>_. Some (replicate 32 0)), map_range = id \<rparr>"

theorem verify_cached_correct_witness:
  "\<exists>c'. verify_cached toy_crypto (Some (NewSigCache 1)) [9] [1] [1] = (fst (verify_cached toy_crypto None [9] [1] [1]), Some c') \<and>
    cache_sound toy_crypto c' \<and> length (validSigs c') \<le> maxEntries c' \<and> distinct (validSigs c')"
  by (rule verify_cached_correct) (simp_all add: cache_sound_def crypto_ok_def NewSigCache_def toy_crypto_def)

end
