(* ===== verification/Script_Stack.thy ===== *)
theory Script_Stack
  imports ScriptNum
begin

text \<open>
  \<^verbatim>\<open>txscript/stack.go\<close>: the data stack of the script engine. The record \<open>stack\<close> has the slice \<^verbatim>\<open>stk\<close>, whose
  last element is the top, and the flag that numbers must be minimal. An operation that fails returns only
  its error: the engine stops there and no caller looks at the stack again. Depths and indices are \<^verbatim>\<open>int32\<close>
  values, modelled as \<open>int\<close>; the engine keeps the stack far below that range. The theory gives each
  operation as an equation on the list, from the bottom to the top. The interface \<open>indexed_stack\<close>, push,
  remove and read at a depth, is what the loops that rotate, swap and copy several elements rely on.
\<close>

definition asBool :: "byte list \<Rightarrow> bool" where
  "asBool t = (case dropWhile (\<lambda>b. b = 0) t of [] \<Rightarrow> False | [b] \<Rightarrow> b \<noteq> 0x80 | b # c # bs \<Rightarrow> True)"

definition fromBool :: "bool \<Rightarrow> byte list" where
  "fromBool v = (if v then [1] else [])"

record stack =
  stk :: "byte list list"
  verifyMinimalData :: bool

definition Depth :: "stack \<Rightarrow> int" where
  "Depth s = int (length (stk s))"

definition PushByteArray :: "byte list \<Rightarrow> stack \<Rightarrow> stack" where
  "PushByteArray so s = s\<lparr> stk := stk s @ [so] \<rparr>"

definition PushInt :: "int \<Rightarrow> stack \<Rightarrow> stack script_res" where
  "PushInt val s = bindR (scriptNum_Bytes val) (\<lambda>b. Ok (PushByteArray b s))"

definition PushBool :: "bool \<Rightarrow> stack \<Rightarrow> stack" where
  "PushBool val s = PushByteArray (fromBool val) s"

definition nipN :: "int \<Rightarrow> stack \<Rightarrow> (byte list \<times> stack) script_res" where
  "nipN idx s =
    (let sz = int (length (stk s)) in
     if idx < 0 \<or> idx > sz - 1 then Err ErrStackUnderflow
     else
       let so = stk s ! nat (sz - idx - 1);
           stk' =
             (if idx = 0 then take (nat (sz - 1)) (stk s)
              else if idx = sz - 1 then drop 1 (stk s)
              else take (nat (sz - idx - 1)) (stk s) @ drop (nat (sz - idx)) (stk s))
       in Ok (so, s\<lparr> stk := stk' \<rparr>))"

definition PopByteArray :: "stack \<Rightarrow> (byte list \<times> stack) script_res" where
  "PopByteArray s = nipN 0 s"

definition PopInt :: "stack \<Rightarrow> (int \<times> stack) script_res" where
  "PopInt s =
    bindR (PopByteArray s) (\<lambda>(so, s').
    bindR (makeScriptNum so (verifyMinimalData s) defaultScriptNumLen) (\<lambda>n. Ok (n, s')))"

definition PopBool :: "stack \<Rightarrow> (bool \<times> stack) script_res" where
  "PopBool s = bindR (PopByteArray s) (\<lambda>(so, s'). Ok (asBool so, s'))"

definition PeekByteArray :: "int \<Rightarrow> stack \<Rightarrow> byte list script_res" where
  "PeekByteArray idx s =
    (let sz = int (length (stk s)) in
     if idx < 0 \<or> idx \<ge> sz then Err ErrStackUnderflow
     else Ok (stk s ! nat (sz - idx - 1)))"

definition PeekInt :: "int \<Rightarrow> stack \<Rightarrow> int script_res" where
  "PeekInt idx s =
    bindR (PeekByteArray idx s) (\<lambda>so. makeScriptNum so (verifyMinimalData s) defaultScriptNumLen)"

definition PeekBool :: "int \<Rightarrow> stack \<Rightarrow> bool script_res" where
  "PeekBool idx s = bindR (PeekByteArray idx s) (\<lambda>so. Ok (asBool so))"

definition NipN :: "int \<Rightarrow> stack \<Rightarrow> stack script_res" where
  "NipN idx s = bindR (nipN idx s) (\<lambda>(so, s'). Ok s')"

definition Tuck :: "stack \<Rightarrow> stack script_res" where
  "Tuck s =
    bindR (PopByteArray s) (\<lambda>(so2, s).
    bindR (PopByteArray s) (\<lambda>(so1, s).
    Ok (PushByteArray so2 (PushByteArray so1 (PushByteArray so2 s)))))"

text \<open>A loop that runs its body \<open>n\<close> times and stops at the first error.\<close>

fun timesR :: "nat \<Rightarrow> ('s \<Rightarrow> ('e, 's) res) \<Rightarrow> 's \<Rightarrow> ('e, 's) res" where
  "timesR 0 f s = Ok s"
| "timesR (Suc n) f s = bindR (f s) (timesR n f)"

definition DropN :: "int \<Rightarrow> stack \<Rightarrow> stack script_res" where
  "DropN n s =
    (if n < 1 then Err ErrStackInvalidArgs
     else timesR (nat n) (\<lambda>s. bindR (PopByteArray s) (\<lambda>(so, s'). Ok s')) s)"

definition DupN :: "int \<Rightarrow> stack \<Rightarrow> stack script_res" where
  "DupN n s =
    (if n < 1 then Err ErrStackInvalidArgs
     else timesR (nat n) (\<lambda>s. bindR (PeekByteArray (n - 1) s) (\<lambda>so. Ok (PushByteArray so s))) s)"

definition RotN :: "int \<Rightarrow> stack \<Rightarrow> stack script_res" where
  "RotN n s =
    (if n < 1 then Err ErrStackInvalidArgs
     else timesR (nat n) (\<lambda>s. bindR (nipN (3 * n - 1) s) (\<lambda>(so, s'). Ok (PushByteArray so s'))) s)"

definition SwapN :: "int \<Rightarrow> stack \<Rightarrow> stack script_res" where
  "SwapN n s =
    (if n < 1 then Err ErrStackInvalidArgs
     else timesR (nat n) (\<lambda>s. bindR (nipN (2 * n - 1) s) (\<lambda>(so, s'). Ok (PushByteArray so s'))) s)"

definition OverN :: "int \<Rightarrow> stack \<Rightarrow> stack script_res" where
  "OverN n s =
    (if n < 1 then Err ErrStackInvalidArgs
     else timesR (nat n) (\<lambda>s. bindR (PeekByteArray (2 * n - 1) s) (\<lambda>so. Ok (PushByteArray so s))) s)"

definition PickN :: "int \<Rightarrow> stack \<Rightarrow> stack script_res" where
  "PickN n s = bindR (PeekByteArray n s) (\<lambda>so. Ok (PushByteArray so s))"

definition RollN :: "int \<Rightarrow> stack \<Rightarrow> stack script_res" where
  "RollN n s = bindR (nipN n s) (\<lambda>(so, s'). Ok (PushByteArray so s'))"

section \<open>The interface of an indexed stack\<close>

text \<open>What the loops over several elements rely on: the content is a list, bottom first; \<open>push\<close> appends,
  \<open>nip\<close> removes the element that has the given number of elements above it, \<open>peek\<close> reads it.\<close>

locale indexed_stack =
  fixes content :: "'s \<Rightarrow> 'x list"
    and set_content :: "'x list \<Rightarrow> 's \<Rightarrow> 's"
    and push :: "'x \<Rightarrow> 's \<Rightarrow> 's"
    and nip :: "int \<Rightarrow> 's \<Rightarrow> ('e, 'x \<times> 's) res"
    and peek :: "int \<Rightarrow> 's \<Rightarrow> ('e, 'x) res"
    and underflow :: 'e
  assumes content_set [simp]: "content (set_content xs s) = xs"
    and set_set [simp]: "set_content xs (set_content ys s) = set_content xs s"
    and set_same [simp]: "set_content (content s) s = s"
    and push_content: "push x s = set_content (content s @ [x]) s"
    and nip_content: "content s = xs @ x # ys \<Longrightarrow> nip (int (length ys)) s = Ok (x, set_content (xs @ ys) s)"
    and nip_underflow: "int (length (content s)) \<le> idx \<Longrightarrow> nip idx s = Err underflow"
    and peek_content: "content s = xs @ x # ys \<Longrightarrow> peek (int (length ys)) s = Ok x"
    and peek_underflow: "int (length (content s)) \<le> idx \<Longrightarrow> peek idx s = Err underflow"
begin

lemma roll_loop:
  assumes "content s = xs @ a @ b"
  shows "timesR (length a) (\<lambda>s. bindR (nip (int (length a + length b) - 1) s) (\<lambda>(so, s'). Ok (push so s'))) s =
    Ok (set_content (xs @ b @ a) s)"
  using assms
proof (induction a arbitrary: b s)
  case Nil
  then show ?case by (metis append_Nil append_Nil2 list.size(3) set_same timesR.simps(1))
next
  case (Cons x a)
  have "nip (int (length (a @ b))) s = Ok (x, set_content (xs @ a @ b) s)"
    using nip_content [of s xs x "a @ b"] Cons.prems by simp
  then have "nip (int (length (x # a) + length b) - 1) s = Ok (x, set_content (xs @ a @ b) s)" by simp
  then show ?case
    using Cons.IH [of "set_content (xs @ a @ b @ [x]) s" "b @ [x]"] by (simp add: push_content)
qed

lemma pick_loop:
  assumes "content s = xs @ t @ e"
  shows "timesR (length t) (\<lambda>s. bindR (peek (int (length t + length e) - 1) s) (\<lambda>so. Ok (push so s))) s =
    Ok (set_content (xs @ t @ e @ t) s)"
  using assms
proof (induction t arbitrary: xs e s)
  case Nil
  then show ?case by (metis append_Nil append_Nil2 list.size(3) set_same timesR.simps(1))
next
  case (Cons x t)
  have "peek (int (length (t @ e))) s = Ok x"
    using peek_content [of s xs x "t @ e"] Cons.prems by simp
  then have "peek (int (length (x # t) + length e) - 1) s = Ok x" by simp
  then show ?case
    using Cons.IH [of "set_content (xs @ x # t @ e @ [x]) s" "xs @ [x]" "e @ [x]"] Cons.prems
    by (simp add: push_content)
qed

lemma drop_loop:
  assumes "content s = xs @ a"
  shows "timesR (length a) (\<lambda>s. bindR (nip 0 s) (\<lambda>(so, s'). Ok s')) s = Ok (set_content xs s)"
  using assms
proof (induction a arbitrary: s rule: rev_induct)
  case Nil
  then show ?case by (metis append_Nil2 list.size(3) set_same timesR.simps(1))
next
  case (snoc x a)
  have "nip 0 s = Ok (x, set_content (xs @ a) s)" using nip_content [of s "xs @ a" x "[]"] snoc.prems by simp
  then show ?case using snoc.IH [of "set_content (xs @ a) s"] by simp
qed

lemma drop_loop_underflow:
  assumes "length (content s) < n"
  shows "timesR n (\<lambda>s. bindR (nip 0 s) (\<lambda>(so, s'). Ok s')) s = Err underflow"
  using assms
proof (induction n arbitrary: s)
  case (Suc n)
  show ?case
  proof (cases "content s" rule: rev_cases)
    case Nil
    then show ?thesis using nip_underflow [of s 0] by simp
  next
    case (snoc xs x)
    then have "nip 0 s = Ok (x, set_content xs s)" using nip_content [of s xs x "[]"] by simp
    then show ?thesis using Suc.IH [of "set_content xs s"] Suc.prems snoc by simp
  qed
qed simp

end

section \<open>The script stack is an indexed stack\<close>

lemma nipN_content:
  assumes "stk s = xs @ x # ys"
  shows "nipN (int (length ys)) s = Ok (x, s\<lparr> stk := xs @ ys \<rparr>)"
  using assms by (cases "ys = []"; cases xs) (simp_all add: nipN_def Let_def nth_append nat_add_distrib)

lemma nipN_underflow: "int (length (stk s)) \<le> idx \<or> idx < 0 \<Longrightarrow> nipN idx s = Err ErrStackUnderflow"
  by (auto simp: nipN_def Let_def)

lemma Peek_content:
  assumes "stk s = xs @ x # ys"
  shows "PeekByteArray (int (length ys)) s = Ok x"
  using assms by (simp add: PeekByteArray_def Let_def nth_append nat_add_distrib)

lemma Peek_underflow: "int (length (stk s)) \<le> idx \<or> idx < 0 \<Longrightarrow> PeekByteArray idx s = Err ErrStackUnderflow"
  by (auto simp: PeekByteArray_def Let_def)

interpretation script_stack: indexed_stack stk "\<lambda>xs s. s\<lparr> stk := xs \<rparr>" PushByteArray nipN PeekByteArray
  ErrStackUnderflow
  by unfold_locales (auto simp: PushByteArray_def nipN_content nipN_underflow Peek_content Peek_underflow)

lemma PopByteArray_simps [simp]:
  "stk s = xs @ [x] \<Longrightarrow> PopByteArray s = Ok (x, s\<lparr> stk := xs \<rparr>)"
  "stk s = [] \<Longrightarrow> PopByteArray s = Err ErrStackUnderflow"
  using nipN_content [of s xs x "[]"] nipN_underflow [of s 0] by (simp_all add: PopByteArray_def)

text \<open>The first failing iteration decides: too few elements is an underflow.\<close>

lemma timesR_first_Err: "0 < n \<Longrightarrow> f s = Err e \<Longrightarrow> timesR n f s = Err e"
  by (cases n) auto

lemma split_top: "k \<le> length xs \<Longrightarrow> xs = take (length xs - k) xs @ drop (length xs - k) xs"
  by simp

text \<open>Stack manipulation. The loops that move or copy several elements implement, for a positive
  \<open>n\<close>, the list operations their comments draw: with fewer elements than needed they fail with an underflow,
  otherwise \<open>DropN\<close> removes the top \<open>n\<close>, \<open>DupN\<close> repeats the top \<open>n\<close>, \<open>SwapN\<close> exchanges the two topmost
  groups of \<open>n\<close>, \<open>OverN\<close> copies the second group to the top and \<open>RotN\<close> moves the third group to the top.\<close>

theorem stack_manipulation:
  assumes "0 < n" "stk s = xs"
  shows "(length xs < n \<longrightarrow> DropN (int n) s = Err ErrStackUnderflow \<and> DupN (int n) s = Err ErrStackUnderflow) \<and>
    (length xs < 2 * n \<longrightarrow> SwapN (int n) s = Err ErrStackUnderflow \<and> OverN (int n) s = Err ErrStackUnderflow) \<and>
    (length xs < 3 * n \<longrightarrow> RotN (int n) s = Err ErrStackUnderflow) \<and>
    (xs = zs @ a \<and> length a = n \<longrightarrow>
      DropN (int n) s = Ok (s\<lparr> stk := zs \<rparr>) \<and> DupN (int n) s = Ok (s\<lparr> stk := zs @ a @ a \<rparr>)) \<and>
    (xs = zs @ a @ b \<and> length a = n \<and> length b = n \<longrightarrow>
      SwapN (int n) s = Ok (s\<lparr> stk := zs @ b @ a \<rparr>) \<and> OverN (int n) s = Ok (s\<lparr> stk := zs @ a @ b @ a \<rparr>)) \<and>
    (xs = zs @ a @ b @ c \<and> length a = n \<and> length b = n \<and> length c = n \<longrightarrow>
      RotN (int n) s = Ok (s\<lparr> stk := zs @ b @ c @ a \<rparr>))"
proof -
  have u1: "DropN (int n) s = Err ErrStackUnderflow \<and> DupN (int n) s = Err ErrStackUnderflow" if "length xs < n"
    using that assms script_stack.drop_loop_underflow [of s n] Peek_underflow [of s "int n - 1"]
    by (auto simp: DropN_def DupN_def PopByteArray_def intro!: timesR_first_Err)
  have u2: "SwapN (int n) s = Err ErrStackUnderflow \<and> OverN (int n) s = Err ErrStackUnderflow" if "length xs < 2 * n"
    using that assms nipN_underflow [of s "2 * int n - 1"] Peek_underflow [of s "2 * int n - 1"]
    by (auto simp: SwapN_def OverN_def intro!: timesR_first_Err)
  have u3: "RotN (int n) s = Err ErrStackUnderflow" if "length xs < 3 * n"
    using that assms nipN_underflow [of s "3 * int n - 1"] by (auto simp: RotN_def intro!: timesR_first_Err)
  have o1: "DropN (int n) s = Ok (s\<lparr> stk := zs \<rparr>) \<and> DupN (int n) s = Ok (s\<lparr> stk := zs @ a @ a \<rparr>)"
    if "xs = zs @ a" "length a = n"
    using that assms script_stack.drop_loop [of s zs a] script_stack.pick_loop [of s zs a "[]"]
    by (simp add: DropN_def DupN_def PopByteArray_def)
  have o2: "SwapN (int n) s = Ok (s\<lparr> stk := zs @ b @ a \<rparr>) \<and> OverN (int n) s = Ok (s\<lparr> stk := zs @ a @ b @ a \<rparr>)"
    if "xs = zs @ a @ b" "length a = n" "length b = n"
    using that assms script_stack.roll_loop [of s zs a b] script_stack.pick_loop [of s zs a b]
    by (simp add: SwapN_def OverN_def)
  have o3: "RotN (int n) s = Ok (s\<lparr> stk := zs @ b @ c @ a \<rparr>)"
    if "xs = zs @ a @ b @ c" "length a = n" "length b = n" "length c = n"
    using that assms script_stack.roll_loop [of s zs a "b @ c"] by (simp add: RotN_def)
  show ?thesis using u1 u2 u3 o1 o2 o3 by blast
qed

theorem stack_manipulation_witness:
  "RotN 2 \<lparr> stk = [[9], [1], [2], [3], [4], [5], [6]], verifyMinimalData = True \<rparr> =
    Ok \<lparr> stk = [[9], [3], [4], [5], [6], [1], [2]], verifyMinimalData = True \<rparr> \<and>
   RotN 2 \<lparr> stk = [[1], [2], [3], [4], [5]], verifyMinimalData = True \<rparr> = Err ErrStackUnderflow"
  using stack_manipulation [of 2 "\<lparr> stk = [[9], [1], [2], [3], [4], [5], [6]], verifyMinimalData = True \<rparr>"
      "[[9], [1], [2], [3], [4], [5], [6]]" "[[9]]" "[[1], [2]]" "[[3], [4]]" "[[5], [6]]"]
    stack_manipulation [of 2 "\<lparr> stk = [[1], [2], [3], [4], [5]], verifyMinimalData = True \<rparr>"
      "[[1], [2], [3], [4], [5]]"]
  by simp

end
