(* ===== verification/Engine_Ops.thy ===== *)
theory Engine_Ops
  imports SigHash Script_Stack
begin

text \<open>
  The state of the script engine (\<^verbatim>\<open>txscript/engine.go\<close>) and the handlers of the opcodes (\<^verbatim>\<open>txscript/opcode.go\<close>).
  A handler takes the instruction and the engine and returns the engine after it or the error; the engine is
  discarded after an error, so the error carries no state. The script index, the offset, the input index and
  the depths are natural numbers: \<^verbatim>\<open>NewEngine\<close> rejects a negative input index and the others only grow from 0.
  The messages of formatted errors are fixed texts. The theory shows what every handler leaves unchanged
  and which invariant of the rest it keeps.
\<close>

record Engine =
  scripts :: "parsedOpcode list list"
  scriptIdx :: nat
  scriptOff :: nat
  lastCodeSep :: nat
  dstack :: stack
  astack :: stack
  eng_tx :: MsgTx
  txIdx :: nat
  condStack :: "int list"
  numOps :: int
  flags :: u32
  sigCache :: "SigCache option"
  hashCache :: "TxSigHashes option"
  witnessVersion :: int
  witnessProgram :: "byte list option"
  witnessExtProg :: "parsedOpcode list"
  inputAmount :: int

type_synonym handler = "parsedOpcode \<Rightarrow> Engine \<Rightarrow> Engine script_res"

abbreviation (input) OpCondFalse :: int where "OpCondFalse \<equiv> 0"
abbreviation (input) OpCondTrue :: int where "OpCondTrue \<equiv> 1"
abbreviation (input) OpCondSkip :: int where "OpCondSkip \<equiv> 2"

definition hasFlag :: "Engine \<Rightarrow> u32 \<Rightarrow> bool" where
  "hasFlag vm flag = (flags vm AND flag = flag)"

definition isBranchExecuting :: "Engine \<Rightarrow> bool" where
  "isBranchExecuting vm = (if condStack vm = [] then True else last (condStack vm) = OpCondTrue)"

definition isWitnessVersionActive :: "Engine \<Rightarrow> int \<Rightarrow> bool" where
  "isWitnessVersionActive vm version = (witnessProgram vm \<noteq> None \<and> witnessVersion vm = version)"

definition subScript :: "Engine \<Rightarrow> parsedOpcode list script_res" where
  "subScript vm =
    bindR (at (scripts vm) (scriptIdx vm)) (\<lambda>script.
    if lastCodeSep vm \<le> length script then Ok (drop (lastCodeSep vm) script) else Panic)"

text \<open>A handler that only calls one operation of the data stack.\<close>

definition on_dstack :: "(stack \<Rightarrow> stack script_res) \<Rightarrow> Engine \<Rightarrow> Engine script_res" where
  "on_dstack f vm = bindR (f (dstack vm)) (\<lambda>s. Ok (vm\<lparr> dstack := s \<rparr>))"

section \<open>Constants and pushes\<close>

definition opcodeDisabled :: handler where "opcodeDisabled pop vm = Err ErrStackOpDisabled"
definition opcodeReserved :: handler where "opcodeReserved pop vm = Err ErrStackReservedOpcode"
definition opcodeInvalid :: handler where "opcodeInvalid pop vm = Err ErrStackInvalidOpcode"

definition opcodeFalse :: handler where
  "opcodeFalse pop vm = on_dstack (\<lambda>s. Ok (PushByteArray [] s)) vm"

definition opcodePushData :: handler where
  "opcodePushData pop vm = on_dstack (\<lambda>s. Ok (PushByteArray (pop_data pop) s)) vm"

definition opcode1Negate :: handler where
  "opcode1Negate pop vm = on_dstack (PushInt (- 1)) vm"

definition opcodeN :: handler where
  "opcodeN pop vm = on_dstack (PushInt (uint (pop_value pop - (OP_1 - 1)))) vm"

definition opcodeNop :: handler where
  "opcodeNop pop vm =
    (if pop_value pop \<in> set [OP_NOP1, OP_NOP4, OP_NOP5, OP_NOP6, OP_NOP7, OP_NOP8, OP_NOP9, OP_NOP10] \<and>
        hasFlag vm ScriptDiscourageUpgradableNops
     then Err (ErrText ''OP_NOP reserved for soft-fork upgrades'')
     else Ok vm)"

section \<open>Control\<close>

definition opcodeIf :: handler where
  "opcodeIf pop vm =
    (if isBranchExecuting vm then
       bindR (PopBool (dstack vm)) (\<lambda>(ok, s).
       Ok (vm\<lparr> dstack := s, condStack := condStack vm @ [if ok then OpCondTrue else OpCondFalse] \<rparr>))
     else Ok (vm\<lparr> condStack := condStack vm @ [OpCondSkip] \<rparr>))"

definition opcodeNotIf :: handler where
  "opcodeNotIf pop vm =
    (if isBranchExecuting vm then
       bindR (PopBool (dstack vm)) (\<lambda>(ok, s).
       Ok (vm\<lparr> dstack := s, condStack := condStack vm @ [if \<not> ok then OpCondTrue else OpCondFalse] \<rparr>))
     else Ok (vm\<lparr> condStack := condStack vm @ [OpCondSkip] \<rparr>))"

definition opcodeElse :: handler where
  "opcodeElse pop vm =
    (if length (condStack vm) = 0 then Err ErrStackNoIf
     else
       let conditionalIdx = length (condStack vm) - 1; c = condStack vm ! conditionalIdx in
       if c = OpCondTrue then Ok (vm\<lparr> condStack := (condStack vm)[conditionalIdx := OpCondFalse] \<rparr>)
       else if c = OpCondFalse then Ok (vm\<lparr> condStack := (condStack vm)[conditionalIdx := OpCondTrue] \<rparr>)
       else Ok vm)"

definition opcodeEndif :: handler where
  "opcodeEndif pop vm =
    (if length (condStack vm) = 0 then Err ErrStackNoIf
     else Ok (vm\<lparr> condStack := take (length (condStack vm) - 1) (condStack vm) \<rparr>))"

definition opcodeVerify :: handler where
  "opcodeVerify pop vm =
    bindR (PopBool (dstack vm)) (\<lambda>(verified, s).
    if \<not> verified then Err ErrStackVerifyFailed else Ok (vm\<lparr> dstack := s \<rparr>))"

definition opcodeReturn :: handler where "opcodeReturn pop vm = Err ErrStackEarlyReturn"

definition verifyLockTime :: "u64 \<Rightarrow> u64 \<Rightarrow> u64 \<Rightarrow> unit script_res" where
  "verifyLockTime txLockTime threshold lockTime =
    (if \<not> (txLockTime < threshold \<and> lockTime < threshold \<or> txLockTime \<ge> threshold \<and> lockTime \<ge> threshold)
     then Err (ErrText ''[CSV] mismatched locktime types'')
     else if lockTime > txLockTime then Err (ErrText ''[CSV] locktime requirement not satisfied'')
     else Ok ())"

definition opcodeCheckLockTimeVerify :: handler where
  "opcodeCheckLockTimeVerify pop vm =
    bindR (PeekByteArray 0 (dstack vm)) (\<lambda>so.
    bindR (makeScriptNum so (verifyMinimalData (dstack vm)) 5) (\<lambda>lockTime.
    let txLock = tx_LockTime (eng_tx vm); threshold = LockTimeThreshold in
    if lockTime < 0 then Err (ErrText ''negative locktime'')
    else if \<not> (txLock < threshold \<and> lockTime < sint threshold \<or> txLock \<ge> threshold \<and> lockTime \<ge> sint threshold)
    then Err (ErrText ''mismatched locktime types'')
    else if lockTime > sint txLock then Err (ErrText ''locktime requirement not satisfied'')
    else
      bindR (at (tx_TxIn (eng_tx vm)) (txIdx vm)) (\<lambda>ti.
      if Sequence ti = MaxTxInSequenceNum then Err (ErrText ''transaction input is finalized'')
      else Ok vm)))"

definition opcodeCheckSequenceVerify :: handler where
  "opcodeCheckSequenceVerify pop vm =
    bindR (PeekByteArray 0 (dstack vm)) (\<lambda>so.
    bindR (makeScriptNum so (verifyMinimalData (dstack vm)) 9) (\<lambda>stackSequence.
    if stackSequence < 0 then Err (ErrText ''negative locktime'')
    else
      let sequence = (word_of_int stackSequence :: u64) in
      if sequence AND SequenceLockTimeDisabled \<noteq> 0 then Ok vm
      else
        bindR (at (tx_TxIn (eng_tx vm)) (txIdx vm)) (\<lambda>ti.
        let txSequence = Sequence ti in
        if txSequence AND SequenceLockTimeDisabled \<noteq> 0
        then Err (ErrText ''transaction sequence has sequence locktime disabled bit set'')
        else
          let lockTimeMask = SequenceLockTimeIsSeconds OR SequenceLockTimeMask in
          bindR (verifyLockTime (txSequence AND lockTimeMask) SequenceLockTimeIsSeconds (sequence AND lockTimeMask)) (\<lambda>_.
          Ok vm))))"

section \<open>Stacks\<close>

definition opcodeToAltStack :: handler where
  "opcodeToAltStack pop vm =
    bindR (PopByteArray (dstack vm)) (\<lambda>(so, s). Ok (vm\<lparr> dstack := s, astack := PushByteArray so (astack vm) \<rparr>))"

definition opcodeFromAltStack :: handler where
  "opcodeFromAltStack pop vm =
    bindR (PopByteArray (astack vm)) (\<lambda>(so, s). Ok (vm\<lparr> astack := s, dstack := PushByteArray so (dstack vm) \<rparr>))"

definition opcode2Drop :: handler where "opcode2Drop pop vm = on_dstack (DropN 2) vm"
definition opcode2Dup :: handler where "opcode2Dup pop vm = on_dstack (DupN 2) vm"
definition opcode3Dup :: handler where "opcode3Dup pop vm = on_dstack (DupN 3) vm"
definition opcode2Over :: handler where "opcode2Over pop vm = on_dstack (OverN 2) vm"
definition opcode2Rot :: handler where "opcode2Rot pop vm = on_dstack (RotN 2) vm"
definition opcode2Swap :: handler where "opcode2Swap pop vm = on_dstack (SwapN 2) vm"

definition opcodeIfDup :: handler where
  "opcodeIfDup pop vm =
    bindR (PeekByteArray 0 (dstack vm)) (\<lambda>so.
    Ok (if asBool so then vm\<lparr> dstack := PushByteArray so (dstack vm) \<rparr> else vm))"

definition opcodeDepth :: handler where
  "opcodeDepth pop vm = on_dstack (PushInt (Depth (dstack vm))) vm"

definition opcodeDrop :: handler where "opcodeDrop pop vm = on_dstack (DropN 1) vm"
definition opcodeDup :: handler where "opcodeDup pop vm = on_dstack (DupN 1) vm"
definition opcodeNip :: handler where "opcodeNip pop vm = on_dstack (NipN 1) vm"
definition opcodeOver :: handler where "opcodeOver pop vm = on_dstack (OverN 1) vm"

definition opcodePick :: handler where
  "opcodePick pop vm = on_dstack (\<lambda>s. bindR (PopInt s) (\<lambda>(val, s). PickN (scriptNum_Int32 val) s)) vm"

definition opcodeRoll :: handler where
  "opcodeRoll pop vm = on_dstack (\<lambda>s. bindR (PopInt s) (\<lambda>(val, s). RollN (scriptNum_Int32 val) s)) vm"

definition opcodeRot :: handler where "opcodeRot pop vm = on_dstack (RotN 1) vm"
definition opcodeSwap :: handler where "opcodeSwap pop vm = on_dstack (SwapN 1) vm"
definition opcodeTuck :: handler where "opcodeTuck pop vm = on_dstack Tuck vm"

section \<open>Splice and comparison of bytes\<close>

definition opcodeSize :: handler where
  "opcodeSize pop vm =
    on_dstack (\<lambda>s. bindR (PeekByteArray 0 s) (\<lambda>so. PushInt (int (length so)) s)) vm"

definition opcodeEqual :: handler where
  "opcodeEqual pop vm =
    on_dstack (\<lambda>s. bindR (PopByteArray s) (\<lambda>(a, s). bindR (PopByteArray s) (\<lambda>(b, s). Ok (PushBool (a = b) s)))) vm"

definition opcodeEqualVerify :: handler where
  "opcodeEqualVerify pop vm = bindR (opcodeEqual pop vm) (opcodeVerify pop)"

section \<open>Numbers\<close>

text \<open>The shapes of the numeric handlers: one or two numbers are popped and one is pushed. \<open>v0\<close> is the top
  number, \<open>v1\<close> the one below.\<close>

definition unary_num :: "(int \<Rightarrow> int) \<Rightarrow> Engine \<Rightarrow> Engine script_res" where
  "unary_num f vm = on_dstack (\<lambda>s. bindR (PopInt s) (\<lambda>(m, s). PushInt (f m) s)) vm"

definition binary_num :: "(int \<Rightarrow> int \<Rightarrow> int) \<Rightarrow> Engine \<Rightarrow> Engine script_res" where
  "binary_num f vm =
    on_dstack (\<lambda>s. bindR (PopInt s) (\<lambda>(v0, s). bindR (PopInt s) (\<lambda>(v1, s). PushInt (f v0 v1) s))) vm"

definition opcode1Add :: handler where "opcode1Add pop vm = unary_num (\<lambda>m. wrap64 (m + 1)) vm"
definition opcode1Sub :: handler where "opcode1Sub pop vm = unary_num (\<lambda>m. wrap64 (m - 1)) vm"
definition opcodeNegate :: handler where "opcodeNegate pop vm = unary_num (\<lambda>m. wrap64 (- m)) vm"
definition opcodeAbs :: handler where "opcodeAbs pop vm = unary_num (\<lambda>m. if m < 0 then wrap64 (- m) else m) vm"
definition opcodeNot :: handler where "opcodeNot pop vm = unary_num (\<lambda>m. if m = 0 then 1 else 0) vm"
definition opcode0NotEqual :: handler where "opcode0NotEqual pop vm = unary_num (\<lambda>m. if m \<noteq> 0 then 1 else m) vm"
definition opcodeAdd :: handler where "opcodeAdd pop vm = binary_num (\<lambda>v0 v1. wrap64 (v0 + v1)) vm"
definition opcodeSub :: handler where "opcodeSub pop vm = binary_num (\<lambda>v0 v1. wrap64 (v1 - v0)) vm"
definition opcodeBoolAnd :: handler where
  "opcodeBoolAnd pop vm = binary_num (\<lambda>v0 v1. if v0 \<noteq> 0 \<and> v1 \<noteq> 0 then 1 else 0) vm"
definition opcodeBoolOr :: handler where
  "opcodeBoolOr pop vm = binary_num (\<lambda>v0 v1. if v0 \<noteq> 0 \<or> v1 \<noteq> 0 then 1 else 0) vm"
definition opcodeNumEqual :: handler where
  "opcodeNumEqual pop vm = binary_num (\<lambda>v0 v1. if v0 = v1 then 1 else 0) vm"
definition opcodeNumEqualVerify :: handler where
  "opcodeNumEqualVerify pop vm = bindR (opcodeNumEqual pop vm) (opcodeVerify pop)"
definition opcodeNumNotEqual :: handler where
  "opcodeNumNotEqual pop vm = binary_num (\<lambda>v0 v1. if v0 \<noteq> v1 then 1 else 0) vm"
definition opcodeLessThan :: handler where
  "opcodeLessThan pop vm = binary_num (\<lambda>v0 v1. if v1 < v0 then 1 else 0) vm"
definition opcodeGreaterThan :: handler where
  "opcodeGreaterThan pop vm = binary_num (\<lambda>v0 v1. if v1 > v0 then 1 else 0) vm"
definition opcodeLessThanOrEqual :: handler where
  "opcodeLessThanOrEqual pop vm = binary_num (\<lambda>v0 v1. if v1 \<le> v0 then 1 else 0) vm"
definition opcodeGreaterThanOrEqual :: handler where
  "opcodeGreaterThanOrEqual pop vm = binary_num (\<lambda>v0 v1. if v1 \<ge> v0 then 1 else 0) vm"
definition opcodeMin :: handler where "opcodeMin pop vm = binary_num (\<lambda>v0 v1. if v1 < v0 then v1 else v0) vm"
definition opcodeMax :: handler where "opcodeMax pop vm = binary_num (\<lambda>v0 v1. if v1 > v0 then v1 else v0) vm"

definition opcodeWithin :: handler where
  "opcodeWithin pop vm =
    on_dstack (\<lambda>s.
      bindR (PopInt s) (\<lambda>(maxVal, s).
      bindR (PopInt s) (\<lambda>(minVal, s).
      bindR (PopInt s) (\<lambda>(x, s).
      PushInt (if x \<ge> minVal \<and> x < maxVal then 1 else 0) s)))) vm"

section \<open>Hashes\<close>

definition hash_top :: "(byte list \<Rightarrow> byte list) \<Rightarrow> Engine \<Rightarrow> Engine script_res" where
  "hash_top f vm = on_dstack (\<lambda>s. bindR (PopByteArray s) (\<lambda>(buf, s). Ok (PushByteArray (f buf) s))) vm"

definition opcodeRipemd160 :: "('pk, 'sig) crypto \<Rightarrow> handler" where
  "opcodeRipemd160 C pop vm = hash_top (ripemd160_Sum C) vm"

definition opcodeSha1 :: handler where "opcodeSha1 pop vm = hash_top sha1_Sum vm"
definition opcodeSha256 :: handler where "opcodeSha256 pop vm = hash_top sha256_Sum256 vm"

definition opcodeHash160 :: "('pk, 'sig) crypto \<Rightarrow> handler" where
  "opcodeHash160 C pop vm = hash_top (\<lambda>buf. ripemd160_Sum C (sha256_Sum256 buf)) vm"

definition opcodeHash256 :: handler where "opcodeHash256 pop vm = hash_top DoubleHashB vm"

definition opcodeCodeSeparator :: handler where
  "opcodeCodeSeparator pop vm = Ok (vm\<lparr> lastCodeSep := scriptOff vm \<rparr>)"

section \<open>Encodings of keys and signatures\<close>

definition checkHashTypeEncoding :: "u32 \<Rightarrow> unit script_res" where
  "checkHashTypeEncoding hashType =
    (let sigHashType = hashType AND NOT SigHashAnyOneCanPay in
     if sigHashType < SigHashAll \<or> sigHashType > SigHashSingle then Err (ErrText ''invalid hashtype'') else Ok ())"

definition checkPubKeyEncoding :: "('pk, 'sig) crypto \<Rightarrow> Engine \<Rightarrow> byte list \<Rightarrow> unit script_res" where
  "checkPubKeyEncoding C vm pubKey =
    (if isWitnessVersionActive vm 0 \<and> \<not> IsCompressedPubKey C pubKey then Err ErrWitnessPubKeyType
     else if length pubKey = 33 \<and> (pubKey ! 0 = 0x02 \<or> pubKey ! 0 = 0x03) then Ok ()
     else if length pubKey = 65 \<and> pubKey ! 0 = 0x04 then Ok ()
     else Err ErrStackInvalidPubKey)"

definition halfOrder :: "('pk, 'sig) crypto \<Rightarrow> int" where
  "halfOrder C = big_Rsh (S256_N C) 1"

definition checkSignatureEncoding :: "('pk, 'sig) crypto \<Rightarrow> byte list \<Rightarrow> unit script_res" where
  "checkSignatureEncoding C sig =
    (let malformed = (\<lambda>text. Err (ErrText text)) in
     if length sig < 8 then malformed ''malformed signature: too short''
     else if length sig > 72 then malformed ''malformed signature: too long''
     else if sig ! 0 \<noteq> 0x30 then malformed ''malformed signature: format has wrong type''
     else if unat (sig ! 1) \<noteq> length sig - 2 then malformed ''malformed signature: bad length''
     else
       let rLen = unat (sig ! 3) in
       if rLen + 5 > length sig then malformed ''malformed signature: S out of bounds''
       else
         bindR (at sig (rLen + 5)) (\<lambda>sLenByte.
         let sLen = unat sLenByte in
         if rLen + sLen + 6 \<noteq> length sig then malformed ''malformed signature: invalid R length''
         else if sig ! 2 \<noteq> 0x02 then malformed ''malformed signature: missing first integer marker''
         else if rLen = 0 then malformed ''malformed signature: R length is zero''
         else if sig ! 4 AND 0x80 \<noteq> 0 then malformed ''malformed signature: R value is negative''
         else if rLen > 1 \<and> sig ! 4 = 0x00 \<and> sig ! 5 AND 0x80 = 0 then malformed ''malformed signature: invalid R value''
         else if sig ! (rLen + 4) \<noteq> 0x02 then malformed ''malformed signature: missing second integer marker''
         else if sLen = 0 then malformed ''malformed signature: S length is zero''
         else
           bindR (at sig (rLen + 6)) (\<lambda>s0.
           if s0 AND 0x80 \<noteq> 0 then malformed ''malformed signature: S value is negative''
           else
             bindR (if sLen > 1 \<and> s0 = 0x00 then bindR (at sig (rLen + 7)) (\<lambda>s1. Ok (s1 AND 0x80 = 0)) else Ok False) (\<lambda>bad.
             if bad then malformed ''malformed signature: invalid S value''
             else
               let sValue = int (be_val (take sLen (drop (rLen + 6) sig))) in
               if big_Cmp sValue (halfOrder C) > 0 then Err ErrStackInvalidLowSSignature else Ok ()))))"

section \<open>Checking signatures\<close>

definition sig_hashes :: "Engine \<Rightarrow> TxSigHashes" where
  "sig_hashes vm = (case hashCache vm of Some h \<Rightarrow> h | None \<Rightarrow> NewTxSigHashes (eng_tx vm))"

definition opcodeCheckSig :: "('pk, 'sig) crypto \<Rightarrow> handler" where
  "opcodeCheckSig C pop vm =
    bindR (PopByteArray (dstack vm)) (\<lambda>(pkBytes, s).
    bindR (PopByteArray s) (\<lambda>(fullSigBytes, s).
    let vm = vm\<lparr> dstack := s \<rparr> in
    if length fullSigBytes < 1 then Ok (vm\<lparr> dstack := PushBool False s \<rparr>)
    else
      let hashType = (ucast (last fullSigBytes) :: u32); sigBytes = butlast fullSigBytes in
      bindR (checkHashTypeEncoding hashType) (\<lambda>_.
      bindR (checkSignatureEncoding C sigBytes) (\<lambda>_.
      bindR (checkPubKeyEncoding C vm pkBytes) (\<lambda>_.
      bindR (subScript vm) (\<lambda>sub.
      bindR (calcWitnessSignatureHash sub (sig_hashes vm) hashType (eng_tx vm) (txIdx vm) (inputAmount vm)) (\<lambda>hash.
      case ParsePubKey C pkBytes of
        None \<Rightarrow> Ok (vm\<lparr> dstack := PushBool False s \<rparr>)
      | Some pubKey \<Rightarrow>
          (case ParseDERSignature C sigBytes of
             None \<Rightarrow> Ok (vm\<lparr> dstack := PushBool False s \<rparr>)
           | Some signature \<Rightarrow>
               (let (valid, cache) = verify_cached C (sigCache vm) hash signature pubKey in
                if \<not> valid \<and> length sigBytes > 0 then Err ErrNullFail
                else Ok (vm\<lparr> dstack := PushBool valid s, sigCache := cache \<rparr>))))))))))"

definition opcodeCheckSigVerify :: "('pk, 'sig) crypto \<Rightarrow> handler" where
  "opcodeCheckSigVerify C pop vm = bindR (opcodeCheckSig C pop vm) (opcodeVerify pop)"

record 'sig parsedSigInfo =
  psi_signature :: "byte list"
  psi_parsedSignature :: "'sig option"
  psi_parsed :: bool

fun popN :: "nat \<Rightarrow> stack \<Rightarrow> (byte list list \<times> stack) script_res" where
  "popN 0 s = Ok ([], s)"
| "popN (Suc n) s = bindR (PopByteArray s) (\<lambda>(x, s). bindR (popN n s) (\<lambda>(xs, s). Ok (x # xs, s)))"

text \<open>The loop of \<^verbatim>\<open>opcodeCheckMultiSig\<close>: the lists are the signatures from \<^verbatim>\<open>signatureIdx\<close> on and the keys after
  \<^verbatim>\<open>pubKeyIdx\<close>, so \<^verbatim>\<open>numSignatures\<close> and, after its decrement, \<^verbatim>\<open>numPubKeys\<close> are their lengths.\<close>

fun multisig_loop ::
  "('pk, 'sig) crypto \<Rightarrow> parsedOpcode list \<Rightarrow> byte list list \<Rightarrow> 'sig parsedSigInfo list \<Rightarrow> Engine \<Rightarrow>
    (bool \<times> Engine) script_res" where
  "multisig_loop C script pubKeys [] vm = Ok (True, vm)"
| "multisig_loop C script [] (sigInfo # sigs) vm = Ok (False, vm)"
| "multisig_loop C script (pubKey # pubKeys) (sigInfo # sigs) vm =
    (if length (sigInfo # sigs) > length (pubKey # pubKeys) then Ok (False, vm)
     else
       let rawSig = psi_signature sigInfo in
       if length rawSig = 0 then multisig_loop C script pubKeys (sigInfo # sigs) vm
       else
         let hashType = (ucast (last rawSig) :: u32); signature = butlast rawSig in
         bindR
           (if \<not> psi_parsed sigInfo then
              bindR (checkHashTypeEncoding hashType) (\<lambda>_.
              bindR (checkSignatureEncoding C signature) (\<lambda>_.
              Ok (sigInfo\<lparr> psi_parsed := True, psi_parsedSignature := ParseDERSignature C signature \<rparr>)))
            else Ok sigInfo) (\<lambda>sigInfo.
         case psi_parsedSignature sigInfo of
           None \<Rightarrow> multisig_loop C script pubKeys (sigInfo # sigs) vm
         | Some parsedSig \<Rightarrow>
             bindR (checkPubKeyEncoding C vm pubKey) (\<lambda>_.
             case ParsePubKey C pubKey of
               None \<Rightarrow> multisig_loop C script pubKeys (sigInfo # sigs) vm
             | Some parsedPubKey \<Rightarrow>
                 bindR (calcWitnessSignatureHash script (sig_hashes vm) hashType (eng_tx vm) (txIdx vm) (inputAmount vm)) (\<lambda>hash.
                 let (valid, cache) = verify_cached C (sigCache vm) hash parsedSig parsedPubKey in
                 multisig_loop C script pubKeys (if valid then sigs else sigInfo # sigs) (vm\<lparr> sigCache := cache \<rparr>)))))"

definition opcodeCheckMultiSig :: "('pk, 'sig) crypto \<Rightarrow> handler" where
  "opcodeCheckMultiSig C pop vm =
    bindR (PopInt (dstack vm)) (\<lambda>(numKeys, s).
    let numPubKeys = scriptNum_Int32 numKeys in
    if numPubKeys < 0 then Err ErrStackInvalidPubKey
    else if numPubKeys > MaxPubKeysPerMultiSig then Err ErrStackTooManyPubKeys
    else
      let vm = vm\<lparr> numOps := numOps vm + numPubKeys \<rparr> in
      if numOps vm > MaxOpsPerScript then Err ErrTooManyOperations
      else
        bindR (popN (nat numPubKeys) s) (\<lambda>(pubKeys, s).
        bindR (PopInt s) (\<lambda>(numSigs, s).
        let numSignatures = scriptNum_Int32 numSigs in
        if numSignatures < 0 then Err ErrStackTooManyPubKeys
        else if numSignatures > numPubKeys then Err ErrStackTooManyPubKeys
        else
          bindR (popN (nat numSignatures) s) (\<lambda>(sigs, s).
          let vm = vm\<lparr> dstack := s \<rparr>;
              signatures = map (\<lambda>signature. \<lparr> psi_signature = signature, psi_parsedSignature = None, psi_parsed = False \<rparr>) sigs in
          bindR (subScript vm) (\<lambda>script.
          let script =
                (if \<not> isWitnessVersionActive vm 0 then foldl removeOpcodeByData script sigs else script) in
          bindR (multisig_loop C script pubKeys signatures vm) (\<lambda>(success, vm).
          if \<not> success \<and> list_ex (\<lambda>sig. length sig > 0) sigs then Err ErrNullFail
          else Ok (vm\<lparr> dstack := PushBool success (dstack vm) \<rparr>)))))))"

definition opcodeCheckMultiSigVerify :: "('pk, 'sig) crypto \<Rightarrow> handler" where
  "opcodeCheckMultiSigVerify C pop vm = bindR (opcodeCheckMultiSig C pop vm) (opcodeVerify pop)"

section \<open>Dispatch\<close>

primrec opfunc_run :: "opfunc \<Rightarrow> ('pk, 'sig) crypto \<Rightarrow> handler" where
  "opfunc_run Fn_False C = opcodeFalse"
| "opfunc_run Fn_PushData C = opcodePushData"
| "opfunc_run Fn_1Negate C = opcode1Negate"
| "opfunc_run Fn_Reserved C = opcodeReserved"
| "opfunc_run Fn_N C = opcodeN"
| "opfunc_run Fn_Nop C = opcodeNop"
| "opfunc_run Fn_If C = opcodeIf"
| "opfunc_run Fn_NotIf C = opcodeNotIf"
| "opfunc_run Fn_Else C = opcodeElse"
| "opfunc_run Fn_Endif C = opcodeEndif"
| "opfunc_run Fn_Verify C = opcodeVerify"
| "opfunc_run Fn_Return C = opcodeReturn"
| "opfunc_run Fn_CheckLockTimeVerify C = opcodeCheckLockTimeVerify"
| "opfunc_run Fn_CheckSequenceVerify C = opcodeCheckSequenceVerify"
| "opfunc_run Fn_ToAltStack C = opcodeToAltStack"
| "opfunc_run Fn_FromAltStack C = opcodeFromAltStack"
| "opfunc_run Fn_2Drop C = opcode2Drop"
| "opfunc_run Fn_2Dup C = opcode2Dup"
| "opfunc_run Fn_3Dup C = opcode3Dup"
| "opfunc_run Fn_2Over C = opcode2Over"
| "opfunc_run Fn_2Rot C = opcode2Rot"
| "opfunc_run Fn_2Swap C = opcode2Swap"
| "opfunc_run Fn_IfDup C = opcodeIfDup"
| "opfunc_run Fn_Depth C = opcodeDepth"
| "opfunc_run Fn_Drop C = opcodeDrop"
| "opfunc_run Fn_Dup C = opcodeDup"
| "opfunc_run Fn_Nip C = opcodeNip"
| "opfunc_run Fn_Over C = opcodeOver"
| "opfunc_run Fn_Pick C = opcodePick"
| "opfunc_run Fn_Roll C = opcodeRoll"
| "opfunc_run Fn_Rot C = opcodeRot"
| "opfunc_run Fn_Swap C = opcodeSwap"
| "opfunc_run Fn_Tuck C = opcodeTuck"
| "opfunc_run Fn_Disabled C = opcodeDisabled"
| "opfunc_run Fn_Size C = opcodeSize"
| "opfunc_run Fn_Equal C = opcodeEqual"
| "opfunc_run Fn_EqualVerify C = opcodeEqualVerify"
| "opfunc_run Fn_1Add C = opcode1Add"
| "opfunc_run Fn_1Sub C = opcode1Sub"
| "opfunc_run Fn_Negate C = opcodeNegate"
| "opfunc_run Fn_Abs C = opcodeAbs"
| "opfunc_run Fn_Not C = opcodeNot"
| "opfunc_run Fn_0NotEqual C = opcode0NotEqual"
| "opfunc_run Fn_Add C = opcodeAdd"
| "opfunc_run Fn_Sub C = opcodeSub"
| "opfunc_run Fn_BoolAnd C = opcodeBoolAnd"
| "opfunc_run Fn_BoolOr C = opcodeBoolOr"
| "opfunc_run Fn_NumEqual C = opcodeNumEqual"
| "opfunc_run Fn_NumEqualVerify C = opcodeNumEqualVerify"
| "opfunc_run Fn_NumNotEqual C = opcodeNumNotEqual"
| "opfunc_run Fn_LessThan C = opcodeLessThan"
| "opfunc_run Fn_GreaterThan C = opcodeGreaterThan"
| "opfunc_run Fn_LessThanOrEqual C = opcodeLessThanOrEqual"
| "opfunc_run Fn_GreaterThanOrEqual C = opcodeGreaterThanOrEqual"
| "opfunc_run Fn_Min C = opcodeMin"
| "opfunc_run Fn_Max C = opcodeMax"
| "opfunc_run Fn_Within C = opcodeWithin"
| "opfunc_run Fn_Ripemd160 C = opcodeRipemd160 C"
| "opfunc_run Fn_Sha1 C = opcodeSha1"
| "opfunc_run Fn_Sha256 C = opcodeSha256"
| "opfunc_run Fn_Hash160 C = opcodeHash160 C"
| "opfunc_run Fn_Hash256 C = opcodeHash256"
| "opfunc_run Fn_CodeSeparator C = opcodeCodeSeparator"
| "opfunc_run Fn_CheckSig C = opcodeCheckSig C"
| "opfunc_run Fn_CheckSigVerify C = opcodeCheckSigVerify C"
| "opfunc_run Fn_CheckMultiSig C = opcodeCheckMultiSig C"
| "opfunc_run Fn_CheckMultiSigVerify C = opcodeCheckMultiSigVerify C"
| "opfunc_run Fn_Invalid C = opcodeInvalid"

section \<open>What the handlers leave unchanged\<close>

definition frame :: "Engine \<Rightarrow> (parsedOpcode list list \<times> nat \<times> nat) \<times> (MsgTx \<times> nat \<times> u32 \<times> TxSigHashes option) \<times>
    (int \<times> byte list option \<times> parsedOpcode list \<times> int)" where
  "frame vm = ((scripts vm, scriptIdx vm, scriptOff vm), (eng_tx vm, txIdx vm, flags vm, hashCache vm),
    (witnessVersion vm, witnessProgram vm, witnessExtProg vm, inputAmount vm))"

text \<open>What the handlers keep of the rest: the count of operations is within its limit, the code separator is not
  after the current offset, and the stack of conditions holds only the three marks.\<close>

definition ops_inv :: "Engine \<Rightarrow> bool" where
  "ops_inv vm \<longleftrightarrow> 0 \<le> numOps vm \<and> numOps vm \<le> MaxOpsPerScript \<and> lastCodeSep vm \<le> scriptOff vm \<and>
    set (condStack vm) \<subseteq> {OpCondFalse, OpCondTrue, OpCondSkip}"

definition bounded_ops :: "Engine \<Rightarrow> Engine \<Rightarrow> bool" where
  "bounded_ops vm vm' \<longleftrightarrow> frame vm' = frame vm \<and> (ops_inv vm \<longrightarrow> ops_inv vm')"

lemma bounded_ops_refl [simp]: "bounded_ops vm vm"
  by (simp add: bounded_ops_def)

lemma bounded_ops_trans: "bounded_ops a b \<Longrightarrow> bounded_ops b c \<Longrightarrow> bounded_ops a c"
  by (simp add: bounded_ops_def)

lemma bounded_ops_updates [simp]:
  "bounded_ops vm (vm\<lparr> dstack := s \<rparr>)" "bounded_ops vm (vm\<lparr> astack := s \<rparr>)"
  "bounded_ops vm (vm\<lparr> lastCodeSep := scriptOff vm \<rparr>)" "bounded_ops vm (vm\<lparr> dstack := s, sigCache := k \<rparr>)"
  "bounded_ops vm (vm\<lparr> dstack := s, astack := t \<rparr>)"
  "bounded_ops vm (vm\<lparr> sigCache := k \<rparr>)" "bounded_ops vm (vm\<lparr> astack := t, dstack := s \<rparr>)"
  by (simp_all add: bounded_ops_def frame_def ops_inv_def)

lemma bounded_ops_cond [simp]:
  "bounded_ops vm (vm\<lparr> condStack := c \<rparr>) \<longleftrightarrow>
    (ops_inv vm \<longrightarrow> set c \<subseteq> {OpCondFalse, OpCondTrue, OpCondSkip})"
  "bounded_ops vm (vm\<lparr> dstack := s, condStack := c \<rparr>) \<longleftrightarrow>
    (ops_inv vm \<longrightarrow> set c \<subseteq> {OpCondFalse, OpCondTrue, OpCondSkip})"
  by (auto simp: bounded_ops_def frame_def ops_inv_def)

lemma condStack_updates [simp]:
  "ops_inv vm \<Longrightarrow> set (condStack vm) \<subseteq> {OpCondFalse, OpCondTrue, OpCondSkip}"
  "ops_inv vm \<Longrightarrow> set (take n (condStack vm)) \<subseteq> {OpCondFalse, OpCondTrue, OpCondSkip}"
  "ops_inv vm \<Longrightarrow> c \<in> {OpCondFalse, OpCondTrue, OpCondSkip} \<Longrightarrow>
    set ((condStack vm)[n := c]) \<subseteq> {OpCondFalse, OpCondTrue, OpCondSkip}"
  by (auto simp: ops_inv_def dest: in_set_takeD set_update_subset_insert [THEN subsetD])

lemma on_dstack_bounded: "okR (bounded_ops vm) (on_dstack f vm)"
  unfolding on_dstack_def by (intro okR_intros) simp

lemma opcodeVerify_bounded: "okR (bounded_ops vm) (opcodeVerify pop vm)"
  unfolding opcodeVerify_def by (intro okR_intros) simp

lemma then_verify_bounded: "okR (bounded_ops vm) r \<Longrightarrow> okR (bounded_ops vm) (bindR r (opcodeVerify pop))"
  using opcodeVerify_bounded by (auto simp: okR_def res_simps intro: bounded_ops_trans)

lemma opcodeCheckSig_bounded: "okR (bounded_ops vm) (opcodeCheckSig C pop vm)"
  unfolding opcodeCheckSig_def by (intro okR_intros) simp_all

definition same_but_cache :: "Engine \<Rightarrow> Engine \<Rightarrow> bool" where
  "same_but_cache vm vm' \<longleftrightarrow> vm'\<lparr> sigCache := None \<rparr> = vm\<lparr> sigCache := None \<rparr>"

lemma multisig_loop_same: "okR (\<lambda>(b, vm'). same_but_cache vm vm') (multisig_loop C script pks sigs vm)"
proof (induction pks arbitrary: sigs vm)
  case Nil
  then show ?case by (cases sigs) (simp_all add: okR_Ok same_but_cache_def)
next
  case (Cons pk pks)
  note ih = Cons.IH
  show ?case
  proof (cases sigs)
    case Nil
    then show ?thesis by (simp add: okR_Ok same_but_cache_def)
  next
    case (Cons sg sigs)
    show ?thesis
      unfolding Cons multisig_loop.simps
      by (intro okR_intros okR_weaken [OF ih]) (auto simp: same_but_cache_def)
  qed
qed

lemma same_but_cache_bounded: "same_but_cache vm vm' \<Longrightarrow> bounded_ops vm vm'"
  by (cases vm, cases vm') (auto simp: same_but_cache_def bounded_ops_def frame_def ops_inv_def)

lemma opcodeCheckMultiSig_bounded: "okR (bounded_ops vm) (opcodeCheckMultiSig C pop vm)"
proof -
  have "bounded_ops vm (vm1\<lparr> dstack := t \<rparr>)"
    if "multisig_loop C sc pks sg (vm\<lparr> numOps := n, dstack := s \<rparr>) = Ok (b, vm1)"
      "numOps vm \<le> n" "n \<le> MaxOpsPerScript" for sc pks sg n s b vm1 t
  proof -
    have "bounded_ops (vm\<lparr> numOps := n, dstack := s \<rparr>) vm1"
      using okRD [OF multisig_loop_same that(1)] same_but_cache_bounded by simp
    then show ?thesis using that(2,3) by (auto simp: bounded_ops_def frame_def ops_inv_def)
  qed
  then show ?thesis
    unfolding opcodeCheckMultiSig_def Let_def by (intro okR_intros) auto
qed

lemmas stack_handler_defs =
  opcodeFalse_def opcodePushData_def opcode1Negate_def opcodeN_def opcode2Drop_def opcode2Dup_def opcode3Dup_def
  opcode2Over_def opcode2Rot_def opcode2Swap_def opcodeDepth_def opcodeDrop_def opcodeDup_def opcodeNip_def
  opcodeOver_def opcodePick_def opcodeRoll_def opcodeRot_def opcodeSwap_def opcodeTuck_def opcodeSize_def
  opcodeEqual_def opcodeWithin_def

lemmas num_handler_defs =
  opcode1Add_def opcode1Sub_def opcodeNegate_def opcodeAbs_def opcodeNot_def opcode0NotEqual_def opcodeAdd_def
  opcodeSub_def opcodeBoolAnd_def opcodeBoolOr_def opcodeNumEqual_def opcodeNumNotEqual_def opcodeLessThan_def
  opcodeGreaterThan_def opcodeLessThanOrEqual_def opcodeGreaterThanOrEqual_def opcodeMin_def opcodeMax_def
  unary_num_def binary_num_def

lemmas hash_handler_defs =
  opcodeRipemd160_def opcodeSha1_def opcodeSha256_def opcodeHash160_def opcodeHash256_def hash_top_def

lemmas other_handler_defs =
  opcodeDisabled_def opcodeReserved_def opcodeInvalid_def opcodeNop_def opcodeIf_def opcodeNotIf_def
  opcodeElse_def opcodeEndif_def opcodeReturn_def opcodeCheckLockTimeVerify_def
  opcodeCheckSequenceVerify_def opcodeToAltStack_def opcodeFromAltStack_def opcodeIfDup_def opcodeCodeSeparator_def

lemma other_handlers_bounded:
  "okR (bounded_ops vm) (opcodeDisabled pop vm)"
  "okR (bounded_ops vm) (opcodeReserved pop vm)"
  "okR (bounded_ops vm) (opcodeInvalid pop vm)"
  "okR (bounded_ops vm) (opcodeNop pop vm)"
  "okR (bounded_ops vm) (opcodeIf pop vm)"
  "okR (bounded_ops vm) (opcodeNotIf pop vm)"
  "okR (bounded_ops vm) (opcodeElse pop vm)"
  "okR (bounded_ops vm) (opcodeEndif pop vm)"
  "okR (bounded_ops vm) (opcodeReturn pop vm)"
  "okR (bounded_ops vm) (opcodeCheckLockTimeVerify pop vm)"
  "okR (bounded_ops vm) (opcodeCheckSequenceVerify pop vm)"
  "okR (bounded_ops vm) (opcodeToAltStack pop vm)"
  "okR (bounded_ops vm) (opcodeFromAltStack pop vm)"
  "okR (bounded_ops vm) (opcodeIfDup pop vm)"
  "okR (bounded_ops vm) (opcodeCodeSeparator pop vm)"
  unfolding other_handler_defs by (intro okR_intros; simp)+

lemma opfunc_bounded: "okR (bounded_ops vm) (opfunc_run f C pop vm)"
proof (cases f)
qed (simp_all add: stack_handler_defs num_handler_defs hash_handler_defs on_dstack_bounded opcodeVerify_bounded
    opcodeCheckSig_bounded opcodeCheckMultiSig_bounded then_verify_bounded opcodeEqualVerify_def
    opcodeNumEqualVerify_def opcodeCheckSigVerify_def opcodeCheckMultiSigVerify_def other_handlers_bounded)

end
