(* ===== verification/ScriptBuilder.thy ===== *)
theory ScriptBuilder
  imports Script
begin

text \<open>
  \<^verbatim>\<open>txscript/scriptbuilder.go\<close>: building scripts from opcodes, integers and data. The builder is the record of
  the script so far and the first error; after an error every call returns the builder unchanged. The theory
  shows that a data push parses as one canonical instruction that pushes the data, and that integers are
  pushed as their script numbers.
\<close>

record ScriptBuilder =
  sb_script :: "byte list"
  sb_err :: "script_error option"

abbreviation ErrScriptNotCanonical :: "string \<Rightarrow> script_error" where
  "ErrScriptNotCanonical \<equiv> ErrText"

definition NewScriptBuilder :: ScriptBuilder where
  "NewScriptBuilder = \<lparr> sb_script = [], sb_err = None \<rparr>"

abbreviation sb_append :: "byte list \<Rightarrow> ScriptBuilder \<Rightarrow> ScriptBuilder" where
  "sb_append bs b \<equiv> b\<lparr> sb_script := sb_script b @ bs \<rparr>"

definition AddOp :: "byte \<Rightarrow> ScriptBuilder \<Rightarrow> ScriptBuilder" where
  "AddOp opcode b =
    (if sb_err b \<noteq> None then b
     else if length (sb_script b) + 1 > maxScriptSize
     then b\<lparr> sb_err := Some (ErrScriptNotCanonical ''adding an opcode would exceed the maximum allowed canonical script length'') \<rparr>
     else sb_append [opcode] b)"

definition canonicalDataSize :: "byte list \<Rightarrow> nat" where
  "canonicalDataSize data =
    (let dataLen = length data in
     if dataLen = 0 then 1
     else if dataLen = 1 \<and> data ! 0 \<le> 16 then 1
     else if dataLen = 1 \<and> data ! 0 = 0x81 then 1
     else if dataLen < unat OP_PUSHDATA1 then 1 + dataLen
     else if dataLen \<le> 0xff then 2 + dataLen
     else if dataLen \<le> 0xffff then 3 + dataLen
     else 5 + dataLen)"

definition addData :: "byte list \<Rightarrow> ScriptBuilder \<Rightarrow> ScriptBuilder" where
  "addData data b =
    (let dataLen = length data in
     if dataLen = 0 \<or> dataLen = 1 \<and> data ! 0 = 0 then sb_append [OP_0] b
     else if dataLen = 1 \<and> data ! 0 \<le> 16 then sb_append [(OP_1 - 1) + data ! 0] b
     else if dataLen = 1 \<and> data ! 0 = 0x81 then sb_append [OP_1NEGATE] b
     else
       let b' =
         (if dataLen < unat OP_PUSHDATA1 then sb_append [word_of_nat (unat (OP_DATA_1 - 1) + dataLen)] b
          else if dataLen \<le> 0xff then sb_append [OP_PUSHDATA1, word_of_nat dataLen] b
          else if dataLen \<le> 0xffff then sb_append (put_le 2 dataLen) (sb_append [OP_PUSHDATA2] b)
          else sb_append (put_le 4 dataLen) (sb_append [OP_PUSHDATA4] b))
       in sb_append data b')"

definition AddFullData :: "byte list \<Rightarrow> ScriptBuilder \<Rightarrow> ScriptBuilder" where
  "AddFullData data b = (if sb_err b \<noteq> None then b else addData data b)"

definition AddData :: "byte list \<Rightarrow> ScriptBuilder \<Rightarrow> ScriptBuilder" where
  "AddData data b =
    (if sb_err b \<noteq> None then b
     else if length (sb_script b) + canonicalDataSize data > maxScriptSize
     then b\<lparr> sb_err := Some (ErrScriptNotCanonical ''adding bytes of data would exceed the maximum allowed canonical script length'') \<rparr>
     else if length data > MaxScriptElementSize
     then b\<lparr> sb_err := Some (ErrScriptNotCanonical ''adding a data element would exceed the maximum allowed script element size'') \<rparr>
     else addData data b)"

definition AddInt64 :: "int \<Rightarrow> ScriptBuilder \<Rightarrow> ScriptBuilder script_res" where
  "AddInt64 val b =
    (if sb_err b \<noteq> None then Ok b
     else if length (sb_script b) + 1 > maxScriptSize
     then Ok (b\<lparr> sb_err := Some (ErrScriptNotCanonical ''adding an integer would exceed the maximum allow canonical script length'') \<rparr>)
     else if val = 0 then Ok (sb_append [OP_0] b)
     else if val = - 1 \<or> val \<ge> 1 \<and> val \<le> 16 then Ok (sb_append [word_of_int (uint (OP_1 - 1 :: byte) + val)] b)
     else bindR (scriptNum_Bytes val) (\<lambda>bs. Ok (AddData bs b)))"

definition AddCoinbaseHeight :: "int \<Rightarrow> ScriptBuilder \<Rightarrow> ScriptBuilder script_res" where
  "AddCoinbaseHeight val b =
    (if sb_err b \<noteq> None then Ok b
     else if val \<le> 0
     then Ok (b\<lparr> sb_err := Some (ErrScriptNotCanonical ''adding a coinbase height which is invalid'') \<rparr>)
     else if length (sb_script b) + 1 > maxScriptSize
     then Ok (b\<lparr> sb_err := Some (ErrScriptNotCanonical ''adding an integer would exceed the maximum allow canonical script length'') \<rparr>)
     else bindR (scriptNum_Bytes val) (\<lambda>data.
       Ok (if length (sb_script b) + canonicalDataSize data > maxScriptSize
           then b\<lparr> sb_err := Some (ErrScriptNotCanonical ''adding bytes of data would exceed the maximum allowed canonical script length'') \<rparr>
           else if length data > MaxScriptElementSize
           then b\<lparr> sb_err := Some (ErrScriptNotCanonical ''adding a data element would exceed the maximum allowed script element size'') \<rparr>
           else if length data \<le> 8
           then sb_append data (sb_append [word_of_nat (unat (OP_DATA_1 - 1) + length data)] b)
           else b\<lparr> sb_err := Some (ErrScriptNotCanonical ''adding an invalid coinbase height, which consists of more than 8 bytes'') \<rparr>)))"

definition sb_Reset :: "ScriptBuilder \<Rightarrow> ScriptBuilder" where
  "sb_Reset b = \<lparr> sb_script = [], sb_err = None \<rparr>"

definition sb_Script :: "ScriptBuilder \<Rightarrow> byte list script_res" where
  "sb_Script b = (case sb_err b of None \<Rightarrow> Ok (sb_script b) | Some e \<Rightarrow> Err e)"

section \<open>Builders make canonical scripts\<close>

text \<open>What a push instruction leaves on the stack.\<close>

definition pushed :: "parsedOpcode \<Rightarrow> byte list option" where
  "pushed pop =
    (let v = pop_value pop in
     if v = OP_0 then Some []
     else if v \<le> OP_PUSHDATA4 then Some (pop_data pop)
     else if v = OP_1NEGATE then Some [0x81]
     else if OP_1 \<le> v \<and> v \<le> OP_16 then Some [v - (OP_1 - 1)]
     else None)"

lemma parse_append:
  assumes "parseScript s = (pops, None)"
  shows "parseScript (s @ t) = (pops @ fst (parseScript t), snd (parseScript t))"
proof -
  have "list_all wf_pop pops \<Longrightarrow> unparseScript pops = Ok s \<Longrightarrow>
    parseScript (s @ t) = (pops @ fst (parseScript t), snd (parseScript t))"
  proof (induction pops arbitrary: s)
    case (Cons pop pops)
    then obtain b u where "pop_bytes pop = Ok b" "unparseScript pops = Ok u" "s = b @ u"
      by (auto simp: res_simps)
    with Cons parse_pop_bytes [of pop b "u @ t"] show ?case by simp
  qed simp
  then show ?thesis using unparse_parse [OF assms] by blast
qed

lemma parse_append_pop:
  assumes "parseScript s = (pops, None)" "wf_pop pop" "pop_bytes pop = Ok b"
  shows "parseScript (s @ b) = (pops @ [pop], None)"
  using parse_append [OF assms(1), of b] parse_pop_bytes [OF assms(2,3), of "[]"] by simp

definition push_pop :: "byte list \<Rightarrow> parsedOpcode" where
  "push_pop data =
    (if data = [] \<or> data = [0] then op_pop OP_0
     else if length data = 1 \<and> data ! 0 \<le> 16 then op_pop (OP_1 - 1 + data ! 0)
     else if data = [0x81] then op_pop OP_1NEGATE
     else if length data \<le> 75 then data_pop data
     else if length data \<le> 0xff then \<lparr> pop_opcode = opcodeArray OP_PUSHDATA1, pop_data = data \<rparr>
     else if length data \<le> 0xffff then \<lparr> pop_opcode = opcodeArray OP_PUSHDATA2, pop_data = data \<rparr>
     else \<lparr> pop_opcode = opcodeArray OP_PUSHDATA4, pop_data = data \<rparr>)"

lemma length_one: "length d = Suc 0 \<longleftrightarrow> (\<exists>x. d = [x])"
  by (auto simp: length_Suc_conv)

lemma pop_bytes_pushdata:
  assumes "op_length (opcodeArray v) = - int k" "k = 1 \<or> k = 2 \<or> k = 4" "length d < 256 ^ k"
  shows "pop_bytes \<lparr> pop_opcode = opcodeArray v, pop_data = d \<rparr> = Ok (v # put_le k (length d) @ d)"
  using assms by (auto simp: pop_bytes_def le_val_put_le simp del: put_le.simps)

lemma op_length_pushdata:
  "op_length (opcodeArray OP_PUSHDATA1) = - int 1" "op_length (opcodeArray OP_PUSHDATA2) = - int 2"
  "op_length (opcodeArray OP_PUSHDATA4) = - int 4"
  by (simp_all add: op_length_opcodeArray)

lemma wf_push_pop: "wf_pop (push_pop data)"
  by (simp add: push_pop_def)

lemma op_length_single: "v = 0 \<or> 79 \<le> v \<Longrightarrow> op_length (opcodeArray v) = 1"
  by (auto simp: op_length_opcodeArray word_le_nat_alt)

lemma small_op_range:
  assumes "(x :: byte) \<le> 16" "x \<noteq> 0"
  shows "79 \<le> 80 + x \<and> 81 \<le> 80 + x \<and> 80 + x \<le> 96 \<and> unat (80 + x) = 80 + unat x"
proof -
  have "unat x \<le> 16" "unat x \<noteq> 0" using assms by (auto simp: word_le_nat_alt unat_eq_0)
  then have "unat (80 + x) = 80 + unat x" by (subst unat_plus_if') auto
  then show ?thesis using \<open>unat x \<le> 16\<close> \<open>unat x \<noteq> 0\<close> by (simp add: word_le_nat_alt)
qed

lemma small_op_neq:
  assumes "(x :: byte) \<le> 16" "x \<noteq> 0" "unat c < 81"
  shows "80 + x \<noteq> c \<and> \<not> 80 + x \<le> c"
  using small_op_range [OF assms(1,2)] assms(3) by (auto simp: word_le_nat_alt)

lemma addData_pop:
  assumes "length data < 256 ^ 4"
  shows "\<exists>bs. pop_bytes (push_pop data) = Ok bs \<and> addData data b = sb_append bs b \<and>
    length bs = canonicalDataSize data"
proof -
  consider (s) "length data \<le> 75" | (p1) "75 < length data" "length data \<le> 0xff"
    | (p2) "0xff < length data" "length data \<le> 0xffff" | (p4) "0xffff < length data"
    by linarith
  then consider "data = [] \<or> data = [0]" | x where "data = [x]" "x \<noteq> 0" "x \<le> 16" | "data = [0x81]"
    | (d) "data \<noteq> []" "length data \<le> 75" "\<forall>x. data = [x] \<longrightarrow> \<not> x \<le> 16 \<and> x \<noteq> 0x81"
    | (p1) "75 < length data" "length data \<le> 0xff"
    | (p2) "0xff < length data" "length data \<le> 0xffff"
    | (p4) "0xffff < length data"
    by cases blast+
  then show ?thesis
  proof cases
    case 1
    then show ?thesis
      by (auto simp: push_pop_def addData_def canonicalDataSize_def pop_bytes_op op_length_single)
  next
    case (2 x)
    then show ?thesis
      using small_op_range [of x]
      by (auto simp: push_pop_def addData_def canonicalDataSize_def pop_bytes_op op_length_single)
  next
    case 3
    then show ?thesis
      by (auto simp: push_pop_def addData_def canonicalDataSize_def pop_bytes_op op_length_single)
  next
    case d
    then have "\<not> (length data = 1 \<and> (data ! 0 \<le> 16 \<or> data ! 0 = 0x81))" by (auto simp: length_one)
    with d show ?thesis
      using pop_bytes_data [of data "length data"]
      by (auto simp: push_pop_def addData_def canonicalDataSize_def Let_def)
  next
    case p1
    then show ?thesis
      using pop_bytes_pushdata [OF op_length_pushdata(1), of data]
      by (auto simp: push_pop_def addData_def canonicalDataSize_def Let_def)
  next
    case p2
    then show ?thesis
      using pop_bytes_pushdata [OF op_length_pushdata(2), of data]
      by (auto simp: push_pop_def addData_def canonicalDataSize_def Let_def simp del: put_le.simps)
  next
    case p4
    then show ?thesis
      using pop_bytes_pushdata [OF op_length_pushdata(3), of data] assms
      by (auto simp: push_pop_def addData_def canonicalDataSize_def Let_def simp del: put_le.simps)
  qed
qed

lemma pushed_push_pop: "pushed (push_pop data) = Some (if data = [0] then [] else data)"
proof -
  have "pushed (op_pop (80 + x)) = Some [x]" if "x \<le> 16" "x \<noteq> 0" for x :: byte
  proof -
    have "80 + x \<noteq> 0" "\<not> 80 + x \<le> 78" "80 + x \<noteq> 79"
      using small_op_neq [OF that, of 0] small_op_neq [OF that, of 78] small_op_neq [OF that, of 79] by auto
    then show ?thesis using small_op_range [OF that] by (simp add: pushed_def)
  qed
  moreover have "pushed (data_pop data) = Some data" if "data \<noteq> []" "length data \<le> 75"
  proof -
    have "unat (word_of_nat (length data) :: byte) = length data" using that by (simp add: unat_of_nat)
    then have "word_of_nat (length data) \<noteq> (0 :: byte)" "word_of_nat (length data) \<le> (78 :: byte)"
      using that by (auto simp: word_le_nat_alt unat_eq_0 [symmetric])
    then show ?thesis by (simp add: pushed_def)
  qed
  ultimately show ?thesis
    by (auto simp: push_pop_def length_one) (auto simp: pushed_def)
qed

lemma canonical_push_pop: "canonicalPush (push_pop data)"
proof -
  have "canonicalPush (data_pop data)"
    if "data \<noteq> []" "length data \<le> 75" "\<not> (length data = 1 \<and> data ! 0 \<le> 16)"
  proof -
    have "unat (word_of_nat (length data) :: byte) = length data" using that by (simp add: unat_of_nat)
    then have "word_of_nat (length data) \<noteq> (76 :: byte)" "word_of_nat (length data) \<noteq> (77 :: byte)"
      "word_of_nat (length data) \<noteq> (78 :: byte)" using that(2) by auto
    then show ?thesis using that by (simp add: canonicalPush_def Let_def)
  qed
  moreover have "canonicalPush (op_pop (80 + x))" if "x \<le> 16" "x \<noteq> 0" for x :: byte
  proof -
    have "80 + x \<noteq> 76" "80 + x \<noteq> 77" "80 + x \<noteq> 78"
      using small_op_neq [OF that, of 76] small_op_neq [OF that, of 77] small_op_neq [OF that, of 78] by auto
    then show ?thesis by (simp add: canonicalPush_def Let_def)
  qed
  ultimately show ?thesis
    by (auto simp: push_pop_def length_one) (auto simp: canonicalPush_def)
qed

text \<open>C34 (data pushes). Adding data to a builder without error either appends exactly one instruction, which
  is canonical, takes the announced number of bytes and pushes the data (the single byte 0 is pushed as the
  empty string), or, when the script or the data would be too long, records an error and leaves the script
  unchanged.\<close>

theorem AddData_canonical:
  assumes "sb_err b = None" "parseScript (sb_script b) = (pops, None)"
  shows "if length (sb_script b) + canonicalDataSize data \<le> maxScriptSize \<and> length data \<le> MaxScriptElementSize
    then \<exists>pop. parseScript (sb_script (AddData data b)) = (pops @ [pop], None) \<and> sb_err (AddData data b) = None \<and>
      pushed pop = Some (if data = [0] then [] else data) \<and> canonicalPush pop \<and>
      length (sb_script (AddData data b)) = length (sb_script b) + canonicalDataSize data
    else sb_err (AddData data b) \<noteq> None \<and> sb_script (AddData data b) = sb_script b"
proof (cases "length (sb_script b) + canonicalDataSize data \<le> maxScriptSize \<and> length data \<le> MaxScriptElementSize")
  case True
  then have "length data < 256 ^ 4" by (simp add: MaxScriptElementSize_def)
  then obtain bs where bs: "pop_bytes (push_pop data) = Ok bs" "addData data b = sb_append bs b"
    "length bs = canonicalDataSize data"
    using addData_pop by blast
  have "AddData data b = sb_append bs b" using True assms(1) bs(2) by (simp add: AddData_def)
  then show ?thesis
    unfolding if_P [OF True]
    using parse_append_pop [OF assms(2) wf_push_pop bs(1)] bs(3) assms(1) pushed_push_pop canonical_push_pop
    by (intro exI [of _ "push_pop data"]) simp
next
  case False
  then show ?thesis using assms(1) by (auto simp: AddData_def)
qed

theorem AddData_canonical_witness:
  "\<exists>pop. parseScript (sb_script (AddData [1, 2] NewScriptBuilder)) = ([] @ [pop], None) \<and> pushed pop = Some [1, 2]"
  using AddData_canonical [of NewScriptBuilder "[]" "[1, 2]"]
  by (auto simp: NewScriptBuilder_def canonicalDataSize_def maxScriptSize_def MaxScriptElementSize_def)

lemma scriptNum_Bytes_small:
  assumes "n = - 1 \<or> 1 \<le> n \<and> n \<le> 16"
  shows "scriptNum_Bytes n = Ok [if n = - 1 then 0x81 else word_of_int n]"
proof (cases "n = - 1")
  case True
  then show ?thesis by (simp add: scriptNum_Bytes_def wrap64_def le_digits.simps)
next
  case False
  then obtain k where k: "n = int k" "1 \<le> k" "k \<le> 16" using assms by (metis int_nat_eq nat_le_iff nat_one_as_int of_nat_1 of_nat_le_iff of_nat_numeral order_trans zero_le_one)
  have "unat (word_of_nat k :: byte) = k" using k by (simp add: unat_of_nat)
  then have "minimal_num [word_of_nat k]" "sn_value [word_of_nat k] = n"
    using k by (simp_all add: minimal_num_def sn_value_def sn_magnitude_def)
  then show ?thesis using scriptNum_Bytes_sn_value [of "[word_of_nat k]"] k by simp
qed

text \<open>C35 (integer pushes). Adding an integer other than the least \<^verbatim>\<open>int64\<close> appends one canonical instruction that
  pushes its script number, as long as the script has room for it.\<close>

theorem AddInt64_pushes:
  assumes "sb_err b = None" "parseScript (sb_script b) = (pops, None)" "- (2 ^ 63) < val" "val < 2 ^ 63"
    "length (sb_script b) + 9 \<le> maxScriptSize"
  shows "\<exists>bs pop b'. scriptNum_Bytes val = Ok bs \<and> AddInt64 val b = Ok b' \<and> sb_err b' = None \<and>
    parseScript (sb_script b') = (pops @ [pop], None) \<and> pushed pop = Some bs \<and> canonicalPush pop"
proof -
  obtain bs where bs: "minimal_num bs" "sn_value bs = val" "length bs \<le> 8"
    using sn_value_surj [OF assms(3,4)] by blast
  have n: "scriptNum_Bytes val = Ok bs" using scriptNum_Bytes_sn_value [OF bs(1,3)] bs(2) by simp
  have nz: "bs \<noteq> [0]" using bs(1) by (auto simp: minimal_num_def)
  obtain ps where ps: "pop_bytes (push_pop bs) = Ok ps" "addData bs b = sb_append ps b"
    "length ps = canonicalDataSize bs"
    using addData_pop [of bs b] bs(3) by auto
  have sz: "canonicalDataSize bs \<le> 9" using bs(3) by (simp add: canonicalDataSize_def Let_def)
  have "AddInt64 val b = Ok (sb_append ps b)"
  proof -
    consider (zero) "val = 0" | (neg) "val = - 1" | (small) "1 \<le> val" "val \<le> 16"
      | (big) "\<not> (val = 0 \<or> val = - 1 \<or> 1 \<le> val \<and> val \<le> 16)" by blast
    then show ?thesis
    proof cases
      case zero
      then have "bs = []" using n by (simp add: scriptNum_Bytes_def)
      then show ?thesis
        using zero assms(1,5) ps(1) by (simp add: AddInt64_def push_pop_def pop_bytes_op)
    next
      case neg
      then have "bs = [0x81]" using scriptNum_Bytes_small [of val] n by simp
      then show ?thesis
        using neg assms(1,5) ps(1) by (simp add: AddInt64_def push_pop_def pop_bytes_op op_length_single)
    next
      case small
      define x :: byte where "x = word_of_int val"
      have "uint x = val" using small by (simp add: x_def uint_word_of_int)
      then have x: "x \<le> 16" "x \<noteq> 0" using small by (auto simp: word_le_def)
      have "bs = [x]" using scriptNum_Bytes_small [of val] n small by (simp add: x_def)
      then have "ps = [80 + x]"
        using ps(1) x small_op_range [OF x] by (simp add: push_pop_def pop_bytes_op op_length_single)
      then show ?thesis
        using small assms(1,5) by (simp add: AddInt64_def x_def)
    next
      case big
      then show ?thesis
        using assms(1,5) ps(2) n sz bs(3) by (auto simp: AddInt64_def AddData_def MaxScriptElementSize_def)
    qed
  qed
  then show ?thesis
    using n parse_append_pop [OF assms(2) wf_push_pop ps(1)] pushed_push_pop [of bs] canonical_push_pop [of bs] nz assms(1)
    by (intro exI [of _ bs] exI [of _ "push_pop bs"] exI [of _ "sb_append ps b"]) simp
qed

theorem AddInt64_pushes_witness:
  "\<exists>bs pop b'. scriptNum_Bytes 1000 = Ok bs \<and> AddInt64 1000 NewScriptBuilder = Ok b' \<and> sb_err b' = None \<and>
    parseScript (sb_script b') = ([] @ [pop], None) \<and> pushed pop = Some bs \<and> canonicalPush pop"
  by (rule AddInt64_pushes) (simp_all add: NewScriptBuilder_def maxScriptSize_def)

end
