(* ===== verification/Standard.thy ===== *)
theory Standard
  imports ScriptBuilder Wire_Tx
begin

text \<open>
  \<^verbatim>\<open>txscript/standard.go\<close>: the classes of scripts, the scripts that pay to a witness program, a staking
  program or a binding, and multi-signature scripts, with the functions that read their parts back. Addresses
  (\<^verbatim>\<open>massutil.Address\<close>) are represented by the bytes \<^verbatim>\<open>ScriptAddress()\<close> returns. The theory shows that what the
  constructors build is classified as what it is and that its parts are read back.
\<close>

section \<open>Classes\<close>

datatype ScriptClass =
    NonStandardTy | WitnessV0ScriptHashTy | StakingScriptHashTy | BindingScriptHashTy | MultiSigTy | NullDataTy

fun class_byte :: "ScriptClass \<Rightarrow> byte" where
  "class_byte NonStandardTy = 0"
| "class_byte WitnessV0ScriptHashTy = 1"
| "class_byte StakingScriptHashTy = 2"
| "class_byte BindingScriptHashTy = 3"
| "class_byte MultiSigTy = 4"
| "class_byte NullDataTy = 5"

definition scriptClassToName :: "string list" where
  "scriptClassToName =
    [''nonstandard'', ''witness_v0_scripthash'', ''staking_scripthash'', ''binding_scripthash'', ''multisig'', ''nulldata'']"

text \<open>\<^verbatim>\<open>String\<close> on the underlying byte: the value one past the last name is not caught by the comparison.\<close>

definition ScriptClass_String :: "byte \<Rightarrow> string script_res" where
  "ScriptClass_String t =
    (if int (unat t) > int (length scriptClassToName) \<or> int (unat t) < 0 then Ok ''Invalid''
     else at scriptClassToName (unat t))"

definition isMultiSig :: "parsedOpcode list \<Rightarrow> bool" where
  "isMultiSig pops =
    (let l = length pops in
     if l < 4 then False
     else if \<not> isSmallInt (pop_opcode (pops ! 0)) then False
     else if \<not> isSmallInt (pop_opcode (pops ! (l - 2))) then False
     else if pop_value (pops ! (l - 1)) \<noteq> OP_CHECKMULTISIG then False
     else if int (l - 2 - 1) \<noteq> asSmallInt (pop_opcode (pops ! (l - 2))) then False
     else list_all (\<lambda>pop. \<not> (length (pop_data pop) \<noteq> 33 \<and> length (pop_data pop) \<noteq> 65)) (drop 1 (take (l - 2) pops)))"

definition isNullData :: "parsedOpcode list \<Rightarrow> bool" where
  "isNullData pops =
    (let l = length pops in
     if l = 1 \<and> pop_value (pops ! 0) = OP_RETURN then True
     else l = 2 \<and> pop_value (pops ! 0) = OP_RETURN \<and> pop_value (pops ! 1) \<le> OP_PUSHDATA4 \<and>
       length (pop_data (pops ! 1)) \<le> MaxDataCarrierSize)"

definition typeOfScript :: "parsedOpcode list \<Rightarrow> ScriptClass" where
  "typeOfScript pops =
    (if isWitnessScriptHash pops then WitnessV0ScriptHashTy
     else if isWitnessStakingScript pops then StakingScriptHashTy
     else if isWitnessBindingScript pops then BindingScriptHashTy
     else if isMultiSig pops then MultiSigTy
     else if isNullData pops then NullDataTy
     else NonStandardTy)"

definition GetScriptClass :: "byte list \<Rightarrow> ScriptClass" where
  "GetScriptClass script = (case parsed script of Ok pops \<Rightarrow> typeOfScript pops | _ \<Rightarrow> NonStandardTy)"

definition GetScriptInfo :: "byte list \<Rightarrow> ScriptClass \<times> parsedOpcode list" where
  "GetScriptInfo script = (case parsed script of Ok pops \<Rightarrow> (typeOfScript pops, pops) | _ \<Rightarrow> (NonStandardTy, []))"

definition GetParsedOpcode :: "parsedOpcode list \<Rightarrow> ScriptClass \<Rightarrow> (u64 \<times> byte list) script_res" where
  "GetParsedOpcode pops class =
    (let checked = bindR (at pops 1) (\<lambda>p.
           if length (pop_data p) \<noteq> WitnessV0ScriptHashDataSize then Err ErrWitnessProgramLength else Ok (pop_data p))
     in bindR
         (case class of
            StakingScriptHashTy \<Rightarrow>
              bindR checked (\<lambda>rsh. bindR (at pops 2) (\<lambda>p. Ok (pop_data p, rsh)))
          | WitnessV0ScriptHashTy \<Rightarrow> bindR checked (\<lambda>rsh. Ok (replicate 8 0, rsh))
          | BindingScriptHashTy \<Rightarrow>
              bindR checked (\<lambda>rsh. bindR (at pops 2) (\<lambda>p.
                if length (pop_data p) \<noteq> unat OP_DATA_20 \<and> length (pop_data p) \<noteq> unat OP_DATA_22
                then Err ErrWitnessExtProgramLength else Ok (replicate 8 0, rsh)))
          | _ \<Rightarrow> Err (ErrText ''invalid script hash type''))
         (\<lambda>(height, rsh). bindR (le_Uint64 height) (\<lambda>hgt. Ok (hgt, rsh))))"

definition GetParsedBindingOpcode :: "parsedOpcode list \<Rightarrow> (byte list \<times> byte list) script_res" where
  "GetParsedBindingOpcode pops =
    (if \<not> isWitnessBindingScript pops then Err ErrInvalidBindingScript
     else Ok (pop_data (pops ! 1), pop_data (pops ! 2)))"

definition GetBindingScriptHash :: "byte list \<Rightarrow> (byte list \<times> byte list) script_res" where
  "GetBindingScriptHash script = bindR (parsed script) GetParsedBindingOpcode"

text \<open>The function \<^verbatim>\<open>init\<close> installs as \<^verbatim>\<open>massutil.WitPkScriptParseFunc\<close>: class, frozen period, script hash and
  binding target. A nil target is the empty string.\<close>

definition WitPkScriptParseFunc :: "byte list \<Rightarrow> (byte \<times> u64 \<times> byte list \<times> byte list) script_res" where
  "WitPkScriptParseFunc pkScript =
    (let (clazz, pops) = GetScriptInfo pkScript in
     if clazz = WitnessV0ScriptHashTy \<or> clazz = StakingScriptHashTy \<or> clazz = BindingScriptHashTy then
       (case GetParsedOpcode pops clazz of
          Ok (frozen, witHash) \<Rightarrow>
            (if clazz = BindingScriptHashTy
             then (case GetParsedBindingOpcode pops of
                     Ok (_, bound) \<Rightarrow> Ok (class_byte clazz, frozen, witHash, bound)
                   | Err _ \<Rightarrow> Ok (class_byte clazz, frozen, witHash, [])
                   | Panic \<Rightarrow> Panic)
             else Ok (class_byte clazz, frozen, witHash, []))
        | Err _ \<Rightarrow> Ok (class_byte NonStandardTy, 0, replicate 32 0, [])
        | Panic \<Rightarrow> Panic)
     else Ok (class_byte clazz, 0, replicate 32 0, []))"

section \<open>Information about a script and its witness\<close>

definition expectedInputs :: "parsedOpcode list \<Rightarrow> ScriptClass \<Rightarrow> int script_res" where
  "expectedInputs pops class =
    (case class of
       WitnessV0ScriptHashTy \<Rightarrow> Ok 1
     | StakingScriptHashTy \<Rightarrow> Ok 1
     | BindingScriptHashTy \<Rightarrow> Ok 1
     | MultiSigTy \<Rightarrow> bindR (at pops 0) (\<lambda>p. Ok (asSmallInt (pop_opcode p)))
     | _ \<Rightarrow> Ok (- 1))"

record ScriptInfo =
  PkScriptClass :: ScriptClass
  NumInputs :: int
  ExpectedInputs :: int
  SigOps :: int

definition CalcScriptInfo :: "byte list \<Rightarrow> byte list list \<Rightarrow> ScriptInfo script_res" where
  "CalcScriptInfo pkScript witness =
    bindR (parsed pkScript) (\<lambda>pkPops.
    let cls = typeOfScript pkPops in
    bindR (expectedInputs pkPops cls) (\<lambda>expected.
    if witness = [] then Panic
    else
      let pops = fst (parseScript (witness ! (length witness - 1)));
          popsigs = fst (parseScript (witness ! 0)) in
      if cls = WitnessV0ScriptHashTy \<or> cls = StakingScriptHashTy \<or> cls = BindingScriptHashTy then
        bindR (expectedInputs pops (typeOfScript pops)) (\<lambda>shInputs.
        Ok \<lparr> PkScriptClass = cls, NumInputs = int (length popsigs) + 1,
             ExpectedInputs = (if shInputs = - 1 then - 1 else expected + shInputs),
             SigOps = GetWitnessSigOpCount pkScript witness \<rparr>)
      else
        Ok \<lparr> PkScriptClass = cls, NumInputs = int (length popsigs) + int (length pops),
             ExpectedInputs = expected, SigOps = getSigOpCount pkPops True \<rparr>))"

definition CalcMultiSigStats :: "byte list \<Rightarrow> (int \<times> int) script_res" where
  "CalcMultiSigStats script =
    bindR (parsed script) (\<lambda>pops.
    if length pops < 4 then Err ErrStackUnderflow
    else
      let numSigs = asSmallInt (pop_opcode (pops ! 0));
          numPubKeys = asSmallInt (pop_opcode (pops ! (length pops - 2)))
      in Ok (numPubKeys, numSigs))"

text \<open>\<^verbatim>\<open>pop.data != nil\<close> holds after parsing exactly for the instructions that carry data bytes.\<close>

definition PushedData :: "byte list \<Rightarrow> byte list list script_res" where
  "PushedData script =
    bindR (parsed script) (\<lambda>pops.
    Ok (concat (map (\<lambda>pop.
      if op_length (pop_opcode pop) \<noteq> 1 then [pop_data pop]
      else if pop_value pop = OP_0 then [[]] else []) pops)))"

section \<open>Constructors\<close>

definition payToWitnessScriptHashScript :: "byte list \<Rightarrow> byte list script_res" where
  "payToWitnessScriptHashScript scriptHash =
    (if length scriptHash \<noteq> WitnessV0ScriptHashDataSize then Err ErrWitnessProgramLength
     else sb_Script (AddData scriptHash (AddOp OP_0 NewScriptBuilder)))"

definition payToBindingScriptHashScript :: "byte list \<Rightarrow> byte list \<Rightarrow> byte list script_res" where
  "payToBindingScriptHashScript scriptHash1 scriptHash2 =
    (if length scriptHash1 \<noteq> WitnessV0ScriptHashDataSize \<or>
        (length scriptHash2 \<noteq> unat OP_DATA_20 \<and> length scriptHash2 \<noteq> unat OP_DATA_22)
     then Err ErrWitnessProgramLength
     else sb_Script (AddData scriptHash2 (AddData scriptHash1 (AddOp OP_0 NewScriptBuilder))))"

definition payToStakingScriptHashScript :: "byte list \<Rightarrow> u64 \<Rightarrow> byte list script_res" where
  "payToStakingScriptHashScript scriptHash frozenPeriod =
    (if length scriptHash \<noteq> WitnessV0ScriptHashDataSize then Err ErrWitnessProgramLength
     else if \<not> IsValidFrozenPeriod frozenPeriod then Err ErrFrozenPeriod
     else sb_Script (AddData (le_PutUint64 frozenPeriod) (AddData scriptHash (AddOp OP_0 NewScriptBuilder))))"

definition MultiSigScript :: "byte list list \<Rightarrow> int \<Rightarrow> byte list script_res" where
  "MultiSigScript pubkeys nrequired =
    (if int (length pubkeys) < nrequired then Err ErrBadNumRequired
     else
       bindR (AddInt64 nrequired NewScriptBuilder) (\<lambda>builder.
       bindR (AddInt64 (int (length pubkeys)) (foldl (\<lambda>b key. AddData key b) builder pubkeys)) (\<lambda>builder.
       sb_Script (AddOp OP_CHECKMULTISIG builder))))"

section \<open>Paying to a script and reading it back\<close>

lemma AddOp_fits:
  "sb_err b = None \<Longrightarrow> length (sb_script b) + 1 \<le> maxScriptSize \<Longrightarrow> AddOp v b = sb_append [v] b"
  by (simp add: AddOp_def)

lemma AddData_fits:
  assumes "sb_err b = None" "length d = n" "1 < n" "n \<le> 75" "length (sb_script b) + 1 + n \<le> maxScriptSize"
  shows "AddData d b = sb_append (word_of_nat n # d) b"
proof -
  have "canonicalDataSize d = 1 + n" using assms by (simp add: canonicalDataSize_def)
  then show ?thesis
    using assms by (simp add: AddData_def addData_def MaxScriptElementSize_def Let_def)
qed

lemma pay_script_forms:
  assumes "length h = 32"
  shows "payToWitnessScriptHashScript h = Ok (0 # 32 # h)"
    and "IsValidFrozenPeriod p \<Longrightarrow> payToStakingScriptHashScript h p = Ok (0 # 32 # h @ 8 # le_PutUint64 p)"
    and "length t = 20 \<or> length t = 22 \<Longrightarrow> payToBindingScriptHashScript h t = Ok (0 # 32 # h @ word_of_nat (length t) # t)"
proof -
  have h: "AddData h (AddOp OP_0 NewScriptBuilder) = \<lparr> sb_script = 0 # 32 # h, sb_err = None \<rparr>"
    using assms AddData_fits [of "\<lparr> sb_script = [0], sb_err = None \<rparr>" h 32]
    by (simp add: AddOp_fits NewScriptBuilder_def maxScriptSize_def)
  have e: "AddData d \<lparr> sb_script = 0 # 32 # h, sb_err = None \<rparr> = \<lparr> sb_script = 0 # 32 # h @ word_of_nat n # d, sb_err = None \<rparr>"
    if "length d = n" "1 < n" "n \<le> 75" for d n
    using assms that AddData_fits [of "\<lparr> sb_script = 0 # 32 # h, sb_err = None \<rparr>" d n] by (simp add: maxScriptSize_def)
  show "payToWitnessScriptHashScript h = Ok (0 # 32 # h)"
    using assms h by (simp add: payToWitnessScriptHashScript_def WitnessV0ScriptHashDataSize_def sb_Script_def)
  show "payToStakingScriptHashScript h p = Ok (0 # 32 # h @ 8 # le_PutUint64 p)" if "IsValidFrozenPeriod p"
    using assms h that e [of "le_PutUint64 p" 8]
    by (simp add: payToStakingScriptHashScript_def WitnessV0ScriptHashDataSize_def sb_Script_def)
  show "payToBindingScriptHashScript h t = Ok (0 # 32 # h @ word_of_nat (length t) # t)" if "length t = 20 \<or> length t = 22"
    using assms h that e [of t "length t"]
    by (auto simp: payToBindingScriptHashScript_def WitnessV0ScriptHashDataSize_def sb_Script_def)
qed

lemma le_Uint64_zero: "le_Uint64 (replicate 8 0) = Ok 0"
  by (simp add: le_Uint64_def numeral_eq_Suc)

lemma WitPk_p2wsh: "length h = 32 \<Longrightarrow> WitPkScriptParseFunc (0 # 32 # h) = Ok (1, 0, h, [])"
  using parsed_p2wsh [of h]
  by (simp add: WitPkScriptParseFunc_def GetScriptInfo_def typeOfScript_def isWitnessScriptHash_def
      GetParsedOpcode_def WitnessV0ScriptHashDataSize_def le_Uint64_zero)

lemma WitPk_staking:
  "length h = 32 \<Longrightarrow> WitPkScriptParseFunc (0 # 32 # h @ 8 # le_PutUint64 p) = Ok (2, p, h, [])"
  using parsed_extended [of h "le_PutUint64 p" 8]
  by (simp add: WitPkScriptParseFunc_def GetScriptInfo_def typeOfScript_def isWitnessScriptHash_def
      isWitnessStakingScript_def GetParsedOpcode_def WitnessV0ScriptHashDataSize_def)

lemma WitPk_binding:
  assumes "length h = 32" "length t = n" "n = 20 \<or> n = 22"
  shows "WitPkScriptParseFunc (0 # 32 # h @ word_of_nat n # t) = Ok (3, 0, h, t) \<and>
    GetBindingScriptHash (0 # 32 # h @ word_of_nat n # t) = Ok (h, t)"
proof -
  have p: "parsed (0 # 32 # h @ word_of_nat n # t) = Ok [op_pop 0, data_pop h, data_pop t]"
    using parsed_extended [of h t n] assms by auto
  have b: "isWitnessBindingScript [op_pop 0, data_pop h, data_pop t]"
    using assms by (auto simp: isWitnessBindingScript_def)
  then show ?thesis
    using p assms
    by (auto simp: WitPkScriptParseFunc_def GetScriptInfo_def typeOfScript_def isWitnessScriptHash_def
        isWitnessStakingScript_def GetParsedOpcode_def WitnessV0ScriptHashDataSize_def le_Uint64_zero
        GetParsedBindingOpcode_def GetBindingScriptHash_def)
qed

text \<open>C36 (paying to a script). For a 32-byte script hash the three constructors succeed, and the parse function
  the output index uses reads back the class, the frozen period, the script hash and the binding target.\<close>

theorem pay_to_script_roundtrip:
  assumes "length h = 32" "IsValidFrozenPeriod p" "length t = 20 \<or> length t = 22"
  shows "(\<exists>s. payToWitnessScriptHashScript h = Ok s \<and> WitPkScriptParseFunc s = Ok (1, 0, h, [])) \<and>
    (\<exists>s. payToStakingScriptHashScript h p = Ok s \<and> WitPkScriptParseFunc s = Ok (2, p, h, [])) \<and>
    (\<exists>s. payToBindingScriptHashScript h t = Ok s \<and> WitPkScriptParseFunc s = Ok (3, 0, h, t) \<and>
      GetBindingScriptHash s = Ok (h, t))"
  using pay_script_forms [OF assms(1)] assms WitPk_p2wsh WitPk_staking WitPk_binding [OF assms(1) refl] by simp

theorem pay_to_script_roundtrip_witness:
  "(\<exists>s. payToStakingScriptHashScript (replicate 32 1) 61440 = Ok s \<and>
      WitPkScriptParseFunc s = Ok (2, 61440, replicate 32 1, [])) \<and>
   (\<exists>s. payToBindingScriptHashScript (replicate 32 1) (replicate 22 9) = Ok s \<and>
      GetBindingScriptHash s = Ok (replicate 32 1, replicate 22 9))"
  using pay_to_script_roundtrip [of "replicate 32 1" 61440 "replicate 22 9"]
  by (auto simp: IsValidFrozenPeriod_def SequenceLockTimeMask_def params)

section \<open>Multi-signature scripts\<close>

definition small_pop :: "nat \<Rightarrow> parsedOpcode" where
  "small_pop n = op_pop (if n = 0 then OP_0 else 80 + word_of_nat n)"

lemma small_pop_facts:
  assumes "n \<le> 16"
  shows "isSmallInt (pop_opcode (small_pop n))" "asSmallInt (pop_opcode (small_pop n)) = int n"
    "pop_bytes (small_pop n) = Ok [if n = 0 then OP_0 else 80 + word_of_nat n]"
    "pop_value (small_pop n) = (if n = 0 then 0 else 80 + word_of_nat n)" "op_length (pop_opcode (small_pop n)) = 1"
proof -
  have u: "unat (word_of_nat n :: byte) = n" using assms by (simp add: unat_of_nat)
  have x: "(word_of_nat n :: byte) \<le> 16" "n \<noteq> 0 \<longrightarrow> (word_of_nat n :: byte) \<noteq> 0"
    using assms u by (auto simp: word_le_nat_alt)
  have i: "uint (word_of_nat n :: byte) = int n" using u by (metis uint_nat)
  note r = small_op_range [OF x(1)]
  show "isSmallInt (pop_opcode (small_pop n))" "op_length (pop_opcode (small_pop n)) = 1"
    "pop_bytes (small_pop n) = Ok [if n = 0 then OP_0 else 80 + word_of_nat n]"
    using r x by (auto simp: small_pop_def isSmallInt_def op_length_single pop_bytes_op)
  show "pop_value (small_pop n) = (if n = 0 then 0 else 80 + word_of_nat n)" by (simp add: small_pop_def)
  show "asSmallInt (pop_opcode (small_pop n)) = int n"
    using small_op_neq [OF x(1), of 0] x i by (auto simp: small_pop_def asSmallInt_def)
qed

lemma wf_small_pop: "wf_pop (small_pop n)"
  by (simp add: small_pop_def)

lemma AddInt64_small:
  assumes "sb_err b = None" "n \<le> 16" "length (sb_script b) + 1 \<le> maxScriptSize" "parseScript (sb_script b) = (pops, None)"
  shows "\<exists>b'. AddInt64 (int n) b = Ok b' \<and> sb_err b' = None \<and> length (sb_script b') = length (sb_script b) + 1 \<and>
    parseScript (sb_script b') = (pops @ [small_pop n], None)"
proof -
  have "AddInt64 (int n) b = Ok (sb_append [if n = 0 then OP_0 else 80 + word_of_nat n] b)"
    using assms(1-3) by (auto simp: AddInt64_def)
  then show ?thesis
    using assms(1) parse_append_pop [OF assms(4) wf_small_pop small_pop_facts(3) [OF assms(2)]] by simp
qed

definition is_key :: "byte list \<Rightarrow> bool" where
  "is_key k \<longleftrightarrow> length k = 33 \<or> length k = 65"

lemma add_keys:
  assumes "list_all is_key keys" "sb_err b = None" "length (sb_script b) + 66 * length keys \<le> maxScriptSize"
    "parseScript (sb_script b) = (pops, None)"
  shows "let b' = foldl (\<lambda>b key. AddData key b) b keys in sb_err b' = None \<and>
    length (sb_script b') \<le> length (sb_script b) + 66 * length keys \<and>
    parseScript (sb_script b') = (pops @ map data_pop keys, None)"
  using assms
proof (induction keys arbitrary: b pops)
  case (Cons k keys)
  define n where "n = length k"
  have n: "length k = n" "1 < n" "n \<le> 65" using Cons.prems(1) by (auto simp: is_key_def n_def)
  have a: "AddData k b = sb_append (word_of_nat n # k) b"
    using n Cons.prems(2,3) by (intro AddData_fits) auto
  have p: "parseScript (sb_script b @ word_of_nat n # k) = (pops @ [data_pop k], None)"
    using n by (intro parse_append_pop [OF Cons.prems(4)]) (simp_all add: pop_bytes_data)
  have "let b' = foldl (\<lambda>b key. AddData key b) (AddData k b) keys in sb_err b' = None \<and>
    length (sb_script b') \<le> length (sb_script (AddData k b)) + 66 * length keys \<and>
    parseScript (sb_script b') = ((pops @ [data_pop k]) @ map data_pop keys, None)"
    using Cons.prems n p by (intro Cons.IH) (simp_all add: a)
  then show ?case using a n by (auto simp: Let_def)
qed simp

lemma is_key_data_pops: "list_all is_key keys \<Longrightarrow>
  list_all (\<lambda>pop. \<not> (length (pop_data pop) \<noteq> 33 \<and> length (pop_data pop) \<noteq> 65)) (map data_pop keys)"
  by (auto simp: list_all_iff is_key_def)

lemma isMultiSig_shape:
  assumes "ms \<noteq> []"
  shows "isMultiSig (p # ms @ [q, r]) \<longleftrightarrow> isSmallInt (pop_opcode p) \<and> isSmallInt (pop_opcode q) \<and>
    pop_value r = OP_CHECKMULTISIG \<and> int (length ms) = asSmallInt (pop_opcode q) \<and>
    list_all (\<lambda>pop. \<not> (length (pop_data pop) \<noteq> 33 \<and> length (pop_data pop) \<noteq> 65)) ms"
  using assms by (cases ms) (auto simp: isMultiSig_def nth_append Let_def)

lemma sigop_loop_skip:
  "list_all (\<lambda>p. pop_value p \<le> 96) ps \<Longrightarrow>
    sigop_loop precise q (ps @ rest) m = sigop_loop precise (if ps = [] then q else Some (last ps)) rest m"
  by (induction ps arbitrary: q) auto

lemma data_pop_value: "is_key k \<Longrightarrow> pop_value (data_pop k) \<le> 96"
  by (auto simp: is_key_def)

text \<open>C37 (multi-signature scripts). For 1 to 16 keys of 33 or 65 bytes and at most that many required
  signatures the constructor succeeds; its script is classified as multi-signature, the numbers of keys and of
  required signatures are read back, and the script counts one signature operation per key, not 20 as the
  comment on \<^verbatim>\<open>GetSigOpCount\<close> says.\<close>

theorem MultiSigScript_roundtrip:
  assumes "list_all is_key keys" "n \<le> length keys" "1 \<le> length keys" "length keys \<le> 16"
  shows "\<exists>s. MultiSigScript keys (int n) = Ok s \<and> GetScriptClass s = MultiSigTy \<and>
    CalcMultiSigStats s = Ok (int (length keys), int n) \<and> GetSigOpCount s = int (length keys)"
proof -
  let ?l = "length keys"
  obtain b1 where b1: "AddInt64 (int n) NewScriptBuilder = Ok b1" "sb_err b1 = None" "length (sb_script b1) = 1"
    "parseScript (sb_script b1) = ([small_pop n], None)"
    using AddInt64_small [of NewScriptBuilder n "[]"] assms by (auto simp: NewScriptBuilder_def maxScriptSize_def)
  define b2 where "b2 = foldl (\<lambda>b key. AddData key b) b1 keys"
  have b2: "sb_err b2 = None" "length (sb_script b2) \<le> 1 + 66 * ?l"
    "parseScript (sb_script b2) = (small_pop n # map data_pop keys, None)"
    using add_keys [OF assms(1) b1(2) _ b1(4)] b1(3) assms(4) by (auto simp: b2_def maxScriptSize_def Let_def)
  obtain b3 where b3: "AddInt64 (int ?l) b2 = Ok b3" "sb_err b3 = None" "length (sb_script b3) = length (sb_script b2) + 1"
    "parseScript (sb_script b3) = (small_pop n # map data_pop keys @ [small_pop ?l], None)"
    using AddInt64_small [OF b2(1) assms(4) _ b2(3)] b2(2) assms(4) by (auto simp: maxScriptSize_def)
  let ?pops = "small_pop n # map data_pop keys @ [small_pop ?l, op_pop OP_CHECKMULTISIG]"
  have "AddOp OP_CHECKMULTISIG b3 = sb_append [OP_CHECKMULTISIG] b3"
    using b3(2,3) b2(2) assms(4) by (intro AddOp_fits) (auto simp: maxScriptSize_def)
  moreover have "parseScript (sb_script b3 @ [OP_CHECKMULTISIG]) = (?pops, None)"
    using parse_append_pop [OF b3(4), of "op_pop OP_CHECKMULTISIG" "[OP_CHECKMULTISIG]"]
    by (simp add: pop_bytes_op op_length_single)
  ultimately have s: "MultiSigScript keys (int n) = Ok (sb_script b3 @ [OP_CHECKMULTISIG])"
    "parsed (sb_script b3 @ [OP_CHECKMULTISIG]) = Ok ?pops" "fst (parseScript (sb_script b3 @ [OP_CHECKMULTISIG])) = ?pops"
    using b1(1) b3(1,2) assms(2) by (simp_all add: MultiSigScript_def b2_def sb_Script_def parsed_def)
  have ne: "map data_pop keys \<noteq> []" using assms(3) by auto
  have sm: "pop_value (small_pop k) \<le> 96" if "k \<le> 16" for k
    using small_pop_facts(1) [OF that] by (auto simp: isSmallInt_def)
  have l: "pop_value (small_pop ?l) \<noteq> 0" "81 \<le> pop_value (small_pop ?l)"
    using small_pop_facts(1,2,4) [OF assms(4)] assms(3) by (auto simp: isSmallInt_def asSmallInt_def split: if_splits)
  have ml: "isMultiSig ?pops"
    using assms small_pop_facts(1,2) [of n] small_pop_facts(1,2) [of ?l] is_key_data_pops [OF assms(1)]
    unfolding isMultiSig_shape [OF ne] by simp
  have two: "length ?pops \<noteq> 2" "length ?pops \<noteq> 3" using assms(3) by auto
  have "list_all (\<lambda>p. pop_value p \<le> 96) (small_pop n # map data_pop keys @ [small_pop ?l])"
    using assms sm data_pop_value by (auto simp: list_all_iff)
  from sigop_loop_skip [OF this, of True None "[op_pop OP_CHECKMULTISIG]" 0]
  have "GetSigOpCount (sb_script b3 @ [OP_CHECKMULTISIG]) = int ?l"
    using s(3) l sm [of ?l] small_pop_facts(2) [OF assms(4)] assms(4) by (simp add: GetSigOpCount_def getSigOpCount_def)
  then show ?thesis
    using s ml two small_pop_facts(2) [of n] small_pop_facts(2) [of ?l] assms
    by (simp add: GetScriptClass_def typeOfScript_def isWitnessScriptHash_def isWitnessStakingScript_def
        isWitnessBindingScript_def CalcMultiSigStats_def nth_append)
qed

theorem MultiSigScript_roundtrip_witness:
  "\<exists>s. MultiSigScript [replicate 33 2, replicate 33 3] 1 = Ok s \<and> GetScriptClass s = MultiSigTy \<and>
    CalcMultiSigStats s = Ok (2, 1) \<and> GetSigOpCount s = 2"
  using MultiSigScript_roundtrip [of "[replicate 33 2, replicate 33 3]" 1] by (simp add: is_key_def)

end
