(* ===== verification/Engine.thy ===== *)
theory Engine
  imports Engine_Ops Standard
begin

text \<open>
  \<^verbatim>\<open>txscript/engine.go\<close>: executing the scripts of an input. \<open>NewEngine\<close> parses the output script and takes the
  witness program from it; \<open>Step\<close> executes one instruction and, at the end of the output script, checks the
  witness against the program and appends the scripts of the witness; \<open>Execute\<close> steps until the last script has
  ended. The disassembly in log messages is not modelled. \<open>NewEngine\<close> does not repeat the check that an output
  script without a program has no witness: where the source has it, the program has at least two bytes. The theory
  shows that execution terminates, within how many steps, and which invariant every reachable engine satisfies.
\<close>

section \<open>Stepping\<close>

definition executeOpcode :: "('pk, 'sig) crypto \<Rightarrow> handler" where
  "executeOpcode C pop vm =
    (if isDisabled pop then Err ErrStackOpDisabled
     else if alwaysIllegal pop then Err ErrStackReservedOpcode
     else
       bindR
         (if pop_value pop > OP_16 then
            let vm = vm\<lparr> numOps := numOps vm + 1 \<rparr> in
            if numOps vm > MaxOpsPerScript then Err ErrStackTooManyOperations else Ok vm
          else if length (pop_data pop) > MaxScriptElementSize then Err ErrStackElementTooBig
          else Ok vm) (\<lambda>vm.
       if \<not> isBranchExecuting vm \<and> \<not> isConditional pop then Ok vm
       else
         bindR
           (if verifyMinimalData (dstack vm) \<and> isBranchExecuting vm \<and> pop_value pop \<ge> 0 \<and> pop_value pop \<le> OP_PUSHDATA4
            then checkMinimalDataPush pop else Ok ()) (\<lambda>_.
         opfunc_run (op_func (pop_opcode pop)) C pop vm)))"

definition addScript :: "parsedOpcode list \<Rightarrow> Engine \<Rightarrow> Engine" where
  "addScript script vm = vm\<lparr> scripts := scripts vm @ [script] \<rparr>"

definition validPC :: "Engine \<Rightarrow> unit script_res" where
  "validPC vm =
    (if scriptIdx vm \<ge> length (scripts vm) then Err (ErrText ''past input scripts'')
     else if scriptOff vm \<ge> length (scripts vm ! scriptIdx vm) then Err (ErrText ''past input scripts'')
     else Ok ())"

definition curPC :: "Engine \<Rightarrow> (nat \<times> nat) script_res" where
  "curPC vm = bindR (validPC vm) (\<lambda>_. Ok (scriptIdx vm, scriptOff vm))"

definition CheckErrorCondition :: "bool \<Rightarrow> Engine \<Rightarrow> Engine script_res" where
  "CheckErrorCondition finalScript vm =
    (if scriptIdx vm < length (scripts vm) then Err ErrStackScriptUnfinished
     else if finalScript \<and> Depth (dstack vm) \<noteq> 1 then Err ErrStackCleanStack
     else if Depth (dstack vm) < 1 then Err ErrStackEmptyStack
     else
       bindR (PopBool (dstack vm)) (\<lambda>(v, s).
       if \<not> v then Err ErrStackScriptFailed else Ok (vm\<lparr> dstack := s \<rparr>)))"

text \<open>\<^verbatim>\<open>_ = s.DropN(s.Depth())\<close>: the error for an empty stack is ignored.\<close>

definition drop_all :: "stack \<Rightarrow> stack" where
  "drop_all s = (case DropN (Depth s) s of Ok s' \<Rightarrow> s' | _ \<Rightarrow> s)"

definition getStack :: "stack \<Rightarrow> byte list list" where
  "getStack s = rev (map (\<lambda>i. case PeekByteArray (int i) s of Ok x \<Rightarrow> x | _ \<Rightarrow> []) [0..<length (stk s)])"

definition setStack :: "byte list list \<Rightarrow> stack \<Rightarrow> stack" where
  "setStack data s = foldl (\<lambda>s so. PushByteArray so s) (drop_all s) data"

definition GetStack :: "Engine \<Rightarrow> byte list list" where
  "GetStack vm = getStack (dstack vm)"

definition SetStack :: "byte list list \<Rightarrow> Engine \<Rightarrow> Engine" where
  "SetStack data vm = vm\<lparr> dstack := setStack data (dstack vm) \<rparr>"

text \<open>The script that checks the sequence number of the input against a lock.\<close>

definition lock_script :: "u64 \<Rightarrow> parsedOpcode list script_res" where
  "lock_script lock =
    (let buf = le_PutUint64 lock in
     bindR (sb_Script (AddOp OP_DROP (AddOp OP_CHECKSEQUENCEVERIFY (AddData buf NewScriptBuilder)))) (\<lambda>pkScript.
     parsed pkScript))"

definition witness_ext :: "Engine \<Rightarrow> Engine script_res" where
  "witness_ext vm =
    (case witnessExtProg vm of
       [] \<Rightarrow> Ok vm
     | [ext] \<Rightarrow>
         (if length (pop_data ext) = WitnessV0FrozenPeriodDataSize then
            bindR (makeScriptNum (pop_data ext) (verifyMinimalData (dstack vm)) 9) (\<lambda>frozenPeriod.
            if frozenPeriod < 0 \<or> wrap64 (frozenPeriod + 1) < 0 then Err (ErrText ''invalid frozen period'')
            else
              bindR (lock_script (word_of_int (frozenPeriod + 1))) (\<lambda>pops.
              Ok (vm\<lparr> scripts := scripts vm @ [pops] \<rparr>)))
          else if length (pop_data ext) = unat OP_DATA_20 \<or> length (pop_data ext) = unat OP_DATA_22 then
            (if hasFlag vm ScriptMASSip2 then
               bindR (lock_script MASSIP0002BindingLockedPeriod) (\<lambda>pops.
               Ok (vm\<lparr> scripts := scripts vm @ [pops] \<rparr>))
             else Ok vm)
          else Err ErrWitnessExtProgUnknown)
     | _ \<Rightarrow> Err ErrWitnessExtProgUnknown)"

text \<open>The loop that appends the scripts of the witness.\<close>

definition add_script :: "byte list \<Rightarrow> Engine \<Rightarrow> Engine script_res" where
  "add_script script vm =
    (if length script > maxScriptSize then Err ErrScriptTooBig
     else bindR (parsed script) (\<lambda>pops. Ok (vm\<lparr> scripts := scripts vm @ [pops] \<rparr>)))"

definition verifyWitnessProgram :: "byte list list \<Rightarrow> Engine \<Rightarrow> Engine script_res" where
  "verifyWitnessProgram witness vm =
    (if \<not> isWitnessVersionActive vm 0 then Err ErrDiscourageUpgradableWitnessProgram
     else if length witness \<noteq> 2 then Err ErrWitnessLength
     else if length (witness ! 0) = 0 \<or> length (witness ! 1) = 0 then Err ErrWitnessLength
     else
       let witnessHash = sha256_Sum256 (witness ! 1) in
       if Some witnessHash \<noteq> witnessProgram vm then Err ErrWitnessProgramMismatch
       else
         bindR (witness_ext vm) (\<lambda>vm.
         bindR (foldR add_script witness vm) (\<lambda>vm.
         if list_ex (\<lambda>witElement. length witElement > MaxScriptElementSize) (GetStack vm) then Err ErrStackElementTooBig
         else Ok vm)))"

text \<open>The block of \<^verbatim>\<open>Step\<close> that prepares for the next script: leaving the current one, after the output script
  with a check of the witness, and skipping an empty one.\<close>

definition leave_script :: "Engine \<Rightarrow> Engine script_res" where
  "leave_script vm =
    (if scriptIdx vm = 0 \<and> witnessProgram vm \<noteq> None then
       let vm = vm\<lparr> scriptIdx := scriptIdx vm + 1 \<rparr> in
       if Depth (dstack vm) \<noteq> 2 \<and> Depth (dstack vm) \<noteq> 3 then Err ErrStackUnderflow
       else
         let vm = vm\<lparr> dstack := drop_all (dstack vm) \<rparr> in
         bindR (at (tx_TxIn (eng_tx vm)) (txIdx vm)) (\<lambda>ti.
         verifyWitnessProgram (Witness ti) vm)
     else Ok (vm\<lparr> scriptIdx := scriptIdx vm + 1 \<rparr>))"

definition enter_script :: "Engine \<Rightarrow> bool \<times> Engine" where
  "enter_script vm =
    (let vm =
           (if scriptIdx vm < length (scripts vm) \<and> scriptOff vm \<ge> length (scripts vm ! scriptIdx vm)
            then vm\<lparr> scriptIdx := scriptIdx vm + 1 \<rparr> else vm);
         vm = vm\<lparr> lastCodeSep := 0 \<rparr> in
     (scriptIdx vm \<ge> length (scripts vm), vm))"

definition next_script :: "Engine \<Rightarrow> (bool \<times> Engine) script_res" where
  "next_script vm =
    (if length (condStack vm) \<noteq> 0 then Err ErrStackMissingEndif
     else
       let vm = vm\<lparr> astack := drop_all (astack vm), numOps := 0, scriptOff := 0 \<rparr> in
       bindR (leave_script vm) (\<lambda>vm. Ok (enter_script vm)))"

definition Step :: "('pk, 'sig) crypto \<Rightarrow> Engine \<Rightarrow> (bool \<times> Engine) script_res" where
  "Step C vm =
    bindR (validPC vm) (\<lambda>_.
    let opcode = scripts vm ! scriptIdx vm ! scriptOff vm;
        vm = vm\<lparr> scriptOff := scriptOff vm + 1 \<rparr> in
    bindR (executeOpcode C opcode vm) (\<lambda>vm.
    if Depth (dstack vm) + Depth (astack vm) > maxStackSize then Err ErrStackOverflow
    else
      bindR (at (scripts vm) (scriptIdx vm)) (\<lambda>script.
      if scriptOff vm \<ge> length script then next_script vm else Ok (False, vm))))"

section \<open>Termination\<close>

text \<open>A bound on the steps that are left: the instructions of the scripts and one for the end of each; before the
  end of the output script, at most 20006 for the scripts the witness check appends.\<close>

abbreviation weight :: "parsedOpcode list list \<Rightarrow> nat" where
  "weight ss \<equiv> sum_list (map (\<lambda>s. length s + 1) ss)"

definition steps_left :: "Engine \<Rightarrow> nat" where
  "steps_left vm = (if scriptIdx vm = 0 then 20006 else 0) + (weight (drop (scriptIdx vm) (scripts vm)) - scriptOff vm)"

lemma drop_all_eq [simp]: "drop_all s = s\<lparr> stk := [] \<rparr>"
proof (cases "stk s = []")
  case True
  then show ?thesis by (cases s) (simp add: drop_all_def DropN_def Depth_def)
next
  case False
  then show ?thesis
    using script_stack.drop_loop [of s "[]" "stk s"] by (simp add: drop_all_def DropN_def Depth_def PopByteArray_def)
qed

lemma executeOpcode_bounded: "okR (bounded_ops vm) (executeOpcode C pop vm)"
proof -
  have "bounded_ops vm (vm\<lparr> numOps := numOps vm + 1 \<rparr>)" if "\<not> numOps vm + 1 > MaxOpsPerScript"
    using that by (auto simp: bounded_ops_def frame_def ops_inv_def)
  then show ?thesis
    unfolding executeOpcode_def Let_def
    by (intro okR_intros) (auto simp: res_simps split: if_splits intro: okR_weaken [OF opfunc_bounded] bounded_ops_trans)
qed

lemma parsed_length: "parsed s = Ok pops \<Longrightarrow> length pops \<le> length s"
proof -
  have "list_all wf_pop pops \<Longrightarrow> unparseScript pops = Ok s \<Longrightarrow> length pops \<le> length s"
  proof (induction pops arbitrary: s)
    case (Cons pop pops)
    then obtain b t where b: "wf_pop pop" "pop_bytes pop = Ok b" "unparseScript pops = Ok t" "s = b @ t"
      by (auto simp: res_simps)
    have "0 < length b" using b(1,2) by (cases rule: pop_bytes_cases) auto
    moreover have "length pops \<le> length t" using Cons b(3) by simp
    ultimately show ?case unfolding b(4) length_append length_Cons by linarith
  qed simp
  then show "parsed s = Ok pops \<Longrightarrow> length pops \<le> length s" by (simp add: parsed_Ok_iff)
qed

lemma lock_opcodes [simp]:
  "op_length (opcodeArray OP_CHECKSEQUENCEVERIFY) = 1" "op_length (opcodeArray OP_DROP) = 1"
  by (simp_all add: op_length_opcodeArray)

lemma lock_script_eq:
  "lock_script lock = Ok [data_pop (le_PutUint64 lock), op_pop OP_CHECKSEQUENCEVERIFY, op_pop OP_DROP]"
proof -
  have "AddData (le_PutUint64 lock) NewScriptBuilder = \<lparr> sb_script = 8 # le_PutUint64 lock, sb_err = None \<rparr>"
    using AddData_fits [of NewScriptBuilder "le_PutUint64 lock" 8] by (simp add: NewScriptBuilder_def maxScriptSize_def)
  moreover have "parsed (8 # le_PutUint64 lock @ [OP_CHECKSEQUENCEVERIFY, OP_DROP]) =
      Ok [data_pop (le_PutUint64 lock), op_pop OP_CHECKSEQUENCEVERIFY, op_pop OP_DROP]"
    using pop_bytes_data [of "le_PutUint64 lock" 8] by (simp add: parsed_Ok_iff pop_bytes_op)
  ultimately show ?thesis
    by (simp add: lock_script_def AddOp_def sb_Script_def maxScriptSize_def)
qed

definition extends :: "nat \<Rightarrow> Engine \<Rightarrow> Engine \<Rightarrow> bool" where
  "extends n vm vm' \<longleftrightarrow> (\<exists>ex. vm' = vm\<lparr> scripts := scripts vm @ ex \<rparr> \<and> weight ex \<le> n)"

lemma extends_one: "length pops + 1 \<le> n \<Longrightarrow> extends n vm (vm\<lparr> scripts := scripts vm @ [pops] \<rparr>)"
  by (auto simp: extends_def)

lemma extends_refl: "extends n vm vm"
  by (auto simp: extends_def intro!: exI [of _ "[]"])

lemma extends_trans:
  assumes "extends m a b" "extends n b c" "m + n \<le> k"
  shows "extends k a c"
proof -
  obtain x y where "b = a\<lparr> scripts := scripts a @ x \<rparr>" "weight x \<le> m" "c = b\<lparr> scripts := scripts b @ y \<rparr>" "weight y \<le> n"
    using assms by (auto simp: extends_def)
  then show ?thesis using assms(3) by (auto simp: extends_def intro!: exI [of _ "x @ y"])
qed

lemma witness_ext_extends: "okR (extends 4 vm) (witness_ext vm)"
  unfolding witness_ext_def lock_script_eq
  by (auto simp: extends_refl split: list.split intro!: okR_intros extends_one)

lemma add_script_extends: "okR (extends (maxScriptSize + 1) vm) (add_script script vm)"
  unfolding add_script_def by (intro okR_intros extends_one) (use parsed_length in fastforce)

lemma add_scripts_extends: "okR (extends (length witness * (maxScriptSize + 1)) vm) (foldR add_script witness vm)"
proof (induction witness arbitrary: vm)
  case (Cons script witness)
  have "extends (length (script # witness) * (maxScriptSize + 1)) vm vm''"
    if "add_script script vm = Ok vm'" "foldR add_script witness vm' = Ok vm''" for vm' vm''
    using okRD [OF add_script_extends that(1)] okRD [OF Cons.IH that(2)] by (rule extends_trans) simp
  then show ?case by (auto simp: okR_def res_simps)
qed (simp add: okR_Ok extends_refl)

lemma verifyWitnessProgram_extends: "okR (extends 20006 vm) (verifyWitnessProgram witness vm)"
proof -
  have "extends 20006 vm vm''"
    if "length witness = 2" "witness_ext vm = Ok vm'" "foldR add_script witness vm' = Ok vm''" for vm' vm''
    using okRD [OF witness_ext_extends that(2)] okRD [OF add_scripts_extends that(3)]
    by (rule extends_trans) (simp add: that(1) maxScriptSize_def)
  then show ?thesis
    unfolding verifyWitnessProgram_def Let_def by (intro okR_intros) auto
qed

lemma Step_cases:
  assumes "Step C vm = Ok (d, vm')"
  obtains (inside) "bounded_ops (vm\<lparr> scriptOff := scriptOff vm + 1 \<rparr>) vm'" "\<not> d"
      "Depth (dstack vm') + Depth (astack vm') \<le> maxStackSize"
      "scriptIdx vm < length (scripts vm)" "scriptOff vm + 1 < length (scripts vm ! scriptIdx vm)"
    | (script_end) vm1 where "bounded_ops (vm\<lparr> scriptOff := scriptOff vm + 1 \<rparr>) vm1" "next_script vm1 = Ok (d, vm')"
      "Depth (dstack vm1) + Depth (astack vm1) \<le> maxStackSize"
      "scriptIdx vm < length (scripts vm)" "scriptOff vm < length (scripts vm ! scriptIdx vm)"
proof -
  let ?vm = "vm\<lparr> scriptOff := scriptOff vm + 1 \<rparr>"
  obtain vm1 where vm1: "executeOpcode C (scripts vm ! scriptIdx vm ! scriptOff vm) ?vm = Ok vm1"
    and pc: "scriptIdx vm < length (scripts vm)" "scriptOff vm < length (scripts vm ! scriptIdx vm)"
    and d: "Depth (dstack vm1) + Depth (astack vm1) \<le> maxStackSize"
    and r: "bindR (at (scripts vm1) (scriptIdx vm1)) (\<lambda>script.
      if scriptOff vm1 \<ge> length script then next_script vm1 else Ok (False, vm1)) = Ok (d, vm')"
    using assms by (auto simp: Step_def validPC_def Let_def res_simps split: if_splits)
  have b: "bounded_ops ?vm vm1" using okRD [OF executeOpcode_bounded vm1] .
  then have f: "scripts vm1 = scripts vm" "scriptIdx vm1 = scriptIdx vm" "scriptOff vm1 = scriptOff vm + 1"
    by (simp_all add: bounded_ops_def frame_def)
  show ?thesis
  proof (cases "scriptOff vm1 \<ge> length (scripts vm1 ! scriptIdx vm1)")
    case True
    then show ?thesis using script_end [OF b] r pc d f by simp
  next
    case False
    then show ?thesis using inside r pc d f b by simp
  qed
qed

text \<open>The end of a script: the next engine is the old one with the program counter reset, the operations of the
  ended script forgotten, and, after the output script, the scripts of the witness appended.\<close>

lemma leave_script_Ok:
  assumes "leave_script vm = Ok vm'"
  shows "\<exists>ex. vm' = vm\<lparr> dstack := dstack vm', scriptIdx := scriptIdx vm + 1, scripts := scripts vm @ ex \<rparr> \<and> weight ex \<le> 20006 \<and>
    (scriptIdx vm \<noteq> 0 \<or> witnessProgram vm = None \<longrightarrow> ex = []) \<and> (dstack vm' = dstack vm \<or> stk (dstack vm') = [])"
proof (cases "scriptIdx vm = 0 \<and> witnessProgram vm \<noteq> None")
  case True
  then have
    "verifyWitnessProgram (Witness (tx_TxIn (eng_tx vm) ! txIdx vm)) (vm\<lparr> scriptIdx := scriptIdx vm + 1, dstack := (dstack vm)\<lparr> stk := [] \<rparr> \<rparr>) = Ok vm'"
    using assms by (auto simp: leave_script_def Let_def res_simps split: if_splits)
  from okRD [OF verifyWitnessProgram_extends this] obtain ex
    where "vm' = vm\<lparr> scriptIdx := scriptIdx vm + 1, dstack := (dstack vm)\<lparr> stk := [] \<rparr>, scripts := scripts vm @ ex \<rparr>" "weight ex \<le> 20006"
    by (auto simp: extends_def)
  then show ?thesis using True by (intro exI [of _ ex]) auto
next
  case False
  then have "vm' = vm\<lparr> scriptIdx := scriptIdx vm + 1 \<rparr>" using assms by (auto simp: leave_script_def)
  then show ?thesis by (intro exI [of _ "[]"]) simp
qed

lemma enter_script_eq:
  "enter_script vm = (d, vm') \<Longrightarrow>
    vm' = vm\<lparr> scriptIdx := scriptIdx vm', lastCodeSep := 0 \<rparr> \<and> scriptIdx vm \<le> scriptIdx vm' \<and>
    d = (scriptIdx vm' \<ge> length (scripts vm))"
  by (auto simp: enter_script_def Let_def split: if_splits)

lemma next_script_Ok:
  assumes "next_script vm = Ok (d, vm')"
  shows "\<exists>ex. vm' = vm\<lparr> astack := (astack vm)\<lparr> stk := [] \<rparr>, numOps := 0, scriptOff := 0, lastCodeSep := 0,
        dstack := dstack vm', scriptIdx := scriptIdx vm', scripts := scripts vm @ ex \<rparr> \<and> weight ex \<le> 20006 \<and>
      (scriptIdx vm \<noteq> 0 \<or> witnessProgram vm = None \<longrightarrow> ex = []) \<and>
      (dstack vm' = dstack vm \<or> stk (dstack vm') = []) \<and>
      scriptIdx vm < scriptIdx vm' \<and> condStack vm = [] \<and> d = (scriptIdx vm' \<ge> length (scripts vm'))"
proof -
  let ?vm = "vm\<lparr> astack := (astack vm)\<lparr> stk := [] \<rparr>, numOps := 0, scriptOff := 0 \<rparr>"
  obtain vm1 where vm1: "condStack vm = []" "leave_script ?vm = Ok vm1" "enter_script vm1 = (d, vm')"
    using assms by (auto simp: next_script_def res_simps split: if_splits)
  obtain ex where ex: "vm1 = ?vm\<lparr> dstack := dstack vm1, scriptIdx := scriptIdx vm + 1, scripts := scripts vm @ ex \<rparr>"
    "weight ex \<le> 20006" "scriptIdx vm \<noteq> 0 \<or> witnessProgram vm = None \<longrightarrow> ex = []"
    "dstack vm1 = dstack vm \<or> stk (dstack vm1) = []"
    using leave_script_Ok [OF vm1(2)] by auto
  have e: "vm' = vm1\<lparr> scriptIdx := scriptIdx vm', lastCodeSep := 0 \<rparr>" "scriptIdx vm1 \<le> scriptIdx vm'"
    "d = (scriptIdx vm' \<ge> length (scripts vm1))"
    using enter_script_eq [OF vm1(3)] by simp_all
  have sel: "scriptIdx vm1 = scriptIdx vm + 1" "scripts vm1 = scripts vm @ ex" by (subst ex(1), simp)+
  have vm': "vm' = vm\<lparr> astack := (astack vm)\<lparr> stk := [] \<rparr>, numOps := 0, scriptOff := 0, lastCodeSep := 0,
        dstack := dstack vm1, scriptIdx := scriptIdx vm', scripts := scripts vm @ ex \<rparr>"
    by (subst e(1), subst ex(1)) simp
  have "dstack vm' = dstack vm1" "scripts vm' = scripts vm @ ex" by (subst vm', simp)+
  with vm' show ?thesis using ex e(2,3) sel vm1(1) by (intro exI [of _ ex]) simp
qed

text \<open>What the engine was created with.\<close>

definition engine_context :: "Engine \<Rightarrow> (MsgTx \<times> nat \<times> u32 \<times> TxSigHashes option) \<times> (int \<times> byte list option \<times> parsedOpcode list \<times> int)" where
  "engine_context vm = snd (frame vm)"

lemma next_script_fields:
  assumes "next_script vm = Ok (d, vm')"
  obtains ex where "scripts vm' = scripts vm @ ex" "weight ex \<le> 20006"
    "scriptIdx vm \<noteq> 0 \<or> witnessProgram vm = None \<longrightarrow> ex = []" "scriptIdx vm < scriptIdx vm'"
    "scriptOff vm' = 0" "lastCodeSep vm' = 0" "numOps vm' = 0" "condStack vm' = []" "stk (astack vm') = []"
    "dstack vm' = dstack vm \<or> stk (dstack vm') = []" "d = (scriptIdx vm' \<ge> length (scripts vm'))"
    "engine_context vm' = engine_context vm"
proof -
  obtain ex where ex: "vm' = vm\<lparr> astack := (astack vm)\<lparr> stk := [] \<rparr>, numOps := 0, scriptOff := 0, lastCodeSep := 0,
        dstack := dstack vm', scriptIdx := scriptIdx vm', scripts := scripts vm @ ex \<rparr>"
    and r: "weight ex \<le> 20006" "scriptIdx vm \<noteq> 0 \<or> witnessProgram vm = None \<longrightarrow> ex = []" "scriptIdx vm < scriptIdx vm'"
      "condStack vm = []" "dstack vm' = dstack vm \<or> stk (dstack vm') = []" "d = (scriptIdx vm' \<ge> length (scripts vm'))"
    using next_script_Ok [OF assms] by (elim exE conjE) (rule that; assumption)
  have "scripts vm' = scripts vm @ ex" "scriptOff vm' = 0" "lastCodeSep vm' = 0" "numOps vm' = 0" "condStack vm' = []"
    "stk (astack vm') = []" "engine_context vm' = engine_context vm"
    using r(4) by (subst ex, simp add: engine_context_def frame_def)+
  with r show ?thesis by (intro that)
qed

lemma weight_drop:
  assumes "i \<le> j"
  shows "weight (drop j ss) \<le> weight (drop i ss)"
proof -
  have "drop j ss = drop (j - i) (drop i ss)" using assms by simp
  moreover have "weight xs = weight (take k xs) + weight (drop k xs)" for k and xs :: "parsedOpcode list list"
    by (simp flip: sum_list_append map_append)
  ultimately show ?thesis by (metis le_add2)
qed

lemma weight_current:
  assumes "i < length ss"
  shows "weight (drop i ss) = length (ss ! i) + 1 + weight (drop (i + 1) ss)"
proof -
  have "drop i ss = ss ! i # drop (i + 1) ss" using Cons_nth_drop_Suc [OF assms] by simp
  then show ?thesis by simp
qed

lemma Step_decreases:
  assumes "Step C vm = Ok (False, vm')"
  shows "steps_left vm' < steps_left vm"
  using assms
proof (cases rule: Step_cases)
  case inside
  then have "scriptOff vm + 1 < weight (drop (scriptIdx vm) (scripts vm))" using weight_current [OF inside(4)] by simp
  moreover have "scripts vm' = scripts vm" "scriptIdx vm' = scriptIdx vm" "scriptOff vm' = scriptOff vm + 1"
    using inside(1) by (simp_all add: bounded_ops_def frame_def)
  ultimately show ?thesis by (simp add: steps_left_def)
next
  case (script_end vm1)
  have f: "scripts vm1 = scripts vm" "scriptIdx vm1 = scriptIdx vm"
    using script_end(1) by (simp_all add: bounded_ops_def frame_def)
  obtain ex where s: "scripts vm' = scripts vm @ ex" "scriptOff vm' = 0" "weight ex \<le> 20006"
    and ex: "scriptIdx vm \<noteq> 0 \<longrightarrow> ex = []" "scriptIdx vm < scriptIdx vm'"
    using next_script_fields [OF script_end(2)] f by metis
  have "weight (drop (scriptIdx vm') (scripts vm')) \<le> weight (drop (scriptIdx vm + 1) (scripts vm @ ex))"
    using ex(2) unfolding s(1) by (intro weight_drop) simp
  also have "\<dots> = weight (drop (scriptIdx vm + 1) (scripts vm)) + weight ex" using script_end(4) by simp
  finally show ?thesis
    using ex script_end(5) weight_current [OF script_end(4)] s(2,3) by (auto simp: steps_left_def)
qed

function Execute :: "('pk, 'sig) crypto \<Rightarrow> Engine \<Rightarrow> Engine script_res" where
  "Execute C vm =
    (case Step C vm of
       Ok (done, vm') \<Rightarrow> if done then CheckErrorCondition True vm' else Execute C vm'
     | Err e \<Rightarrow> Err e
     | Panic \<Rightarrow> Panic)"
  by pat_completeness auto
termination
  by (relation "measure (\<lambda>(C, vm). steps_left vm)") (auto intro: Step_decreases)

declare Execute.simps [simp del]

section \<open>Creating an engine\<close>

definition NewEngine ::
  "byte list \<Rightarrow> MsgTx \<Rightarrow> int \<Rightarrow> u32 \<Rightarrow> SigCache option \<Rightarrow> TxSigHashes option \<Rightarrow> int \<Rightarrow> Engine script_res" where
  "NewEngine pkScript tx idx fl sc hc amount =
    (if idx < 0 \<or> idx \<ge> int (length (tx_TxIn tx)) then Err ErrStackInvalidIndex
     else if length pkScript = 0 then Err ErrWitnessUnexpected
     else if length pkScript > maxScriptSize then Err ErrScriptTooBig
     else
       bindR (parsed pkScript) (\<lambda>pops.
       let vm = \<lparr> scripts = [pops], scriptIdx = 0, scriptOff = 0, lastCodeSep = 0,
                  dstack = \<lparr> stk = [], verifyMinimalData = False \<rparr>, astack = \<lparr> stk = [], verifyMinimalData = False \<rparr>,
                  eng_tx = tx, txIdx = nat idx, condStack = [], numOps = 0, flags = fl, sigCache = sc, hashCache = hc,
                  witnessVersion = 0, witnessProgram = None, witnessExtProg = [], inputAmount = amount \<rparr> in
       if isMASSWitnessProgram pops \<or> isWitnessProgram pops then
         bindR (extractWitnessProgramInfo pops) (\<lambda>(version, program, ext).
         Ok (vm\<lparr> witnessVersion := version, witnessProgram := Some program, witnessExtProg := ext \<rparr>))
       else Ok vm))"

section \<open>The number of steps\<close>

text \<open>\<open>Execute\<close> with at most the given number of steps.\<close>

fun execute_steps :: "nat \<Rightarrow> ('pk, 'sig) crypto \<Rightarrow> Engine \<Rightarrow> Engine script_res option" where
  "execute_steps 0 C vm = None"
| "execute_steps (Suc n) C vm =
    (case Step C vm of
       Ok (done, vm') \<Rightarrow> if done then Some (CheckErrorCondition True vm') else execute_steps n C vm'
     | Err e \<Rightarrow> Some (Err e)
     | Panic \<Rightarrow> Some Panic)"

lemma execute_steps_enough: "steps_left vm < n \<Longrightarrow> execute_steps n C vm = Some (Execute C vm)"
proof (induction n arbitrary: vm)
  case (Suc n)
  have "execute_steps n C vm' = Some (Execute C vm')" if "Step C vm = Ok (False, vm')" for vm'
    using Suc.IH [of vm'] Step_decreases [OF that] Suc.prems by simp
  then show ?case by (auto simp: Execute.simps [of C vm] split: res.split)
qed simp

lemma NewEngine_fields:
  assumes "NewEngine pkScript tx idx fl sc hc amount = Ok vm"
  obtains pops where "parsed pkScript = Ok pops" "scripts vm = [pops]" "scriptIdx vm = 0" "scriptOff vm = 0"
    "ops_inv vm" "stk (dstack vm) = []" "stk (astack vm) = []" "eng_tx vm = tx" "txIdx vm = nat idx" "0 \<le> idx"
    "nat idx < length (tx_TxIn tx)" "flags vm = fl" "inputAmount vm = amount" "length pops \<le> maxScriptSize"
proof -
  obtain pops where "parsed pkScript = Ok pops" "length pkScript \<le> maxScriptSize" "0 \<le> idx"
    "nat idx < length (tx_TxIn tx)"
    using assms by (auto simp: NewEngine_def res_simps nat_less_iff split: if_splits)
  then show ?thesis
    using assms parsed_length [of pkScript pops]
    by (intro that [of pops])
      (auto simp: NewEngine_def Let_def ops_inv_def MaxOpsPerScript_def res_simps nat_less_iff split: if_splits)
qed

text \<open>C15 (execution terminates). Executing the scripts of an input ends, in success, an error or a panic, within
  30008 steps: at most 10000 instructions and the end of the output script, and 20006 for the scripts of the
  witness and the script that checks the lock.\<close>

theorem Execute_within_bound:
  assumes "NewEngine pkScript tx idx fl sc hc amount = Ok vm"
  shows "execute_steps 30008 C vm = Some (Execute C vm)"
proof -
  obtain pops where "scripts vm = [pops]" "scriptIdx vm = 0" "scriptOff vm = 0" "length pops \<le> 10000"
    using NewEngine_fields [OF assms] by (metis maxScriptSize_def)
  then show ?thesis by (intro execute_steps_enough) (simp add: steps_left_def)
qed

lemma NewEngine_example: "\<exists>vm. NewEngine [OP_1] sample_tx 0 0 None None 0 = Ok vm"
proof -
  have "op_length (opcodeArray OP_1) = 1" by (simp add: op_length_opcodeArray)
  then have "parsed [OP_1] = Ok [op_pop OP_1]" by (simp add: parsed_Ok_iff pop_bytes_op)
  then show ?thesis
    by (simp add: NewEngine_def maxScriptSize_def isMASSWitnessProgram_def isWitnessProgram_def sample_tx_def)
qed

theorem Execute_within_bound_witness:
  "\<exists>vm. NewEngine [OP_1] sample_tx 0 0 None None 0 = Ok vm \<and> execute_steps 30008 toy_crypto vm = Some (Execute toy_crypto vm)"
  using NewEngine_example Execute_within_bound by blast

section \<open>Invariant\<close>

text \<open>The engines that stepping reaches.\<close>

inductive reachable :: "('pk, 'sig) crypto \<Rightarrow> Engine \<Rightarrow> Engine \<Rightarrow> bool" for C vm0 where
  reachable_start: "reachable C vm0 vm0"
| reachable_step: "reachable C vm0 vm \<Longrightarrow> Step C vm = Ok (d, vm') \<Longrightarrow> reachable C vm0 vm'"

definition engine_inv :: "Engine \<Rightarrow> bool" where
  "engine_inv vm \<longleftrightarrow> ops_inv vm \<and> Depth (dstack vm) + Depth (astack vm) \<le> maxStackSize \<and>
    (scriptIdx vm < length (scripts vm) \<longrightarrow> scriptOff vm \<le> length (scripts vm ! scriptIdx vm))"

lemma Step_engine_inv:
  assumes "Step C vm = Ok (d, vm')" "engine_inv vm"
  shows "engine_inv vm'"
  using assms(1)
proof (cases rule: Step_cases)
  case inside
  have "ops_inv (vm\<lparr> scriptOff := scriptOff vm + 1 \<rparr>)" using assms(2) by (simp add: engine_inv_def ops_inv_def)
  then have "ops_inv vm'" using inside(1) by (simp add: bounded_ops_def)
  then show ?thesis using inside by (simp add: engine_inv_def bounded_ops_def frame_def)
next
  case (script_end vm1)
  have sel: "numOps vm' = 0" "scriptOff vm' = 0" "lastCodeSep vm' = 0" "condStack vm' = []" "stk (astack vm') = []"
    and ex: "dstack vm' = dstack vm1 \<or> stk (dstack vm') = []"
    using next_script_fields [OF script_end(2)] by metis+
  have "Depth (dstack vm') \<le> maxStackSize" using ex script_end(3) by (auto simp: Depth_def maxStackSize_def)
  then show ?thesis using sel by (simp add: engine_inv_def ops_inv_def MaxOpsPerScript_def Depth_def)
qed

lemma Step_engine_context:
  assumes "Step C vm = Ok (d, vm')"
  shows "engine_context vm' = engine_context vm"
  using assms
proof (cases rule: Step_cases)
  case (script_end vm1)
  then have "engine_context vm' = engine_context vm1" using next_script_fields [OF script_end(2)] by metis
  then show ?thesis using script_end(1) by (simp add: engine_context_def bounded_ops_def frame_def)
qed (simp add: engine_context_def bounded_ops_def frame_def)

lemma reachable_inv: "reachable C vm0 vm \<Longrightarrow> engine_inv vm0 \<Longrightarrow> engine_inv vm \<and> engine_context vm = engine_context vm0"
  by (induction rule: reachable.induct) (auto dest: Step_engine_inv Step_engine_context)

text \<open>C14 (invariant of the engine). In every engine that stepping reaches, both stacks together hold at most 1000
  elements, the operations of the current script are at most 201, the stack of conditions holds only the marks of
  an active, an inactive and a skipped branch, the code separator is not after the offset and the offset not after
  the current script, so that the script a signature covers exists, and the transaction, the input, the flags and
  the amount are those the engine was created with.\<close>

theorem engine_invariant:
  assumes "NewEngine pkScript tx idx fl sc hc amount = Ok vm0" "reachable C vm0 vm"
  shows "length (stk (dstack vm)) + length (stk (astack vm)) \<le> 1000 \<and> 0 \<le> numOps vm \<and> numOps vm \<le> 201 \<and>
    set (condStack vm) \<subseteq> {OpCondFalse, OpCondTrue, OpCondSkip} \<and>
    (scriptIdx vm < length (scripts vm) \<longrightarrow> scriptOff vm \<le> length (scripts vm ! scriptIdx vm) \<and> is_ok (subScript vm)) \<and>
    eng_tx vm = tx \<and> int (txIdx vm) = idx \<and> txIdx vm < length (tx_TxIn tx) \<and> flags vm = fl \<and> inputAmount vm = amount"
proof -
  obtain pops where n: "scripts vm0 = [pops]" "scriptOff vm0 = 0" "ops_inv vm0" "stk (dstack vm0) = []" "stk (astack vm0) = []"
    "eng_tx vm0 = tx" "txIdx vm0 = nat idx" "0 \<le> idx" "nat idx < length (tx_TxIn tx)" "flags vm0 = fl" "inputAmount vm0 = amount"
    using NewEngine_fields [OF assms(1)] by metis
  have "engine_inv vm0" using n by (simp add: engine_inv_def Depth_def maxStackSize_def)
  then have i: "engine_inv vm" "engine_context vm = engine_context vm0" using reachable_inv [OF assms(2)] by simp_all
  then have "scriptIdx vm < length (scripts vm) \<longrightarrow> is_ok (subScript vm)"
    by (auto simp: engine_inv_def ops_inv_def subScript_def)
  then show ?thesis
    using i n by (auto simp: engine_inv_def ops_inv_def engine_context_def frame_def Depth_def maxStackSize_def MaxOpsPerScript_def)
qed

theorem engine_invariant_witness:
  "\<exists>vm. NewEngine [OP_1] sample_tx 0 0 None None 0 = Ok vm \<and> reachable toy_crypto vm vm \<and> numOps vm \<le> 201 \<and>
    length (stk (dstack vm)) + length (stk (astack vm)) \<le> 1000"
proof -
  obtain vm where vm: "NewEngine [OP_1] sample_tx 0 0 None None 0 = Ok vm" using NewEngine_example by blast
  have "reachable toy_crypto vm vm" by (rule reachable_start)
  with engine_invariant [OF vm this] show ?thesis using vm by blast
qed

end
