(* ===== verification/Spending.thy ===== *)
theory Spending
  imports Engine
begin

text \<open>
  What a successful execution of the scripts of an input says (\<^verbatim>\<open>txscript/engine.go\<close>): for each of the three kinds of
  outputs, the witness and the sequence number that spending it takes. The examples run the engine symbolically on
  an output of each kind.
\<close>

section \<open>Spending an output\<close>

lemma op_funcs [simp]:
  "op_func (opcodeArray OP_0) = Fn_False"
  "op_func (opcodeArray OP_CHECKSEQUENCEVERIFY) = Fn_CheckSequenceVerify"
  by (simp_all add: opcodeArray_def opcode_tables)

lemma op_func_data:
  assumes "0 < n" "n \<le> 75"
  shows "op_func (opcodeArray (word_of_nat n)) = Fn_PushData"
proof -
  have "unat (word_of_nat n :: byte) = n" using assms by (simp add: unat_of_nat)
  then show ?thesis using assms by (simp add: opcodeArray_def word_le_nat_alt)
qed

text \<open>The instruction pushes the bytes.\<close>

definition pushes :: "parsedOpcode \<Rightarrow> byte list \<Rightarrow> bool" where
  "pushes p d \<longleftrightarrow> p = op_pop OP_0 \<and> d = [] \<or> p = data_pop d \<and> 0 < length d \<and> length d \<le> 75"

text \<open>No branch is open and pushes need not be minimal.\<close>

definition plain :: "Engine \<Rightarrow> bool" where
  "plain vm \<longleftrightarrow> condStack vm = [] \<and> \<not> verifyMinimalData (dstack vm) \<and> length (stk (dstack vm)) \<le> 4 \<and> stk (astack vm) = []"

lemma executeOpcode_push:
  assumes "pushes p d" "plain vm"
  shows "executeOpcode C p vm = Ok (vm\<lparr> dstack := PushByteArray d (dstack vm) \<rparr>)"
  using assms(1) unfolding pushes_def
proof
  assume "p = op_pop OP_0 \<and> d = []"
  then show ?thesis
    using assms(2)
    by (simp add: executeOpcode_def isDisabled_def alwaysIllegal_def isBranchExecuting_def plain_def opcodeFalse_def on_dstack_def)
next
  assume d: "p = data_pop d \<and> 0 < length d \<and> length d \<le> 75"
  have "unat (word_of_nat (length d) :: byte) = length d" using d by (simp add: unat_of_nat)
  then have v: "(word_of_nat (length d) :: byte) \<le> 75" using d by (simp add: word_le_nat_alt)
  then have "(word_of_nat (length d) :: byte) \<le> OP_16" by (rule order_trans) simp
  with v have n: "\<not> isDisabled p" "\<not> alwaysIllegal p" "\<not> pop_value p > OP_16"
    using d by (auto simp: isDisabled_def alwaysIllegal_def)
  have "length d > 0" "length d \<le> 75" using d by simp_all
  then have "op_func (pop_opcode p) = Fn_PushData" "pop_data p = d" using d op_func_data [of "length d"] by auto
  then show ?thesis
    using n d assms(2) by (simp add: executeOpcode_def isBranchExecuting_def plain_def opcodePushData_def on_dstack_def MaxScriptElementSize_def)
qed

lemma Step_push:
  assumes "scriptIdx vm < length (scripts vm)" "scriptOff vm < length (scripts vm ! scriptIdx vm)"
    "pushes (scripts vm ! scriptIdx vm ! scriptOff vm) d" "plain vm"
  shows "Step C vm = (let vm' = vm\<lparr> scriptOff := scriptOff vm + 1, dstack := PushByteArray d (dstack vm) \<rparr> in
    if scriptOff vm + 1 < length (scripts vm ! scriptIdx vm) then Ok (False, vm') else next_script vm')"
proof -
  have "plain (vm\<lparr> scriptOff := scriptOff vm + 1 \<rparr>)" using assms(4) by (simp add: plain_def)
  from executeOpcode_push [OF assms(3) this, of C] show ?thesis
    using assms(1,2,4) by (simp add: Step_def validPC_def Depth_def maxStackSize_def PushByteArray_def plain_def)
qed

text \<open>A successful execution takes a step; when the step goes on, the rest is successful.\<close>

lemma Execute_Ok_cases:
  assumes "Execute C vm = Ok r"
  obtains vm' where "Step C vm = Ok (False, vm')" "Execute C vm' = Ok r"
    | vm' where "Step C vm = Ok (True, vm')" "CheckErrorCondition True vm' = Ok r"
  using assms by (auto simp: Execute.simps [of C vm] split: res.splits prod.splits if_splits)

lemma Execute_next: "Step C vm = Ok (False, vm') \<Longrightarrow> Execute C vm = Execute C vm'"
  by (simp add: Execute.simps [of C vm])

text \<open>Executing an output script of pushes comes to the check of the witness.\<close>

lemma Execute_pushes:
  assumes "scripts vm = [ps]" "scriptIdx vm = 0" "list_all2 pushes (drop (scriptOff vm) ps) ds" "ds \<noteq> []"
    "length (stk (dstack vm)) + length ds \<le> 4" "plain vm" "Execute C vm = Ok r"
  shows "\<exists>s d vm'. next_script (vm\<lparr> scriptOff := length ps, dstack := s \<rparr>) = Ok (d, vm') \<and>
    stk s = stk (dstack vm) @ ds \<and> verifyMinimalData s = verifyMinimalData (dstack vm) \<and>
    (if d then CheckErrorCondition True vm' = Ok r else Execute C vm' = Ok r)"
  using assms
proof (induction ds arbitrary: vm)
  case (Cons d ds)
  have off: "scriptOff vm < length ps" using Cons.prems(3) by (metis drop_all linorder_not_less list_all2_Nil neq_Nil_conv list.distinct(1))
  then have dr: "drop (scriptOff vm) ps = ps ! scriptOff vm # drop (scriptOff vm + 1) ps" by (simp add: Cons_nth_drop_Suc)
  let ?vm = "vm\<lparr> scriptOff := scriptOff vm + 1, dstack := PushByteArray d (dstack vm) \<rparr>"
  have st: "Step C vm = (if scriptOff vm + 1 < length ps then Ok (False, ?vm) else next_script ?vm)"
    using Step_push [of vm d C] Cons.prems(1,2,3,6) off dr by (simp add: Let_def)
  show ?case
  proof (cases "scriptOff vm + 1 < length ps")
    case True
    have "ds \<noteq> []" using Cons.prems(3) True dr by auto
    moreover have "Execute C ?vm = Ok r" using Execute_next [of C vm ?vm] st True Cons.prems(7) by simp
    ultimately show ?thesis
      using Cons.IH [of ?vm] Cons.prems dr by (simp add: PushByteArray_def plain_def)
  next
    case False
    then have "ds = []" "scriptOff vm + 1 = length ps" using Cons.prems(3) off dr by auto
    moreover have "\<exists>b vm'. next_script ?vm = Ok (b, vm') \<and>
      (if b then CheckErrorCondition True vm' = Ok r else Execute C vm' = Ok r)"
      using Cons.prems(7)
    proof (cases rule: Execute_Ok_cases)
      case (1 vm')
      then show ?thesis using False st by (intro exI [of _ False] exI [of _ vm']) simp
    next
      case (2 vm')
      then show ?thesis using False st by (intro exI [of _ True] exI [of _ vm']) simp
    qed
    ultimately show ?thesis by (intro exI [of _ "PushByteArray d (dstack vm)"]) (auto simp: PushByteArray_def)
  qed
qed simp

lemma next_script_witness:
  assumes "next_script vm = Ok (d, vm')" "scriptIdx vm = 0" "witnessProgram vm = Some prog"
  shows "\<exists>vm3. verifyWitnessProgram (Witness (tx_TxIn (eng_tx vm) ! txIdx vm))
      (vm\<lparr> astack := (astack vm)\<lparr> stk := [] \<rparr>, numOps := 0, scriptOff := 0, scriptIdx := 1, dstack := (dstack vm)\<lparr> stk := [] \<rparr> \<rparr>) = Ok vm3 \<and>
    enter_script vm3 = (d, vm')"
  using assms by (auto simp: next_script_def leave_script_def Let_def res_simps split: if_splits)

lemma add_script_Ok:
  "add_script script vm = Ok vm' \<longleftrightarrow>
    length script \<le> maxScriptSize \<and> (\<exists>pops. parsed script = Ok pops \<and> vm' = vm\<lparr> scripts := scripts vm @ [pops] \<rparr>)"
  by (auto simp: add_script_def res_simps)

text \<open>What the check of the witness demands, and the scripts it appends.\<close>

lemma verifyWitnessProgram_Ok:
  assumes "verifyWitnessProgram witness vm = Ok vm'"
  shows "\<exists>w0 w1 p0 p1 vm1. witness = [w0, w1] \<and> w0 \<noteq> [] \<and> witnessProgram vm = Some (sha256_Sum256 w1) \<and>
    length w0 \<le> maxScriptSize \<and> length w1 \<le> maxScriptSize \<and> parsed w0 = Ok p0 \<and> parsed w1 = Ok p1 \<and>
    witness_ext vm = Ok vm1 \<and> vm' = vm1\<lparr> scripts := scripts vm1 @ [p0, p1] \<rparr>"
proof -
  obtain vm1 where "length witness = 2" and w: "witness ! 0 \<noteq> []" "witness ! 1 \<noteq> []"
    "witnessProgram vm = Some (sha256_Sum256 (witness ! 1))" "witness_ext vm = Ok vm1" "foldR add_script witness vm1 = Ok vm'"
    using assms by (auto simp: verifyWitnessProgram_def Let_def res_simps split: if_splits)
  moreover then obtain w0 w1 where e: "witness = [w0, w1]" by (auto simp: numeral_2_eq_2 length_Suc_conv)
  ultimately obtain p0 p1 where
    "length w0 \<le> maxScriptSize" "length w1 \<le> maxScriptSize" "parsed w0 = Ok p0" "parsed w1 = Ok p1"
    "vm' = vm1\<lparr> scripts := scripts vm1 @ [p0, p1] \<rparr>"
    by (auto simp: add_script_Ok res_simps)
  then show ?thesis using w e by auto
qed

lemma bit_imp_le: "bit (w :: u64) n \<Longrightarrow> 2 ^ n \<le> unat w"
proof (rule ccontr)
  assume "bit w n" "\<not> 2 ^ n \<le> unat w"
  moreover from this have "bit (unat w) n" by (simp add: bit_unsigned_iff)
  ultimately show False by (simp add: bit_iff_odd)
qed

lemma sn_value_Put64:
  assumes "unat x < 2 ^ 63"
  shows "sn_value (le_PutUint64 x) = int (unat x)"
proof -
  let ?v = "le_PutUint64 x"
  have l: "length ?v = 8" by simp
  have ne: "?v \<noteq> []" by (metis l list.size(3) zero_neq_numeral)
  have "le_val ?v = unat x" by (simp add: le_PutUint64_def le_val_put_le)
  then have s: "unat x = le_val (butlast ?v) + 256 ^ 7 * unat (last ?v)" using le_val_snoc [OF ne] l by simp
  then have "unat (last ?v) < 128" using assms by simp
  then show ?thesis using s l ne by (simp add: sn_value_def sn_magnitude_def)
qed

text \<open>The lock that \<^verbatim>\<open>OP_CHECKSEQUENCEVERIFY\<close> enforces for a number of blocks: neither the bit that disables the
  lock nor the bit for seconds is set in the sequence number, and its low 32 bits reach the number.\<close>

definition block_lock :: "nat \<Rightarrow> u64 \<Rightarrow> bool" where
  "block_lock n sequence \<longleftrightarrow> \<not> bit sequence 63 \<and> \<not> bit sequence 38 \<and> n \<le> unat (sequence AND 0xffffffff)"

lemma verifyLockTime_blocks:
  assumes "verifyLockTime (s AND (SequenceLockTimeIsSeconds OR SequenceLockTimeMask)) SequenceLockTimeIsSeconds
      (l AND (SequenceLockTimeIsSeconds OR SequenceLockTimeMask)) = Ok ()" "unat l < 2 ^ 32"
  shows "\<not> bit s 38 \<and> unat l \<le> unat (s AND 0xffffffff)"
proof -
  let ?m = "SequenceLockTimeIsSeconds OR SequenceLockTimeMask"
  have thr: "SequenceLockTimeIsSeconds = 2 ^ 38" "unat (2 ^ 38 :: u64) = 2 ^ 38"
    by (simp_all add: SequenceLockTimeIsSeconds_def push_bit_eq_mult)
  have mask: "SequenceLockTimeMask = mask 32" by (simp add: SequenceLockTimeMask_def mask_eq_exp_minus_1)
  have lm: "l AND mask 32 = l" using assms(2) by (simp add: word_unat_eq_iff flip: take_bit_eq_mask) (simp add: unsigned_take_bit_eq take_bit_nat_eq_self)
  have "\<not> bit l 38" using bit_imp_le [of l 38] assms(2) by auto
  then have "l AND 2 ^ 38 = 0" by (rule iffD2 [OF and_exp_eq_0_iff_not_bit])
  then have l: "l AND ?m = l" unfolding thr(1) mask by (simp only: bit.conj_disj_distrib lm) simp
  have "\<not> 2 ^ 38 \<le> l" using assms(2) thr(2) by (simp add: word_le_nat_alt)
  moreover have "verifyLockTime (s AND ?m) (2 ^ 38) l = Ok ()" using assms(1) unfolding l unfolding thr(1) .
  ultimately have "s AND ?m < 2 ^ 38 \<and> l \<le> s AND ?m"
    unfolding thr(1) by (auto simp: verifyLockTime_def not_less split: if_splits)
  then have c: "s AND ?m < 2 ^ 38" "l \<le> s AND ?m" by simp_all
  have "\<not> bit s 38"
  proof
    assume "bit s 38"
    then have "bit (s AND ?m) 38" by (simp add: bit_and_iff bit_or_iff thr(1) bit_exp_iff)
    then have "2 ^ 38 \<le> unat (s AND ?m)" by (rule bit_imp_le)
    then show False using c(1) thr(2) by (simp add: word_less_nat_alt)
  qed
  moreover from this have "s AND 2 ^ 38 = 0" by (rule iffD2 [OF and_exp_eq_0_iff_not_bit])
  then have "s AND ?m = s AND SequenceLockTimeMask" unfolding thr(1) by (simp only: bit.conj_disj_distrib) simp
  ultimately show ?thesis using c(2) by (simp add: word_le_nat_alt SequenceLockTimeMask_def)
qed

lemma CheckSequenceVerify_blocks:
  assumes "opcodeCheckSequenceVerify pop vm = Ok vm'" "stk (dstack vm) = [le_PutUint64 l]" "\<not> verifyMinimalData (dstack vm)"
    "unat l < 2 ^ 32"
  shows "block_lock (unat l) (Sequence (tx_TxIn (eng_tx vm) ! txIdx vm))"
proof -
  let ?s = "Sequence (tx_TxIn (eng_tx vm) ! txIdx vm)"
  have n: "makeScriptNum (le_PutUint64 l) False 9 = Ok (int (unat l))"
    using assms(4) sn_value_Put64 [of l] by (simp add: makeScriptNum_value)
  have dis: "SequenceLockTimeDisabled = 2 ^ 63" by (simp add: SequenceLockTimeDisabled_def push_bit_eq_mult)
  have "\<not> bit l 63" using bit_imp_le [of l 63] assms(4) by auto
  then have l0: "l AND SequenceLockTimeDisabled = 0" unfolding dis by (rule iffD2 [OF and_exp_eq_0_iff_not_bit])
  have v: "verifyLockTime (?s AND (SequenceLockTimeIsSeconds OR SequenceLockTimeMask)) SequenceLockTimeIsSeconds
      (l AND (SequenceLockTimeIsSeconds OR SequenceLockTimeMask)) = Ok ()" "?s AND SequenceLockTimeDisabled = 0"
    using assms(1-3) n l0
    by (auto simp: opcodeCheckSequenceVerify_def PeekByteArray_def Let_def res_simps split: if_splits)
  have "\<not> bit ?s 63" using v(2) unfolding dis by (rule iffD1 [OF and_exp_eq_0_iff_not_bit])
  then show ?thesis using verifyLockTime_blocks [OF v(1) assms(4)] by (simp add: block_lock_def)
qed

lemma Execute_lock:
  assumes "scriptIdx vm = 1" "scriptOff vm = 0" "1 < length (scripts vm)" "plain vm" "stk (dstack vm) = []"
    "scripts vm ! 1 = [data_pop (le_PutUint64 l), op_pop OP_CHECKSEQUENCEVERIFY, op_pop OP_DROP]"
    "unat l < 2 ^ 32" "Execute C vm = Ok r"
  shows "block_lock (unat l) (Sequence (tx_TxIn (eng_tx vm) ! txIdx vm))"
proof -
  let ?vm = "vm\<lparr> scriptOff := 1, dstack := PushByteArray (le_PutUint64 l) (dstack vm) \<rparr>"
  have "pushes (data_pop (le_PutUint64 l)) (le_PutUint64 l)" by (simp add: pushes_def flip: length_greater_0_conv)
  then have "Step C vm = Ok (False, ?vm)" using Step_push [of vm "le_PutUint64 l" C] assms(1-4,6) by simp
  then have "Execute C ?vm = Ok r" using assms(8) Execute_next by metis
  then obtain d vm' where "Step C ?vm = Ok (d, vm')" by (cases rule: Execute_Ok_cases) auto
  then obtain vm1 where "executeOpcode C (op_pop OP_CHECKSEQUENCEVERIFY) (?vm\<lparr> scriptOff := 2 \<rparr>) = Ok vm1"
    using assms(1,3,6) by (auto simp: Step_def validPC_def res_simps numeral_2_eq_2)
  then have "opcodeCheckSequenceVerify (op_pop OP_CHECKSEQUENCEVERIFY) (?vm\<lparr> scriptOff := 2, numOps := numOps vm + 1 \<rparr>) = Ok vm1"
    using assms(4) by (auto simp: executeOpcode_def isBranchExecuting_def plain_def PushByteArray_def Let_def split: if_splits)
  from CheckSequenceVerify_blocks [OF this, of l] show ?thesis
    using assms(4,5,7) by (simp add: PushByteArray_def plain_def)
qed

lemma CheckErrorCondition_Ok:
  assumes "CheckErrorCondition True vm = Ok r"
  shows "scripts r = scripts vm \<and> length (scripts r) \<le> scriptIdx r \<and> stk (dstack r) = []"
  using assms
  by (auto simp: CheckErrorCondition_def PopBool_def PopByteArray_def nipN_def Depth_def Let_def res_simps split: if_splits)

lemma Execute_scripts:
  assumes "Execute C vm = Ok r" "0 < scriptIdx vm"
  shows "scripts r = scripts vm \<and> length (scripts r) \<le> scriptIdx r \<and> stk (dstack r) = []"
  using assms
proof (induction C vm rule: Execute.induct)
  case (1 C vm)
  have keep: "scripts vm' = scripts vm \<and> 0 < scriptIdx vm'" if "Step C vm = Ok (d, vm')" for d vm'
    using that
  proof (cases rule: Step_cases)
    case (script_end vm1)
    have f: "scripts vm1 = scripts vm" "scriptIdx vm1 = scriptIdx vm"
      using script_end(1) by (simp_all add: bounded_ops_def frame_def)
    show ?thesis
    proof (rule next_script_fields [OF script_end(2)])
      fix ex
      assume "scripts vm' = scripts vm1 @ ex" "scriptIdx vm1 \<noteq> 0 \<or> witnessProgram vm1 = None \<longrightarrow> ex = []"
        "scriptIdx vm1 < scriptIdx vm'"
      then show ?thesis using f 1(3) by simp
    qed
  qed (use 1(3) in \<open>simp add: bounded_ops_def frame_def\<close>)
  from 1(2) show ?case
  proof (cases rule: Execute_Ok_cases)
    case (1 vm')
    then show ?thesis using "1.IH" [of "(False, vm')" False vm'] keep [OF 1(1)] by auto
  next
    case (2 vm')
    then show ?thesis using keep [OF 2(1)] CheckErrorCondition_Ok [OF 2(2)] by metis
  qed
qed

lemma enter_script_stay:
  "1 < length (scripts vm) \<Longrightarrow> scriptIdx vm = 1 \<Longrightarrow> scriptOff vm = 0 \<Longrightarrow> scripts vm ! 1 \<noteq> [] \<Longrightarrow>
    enter_script vm = (False, vm\<lparr> lastCodeSep := 0 \<rparr>)"
  by (simp add: enter_script_def)

text \<open>Spending an output with a witness program: the witness consists of two scripts, the second of which hashes to
  the program, and the output script, the lock if there is one and the two scripts are what was executed.\<close>

definition spent_by :: "byte list \<Rightarrow> byte list \<Rightarrow> parsedOpcode list list \<Rightarrow> byte list list \<Rightarrow> Engine \<Rightarrow> bool" where
  "spent_by pkScript prog lock witness r \<longleftrightarrow>
    (\<exists>w0 w1 pops p0 p1. witness = [w0, w1] \<and> w0 \<noteq> [] \<and> sha256_Sum256 w1 = prog \<and>
      length w0 \<le> maxScriptSize \<and> length w1 \<le> maxScriptSize \<and>
      parsed pkScript = Ok pops \<and> parsed w0 = Ok p0 \<and> parsed w1 = Ok p1 \<and>
      scripts r = [pops] @ lock @ [p0, p1] \<and> length (scripts r) \<le> scriptIdx r \<and> stk (dstack r) = [])"

lemma Execute_witness_check:
  assumes "NewEngine pkScript tx idx fl sc hc amount = Ok vm" "Execute C vm = Ok r"
    "parsed pkScript = Ok pops" "isMASSWitnessProgram pops \<or> isWitnessProgram pops"
    "list_all2 pushes pops ds" "length ds \<le> 4"
  shows "\<exists>vm1 vm2. scripts vm1 = [pops] \<and> scriptIdx vm1 = 1 \<and> scriptOff vm1 = 0 \<and> plain vm1 \<and> stk (dstack vm1) = [] \<and>
    engine_context vm1 = ((tx, nat idx, fl, hc), (asSmallInt (pop_opcode (pops ! 0)), Some (pop_data (pops ! 1)), drop 2 pops, amount)) \<and>
    verifyWitnessProgram (Witness (tx_TxIn tx ! nat idx)) vm1 = Ok vm2 \<and>
    (case enter_script vm2 of (True, vm3) \<Rightarrow> CheckErrorCondition True vm3 = Ok r | (False, vm3) \<Rightarrow> Execute C vm3 = Ok r)"
proof -
  have vm: "vm = \<lparr> scripts = [pops], scriptIdx = 0, scriptOff = 0, lastCodeSep = 0,
      dstack = \<lparr> stk = [], verifyMinimalData = False \<rparr>, astack = \<lparr> stk = [], verifyMinimalData = False \<rparr>,
      eng_tx = tx, txIdx = nat idx, condStack = [], numOps = 0, flags = fl, sigCache = sc, hashCache = hc,
      witnessVersion = asSmallInt (pop_opcode (pops ! 0)), witnessProgram = Some (pop_data (pops ! 1)),
      witnessExtProg = drop 2 pops, inputAmount = amount \<rparr>"
    using assms(1,3,4) by (auto simp: NewEngine_def extractWitnessProgramInfo_def Let_def split: if_splits)
  have "pops \<noteq> []" using assms(4) by (auto simp: isMASSWitnessProgram_def isWitnessProgram_def)
  then have "ds \<noteq> []" using assms(5) by auto
  from Execute_pushes [of vm pops ds C r] obtain s d vm' where n:
    "next_script (vm\<lparr> scriptOff := length pops, dstack := s \<rparr>) = Ok (d, vm')" "verifyMinimalData s = False"
    "if d then CheckErrorCondition True vm' = Ok r else Execute C vm' = Ok r"
    using assms(2,5,6) \<open>ds \<noteq> []\<close> by (auto simp: vm plain_def)
  from next_script_witness [OF n(1)] obtain vm3 where v:
    "verifyWitnessProgram (Witness (tx_TxIn tx ! nat idx)) (vm\<lparr> scriptOff := 0, scriptIdx := 1, dstack := s\<lparr> stk := [] \<rparr> \<rparr>) = Ok vm3"
    "enter_script vm3 = (d, vm')"
    by (auto simp: vm)
  show ?thesis
    by (rule exI [of _ "vm\<lparr> scriptOff := 0, scriptIdx := 1, dstack := s\<lparr> stk := [] \<rparr> \<rparr>"], rule exI [of _ vm3])
      (use v n(2,3) in \<open>auto simp: plain_def vm engine_context_def frame_def split: bool.splits\<close>)
qed

text \<open>From the check of the witness to the end.\<close>

lemma witness_check_spent:
  assumes "verifyWitnessProgram witness vm1 = Ok vm2" "scripts vm1 = [pops]" "scriptIdx vm1 = 1"
    "parsed pkScript = Ok pops" "witnessProgram vm1 = Some prog"
    "witness_ext vm1 = Ok (vm1\<lparr> scripts := [pops] @ lock \<rparr>)"
    "case enter_script vm2 of (True, vm3) \<Rightarrow> CheckErrorCondition True vm3 = Ok r | (False, vm3) \<Rightarrow> Execute C vm3 = Ok r"
  shows "spent_by pkScript prog lock witness r"
proof -
  obtain w0 w1 p0 p1 where w: "witness = [w0, w1]" "w0 \<noteq> []" "sha256_Sum256 w1 = prog" "length w0 \<le> maxScriptSize"
    "length w1 \<le> maxScriptSize" "parsed w0 = Ok p0" "parsed w1 = Ok p1"
    "vm2 = vm1\<lparr> scripts := [pops] @ lock @ [p0, p1] \<rparr>"
    using verifyWitnessProgram_Ok [OF assms(1)] assms(5,6) by auto
  obtain d vm3 where e: "enter_script vm2 = (d, vm3)" by (cases "enter_script vm2")
  have v3: "scripts vm3 = scripts vm2" "0 < scriptIdx vm3"
    using enter_script_eq [OF e] w(8) assms(3) by (auto dest: arg_cong [of vm3 _ scripts])
  have "scripts r = scripts vm3 \<and> length (scripts r) \<le> scriptIdx r \<and> stk (dstack r) = []"
  proof (cases d)
    case True
    then have "CheckErrorCondition True vm3 = Ok r" using assms(7) e by simp
    then show ?thesis by (rule CheckErrorCondition_Ok)
  next
    case False
    then have "Execute C vm3 = Ok r" using assms(7) e by simp
    then show ?thesis using v3(2) by (rule Execute_scripts)
  qed
  then show ?thesis using w v3(1) assms(4) unfolding spent_by_def by auto
qed

lemma canonicalPush_data: "2 \<le> length d \<Longrightarrow> length d \<le> 75 \<Longrightarrow> canonicalPush (data_pop d)"
proof -
  assume d: "2 \<le> length d" "length d \<le> 75"
  have "unat (word_of_nat (length d) :: byte) = length d" using d by (simp add: unat_of_nat)
  then have "(word_of_nat (length d) :: byte) \<le> 75" using d by (simp add: word_le_nat_alt)
  then show ?thesis using d by (auto simp: canonicalPush_def Let_def)
qed


abbreviation lock_pops :: "u64 \<Rightarrow> parsedOpcode list" where
  "lock_pops l \<equiv> [data_pop (le_PutUint64 l), op_pop OP_CHECKSEQUENCEVERIFY, op_pop OP_DROP]"

lemma witness_check_lock:
  assumes "verifyWitnessProgram witness vm1 = Ok vm2" "scripts vm1 = [pops]" "scriptIdx vm1 = 1" "scriptOff vm1 = 0"
    "plain vm1" "stk (dstack vm1) = []"
    "witness_ext vm1 = Ok (vm1\<lparr> scripts := [pops] @ [lock_pops l] \<rparr>)" "unat l < 2 ^ 32"
    "case enter_script vm2 of (True, vm3) \<Rightarrow> CheckErrorCondition True vm3 = Ok r | (False, vm3) \<Rightarrow> Execute C vm3 = Ok r"
  shows "block_lock (unat l) (Sequence (tx_TxIn (eng_tx vm1) ! txIdx vm1))"
proof -
  obtain p0 p1 where v: "vm2 = vm1\<lparr> scripts := [pops] @ [lock_pops l] @ [p0, p1] \<rparr>"
    using verifyWitnessProgram_Ok [OF assms(1)] assms(7) by auto
  let ?vm = "vm2\<lparr> lastCodeSep := 0 \<rparr>"
  have "enter_script vm2 = (False, ?vm)" using assms(3,4) by (intro enter_script_stay) (simp_all add: v)
  then have "Execute C ?vm = Ok r" using assms(9) by simp
  then have "block_lock (unat l) (Sequence (tx_TxIn (eng_tx ?vm) ! txIdx ?vm))"
    using assms(3-6,8) by (intro Execute_lock) (simp_all add: v plain_def)
  then show ?thesis by (simp add: v)
qed

lemma mass_program:
  assumes "length h = 32" "length t = 8 \<or> length t = 20 \<or> length t = 22"
  shows "isMASSWitnessProgram [op_pop OP_0, data_pop h, data_pop t]"
    and "list_all2 pushes [op_pop OP_0, data_pop h, data_pop t] [[], h, t]"
proof -
  have "canonicalPush (data_pop h)" "canonicalPush (data_pop t)" using assms by (intro canonicalPush_data; auto)+
  then show "isMASSWitnessProgram [op_pop OP_0, data_pop h, data_pop t]"
    using assms by (simp add: isMASSWitnessProgram_def isSmallInt_def)
  show "list_all2 pushes [op_pop OP_0, data_pop h, data_pop t] [[], h, t]"
    using assms by (auto simp: pushes_def)
qed

lemma staking_ext:
  assumes "witnessExtProg vm = [data_pop (le_PutUint64 p)]" "\<not> verifyMinimalData (dstack vm)" "unat p + 1 < 2 ^ 32" "scripts vm = [pops]"
  shows "witness_ext vm = Ok (vm\<lparr> scripts := [pops] @ [lock_pops (p + 1)] \<rparr>)"
proof -
  have n: "makeScriptNum (le_PutUint64 p) False 9 = Ok (int (unat p))"
    using assms(3) sn_value_Put64 [of p] by (simp add: makeScriptNum_value)
  have "int64 (int m)" if "m < 2 ^ 32" for m using that by (simp add: int64_def)
  from this [OF assms(3)] have "wrap64 (int (unat p) + 1) = int (unat p) + 1"
    by (intro wrap64_id) (simp only: of_nat_add of_nat_1)
  moreover have "word_of_int (int (unat p) + 1) = p + 1" by simp
  moreover have "\<not> uint p + 1 < 0" using uint_ge_0 [of p] by linarith
  ultimately show ?thesis
    using assms n by (simp add: witness_ext_def WitnessV0FrozenPeriodDataSize_def lock_script_eq)
qed

text \<open>C11 (spending a staking output). When executing the scripts of an input that spends a staking output with a
  frozen period succeeds, the witness fits the output as for a plain witness output, and the sequence number of the
  input locks the input for more blocks than the frozen period.\<close>

theorem spend_staking_output:
  assumes "payToStakingScriptHashScript h p = Ok pkScript" "IsValidFrozenPeriod p" "length h = 32"
    "NewEngine pkScript tx idx fl sc hc amount = Ok vm" "Execute C vm = Ok r"
  shows "\<exists>lock. spent_by pkScript h [lock] (Witness (tx_TxIn tx ! nat idx)) r \<and>
    block_lock (unat p + 1) (Sequence (tx_TxIn tx ! nat idx))"
proof -
  have pk: "pkScript = OP_0 # OP_DATA_32 # h @ word_of_nat 8 # le_PutUint64 p"
    using assms(1-3) pay_script_forms(2) by simp
  let ?pops = "[op_pop OP_0, data_pop h, data_pop (le_PutUint64 p)]"
  have parse: "parsed pkScript = Ok ?pops" unfolding pk using assms(3) by (intro parsed_extended) simp_all
  note m = mass_program [OF assms(3), of "le_PutUint64 p"]
  from Execute_witness_check [OF assms(4,5) parse disjI1 [OF m(1)] m(2)] obtain vm1 vm2 where v:
    "scripts vm1 = [?pops]" "scriptIdx vm1 = 1" "scriptOff vm1 = 0" "plain vm1" "stk (dstack vm1) = []"
    "engine_context vm1 = ((tx, nat idx, fl, hc), (0, Some h, [data_pop (le_PutUint64 p)], amount))"
    "verifyWitnessProgram (Witness (tx_TxIn tx ! nat idx)) vm1 = Ok vm2"
    "case enter_script vm2 of (True, vm3) \<Rightarrow> CheckErrorCondition True vm3 = Ok r | (False, vm3) \<Rightarrow> Execute C vm3 = Ok r"
    by (auto simp: asSmallInt_def)
  have c: "eng_tx vm1 = tx" "txIdx vm1 = nat idx" "witnessProgram vm1 = Some h" "witnessExtProg vm1 = [data_pop (le_PutUint64 p)]"
    using v(6) by (simp_all add: engine_context_def frame_def)
  have p: "unat p + 1 < 2 ^ 32" using assms(2) by (simp add: IsValidFrozenPeriod_def SequenceLockTimeMask_def word_le_nat_alt)
  then have u: "unat (p + 1) = unat p + 1" by (simp add: unat_word_ariths)
  have ext: "witness_ext vm1 = Ok (vm1\<lparr> scripts := [?pops] @ [lock_pops (p + 1)] \<rparr>)"
    using c(4) p v(1,4) by (intro staking_ext) (simp_all add: plain_def)
  have "spent_by pkScript h [lock_pops (p + 1)] (Witness (tx_TxIn tx ! nat idx)) r"
    using witness_check_spent [OF v(7,1,2) parse c(3) ext v(8)] .
  moreover have "block_lock (unat p + 1) (Sequence (tx_TxIn tx ! nat idx))"
    using witness_check_lock [OF v(7,1-5) ext _ v(8)] p u c(1,2) by simp
  ultimately show ?thesis by blast
qed

text \<open>C12 (spending a binding output). When executing the scripts of an input that spends a binding output succeeds,
  the witness fits the output as for a plain witness output; under the rules of the second improvement proposal the
  sequence number of the input also locks it for 4294967294 blocks.\<close>

theorem spend_binding_output:
  assumes "payToBindingScriptHashScript h t = Ok pkScript" "length h = 32" "length t = 20 \<or> length t = 22"
    "NewEngine pkScript tx idx fl sc hc amount = Ok vm" "Execute C vm = Ok r"
  shows "\<exists>lock. spent_by pkScript h lock (Witness (tx_TxIn tx ! nat idx)) r \<and>
    (if fl AND ScriptMASSip2 = ScriptMASSip2 then length lock = 1 \<and> block_lock 4294967294 (Sequence (tx_TxIn tx ! nat idx))
     else lock = [])"
proof -
  have pk: "pkScript = OP_0 # OP_DATA_32 # h @ word_of_nat (length t) # t"
    using assms(1-3) pay_script_forms(3) by simp
  let ?pops = "[op_pop OP_0, data_pop h, data_pop t]"
  have parse: "parsed pkScript = Ok ?pops" unfolding pk using assms(2,3) by (intro parsed_extended) auto
  have m: "isMASSWitnessProgram ?pops" "list_all2 pushes ?pops [[], h, t]" using mass_program assms(2,3) by blast+
  from Execute_witness_check [OF assms(4,5) parse disjI1 [OF m(1)] m(2)] obtain vm1 vm2 where v:
    "scripts vm1 = [?pops]" "scriptIdx vm1 = 1" "scriptOff vm1 = 0" "plain vm1" "stk (dstack vm1) = []"
    "engine_context vm1 = ((tx, nat idx, fl, hc), (0, Some h, [data_pop t], amount))"
    "verifyWitnessProgram (Witness (tx_TxIn tx ! nat idx)) vm1 = Ok vm2"
    "case enter_script vm2 of (True, vm3) \<Rightarrow> CheckErrorCondition True vm3 = Ok r | (False, vm3) \<Rightarrow> Execute C vm3 = Ok r"
    by (auto simp: asSmallInt_def)
  have c: "eng_tx vm1 = tx" "txIdx vm1 = nat idx" "witnessProgram vm1 = Some h" "witnessExtProg vm1 = [data_pop t]" "flags vm1 = fl"
    using v(6) by (simp_all add: engine_context_def frame_def)
  show ?thesis
  proof (cases "fl AND ScriptMASSip2 = ScriptMASSip2")
    case True
    have ext: "witness_ext vm1 = Ok (vm1\<lparr> scripts := [?pops] @ [lock_pops MASSIP0002BindingLockedPeriod] \<rparr>)"
      using c(4,5) v(1) assms(3) True
      by (auto simp: witness_ext_def WitnessV0FrozenPeriodDataSize_def hasFlag_def lock_script_eq)
    have "block_lock 4294967294 (Sequence (tx_TxIn tx ! nat idx))"
      using witness_check_lock [OF v(7,1-5) ext _ v(8)] c(1,2) by (simp add: params)
    then show ?thesis using witness_check_spent [OF v(7,1,2) parse c(3) ext v(8)] True by auto
  next
    case False
    then have "witness_ext vm1 = Ok (vm1\<lparr> scripts := [?pops] @ [] \<rparr>)"
      using c(4,5) v(1) assms(3) by (auto simp: witness_ext_def WitnessV0FrozenPeriodDataSize_def hasFlag_def)
    from witness_check_spent [OF v(7,1,2) parse c(3) this v(8)] show ?thesis using False by auto
  qed
qed

section \<open>Examples\<close>

lemma example_op_funcs [simp]:
  "op_func (opcodeArray OP_NOP) = Fn_Nop" "op_func (opcodeArray OP_1) = Fn_N" "op_func (opcodeArray OP_DROP) = Fn_Drop"
  "op_length (opcodeArray OP_NOP) = 1" "op_length (opcodeArray OP_1) = 1"
  by (simp_all add: opcodeArray_def opcode_tables op_length_opcodeArray)

lemma example_parsed: "parsed [OP_NOP] = Ok [op_pop OP_NOP]" "parsed [OP_1] = Ok [op_pop OP_1]"
  by (simp_all add: parsed_Ok_iff pop_bytes_op)

lemma Step_NOP_end:
  assumes "scriptIdx vm < length (scripts vm)" "scripts vm ! scriptIdx vm = [op_pop OP_NOP]" "scriptOff vm = 0" "plain vm" "numOps vm = 0"
  shows "Step C vm = next_script (vm\<lparr> scriptOff := 1, numOps := 1 \<rparr>)"
  using assms
  by (simp add: Step_def validPC_def executeOpcode_def isDisabled_def alwaysIllegal_def isBranchExecuting_def plain_def
      MaxOpsPerScript_def opcodeNop_def Depth_def maxStackSize_def)

lemma Step_OP_1_end:
  assumes "scriptIdx vm < length (scripts vm)" "scripts vm ! scriptIdx vm = [op_pop OP_1]" "scriptOff vm = 0" "plain vm"
  shows "Step C vm = next_script (vm\<lparr> scriptOff := 1, dstack := PushByteArray [1] (dstack vm) \<rparr>)"
proof -
  have "scriptNum_Bytes 1 = Ok [1]" by (simp add: scriptNum_Bytes_def le_digits.simps)
  then show ?thesis
    using assms
    by (simp add: Step_def validPC_def executeOpcode_def isDisabled_def alwaysIllegal_def isBranchExecuting_def plain_def
        MaxScriptElementSize_def opcodeN_def on_dstack_def PushInt_def Depth_def maxStackSize_def PushByteArray_def)
qed

lemma Execute_example_tail:
  assumes "scripts vm = xs @ [[op_pop OP_NOP], [op_pop OP_1]]" "scriptIdx vm = length xs" "xs \<noteq> []" "scriptOff vm = 0"
    "plain vm" "stk (dstack vm) = []" "numOps vm = 0"
  shows "\<exists>r. Execute C vm = Ok r"
proof -
  let ?vm1 = "vm\<lparr> astack := (astack vm)\<lparr> stk := [] \<rparr>, numOps := 0, scriptIdx := length xs + 1, lastCodeSep := 0 \<rparr>"
  have "Step C vm = Ok (False, ?vm1)"
    using assms Step_NOP_end [of vm C]
    by (simp add: next_script_def leave_script_def enter_script_def plain_def nth_append)
  moreover have "Step C ?vm1 = next_script (?vm1\<lparr> scriptOff := 1, dstack := PushByteArray [1] (dstack vm) \<rparr>)"
    using assms Step_OP_1_end [of ?vm1 C] by (simp add: plain_def nth_append)
  then have "\<exists>vm2. Step C ?vm1 = Ok (True, vm2) \<and> stk (dstack vm2) = [[1]] \<and> length (scripts vm2) \<le> scriptIdx vm2"
    using assms by (simp add: next_script_def leave_script_def enter_script_def plain_def PushByteArray_def)
  then obtain vm2 where "Step C ?vm1 = Ok (True, vm2)" "stk (dstack vm2) = [[1]]" "length (scripts vm2) \<le> scriptIdx vm2"
    by blast
  moreover have "\<exists>r. CheckErrorCondition True vm2 = Ok r"
    using \<open>stk (dstack vm2) = [[1]]\<close> \<open>length (scripts vm2) \<le> scriptIdx vm2\<close>
    by (simp add: CheckErrorCondition_def PopBool_def PopByteArray_def nipN_def Depth_def asBool_def)
  moreover have "Execute C ?vm1 = CheckErrorCondition True vm2"
    using \<open>Step C ?vm1 = Ok (True, vm2)\<close> by (subst Execute.simps) (simp del: One_nat_def)
  ultimately show ?thesis using Execute_next [of C vm ?vm1] by metis
qed

definition example_tx :: "u64 \<Rightarrow> MsgTx" where
  "example_tx sequence =
    sample_tx\<lparr> tx_TxIn := [(hd (tx_TxIn sample_tx))\<lparr> Witness := [[OP_NOP], [OP_1]], Sequence := sequence \<rparr>] \<rparr>"

abbreviation example_hash :: "byte list" where
  "example_hash \<equiv> sha256_Sum256 [OP_1]"

lemma example_tx_fields [simp]:
  "tx_TxIn (example_tx s) ! 0 = (hd (tx_TxIn sample_tx))\<lparr> Witness := [[OP_NOP], [OP_1]], Sequence := s \<rparr>"
  "length (tx_TxIn (example_tx s)) = 1"
  by (simp_all add: example_tx_def)

text \<open>The engine for an output script of pushes after it has checked the witness.\<close>

lemma example_witness_check:
  assumes "witness_ext vm = Ok (vm\<lparr> scripts := scripts vm @ lock \<rparr>)" "isWitnessVersionActive vm 0"
    "witnessProgram vm = Some example_hash" "stk (dstack vm) = []"
  shows "verifyWitnessProgram [[OP_NOP], [OP_1]] vm = Ok (vm\<lparr> scripts := scripts vm @ lock @ [[op_pop OP_NOP], [op_pop OP_1]] \<rparr>)"
  using assms by (simp add: verifyWitnessProgram_def add_script_def example_parsed maxScriptSize_def GetStack_def getStack_def)

text \<open>Pushes at the start of an execution.\<close>

lemma Execute_push:
  assumes "scripts vm = [ps]" "scriptIdx vm = 0" "scriptOff vm + 1 < length ps" "pushes (ps ! scriptOff vm) d" "plain vm"
  shows "Execute C vm = Execute C (vm\<lparr> scriptOff := scriptOff vm + 1, dstack := PushByteArray d (dstack vm) \<rparr>)"
  using assms by (intro Execute_next) (simp add: Step_push)

lemma Execute_last_push:
  assumes "scripts vm = [ps]" "scriptIdx vm = 0" "scriptOff vm + 1 = length ps" "pushes (ps ! scriptOff vm) d" "plain vm"
    "next_script (vm\<lparr> scriptOff := length ps, dstack := PushByteArray d (dstack vm) \<rparr>) = Ok (False, vm')"
  shows "Execute C vm = Execute C vm'"
  using assms by (intro Execute_next) (simp add: Step_push)


lemma CheckSequenceVerify_example:
  assumes "stk (dstack vm) = [le_PutUint64 l]" "\<not> verifyMinimalData (dstack vm)" "unat l < 2 ^ 32"
    "txIdx vm < length (tx_TxIn (eng_tx vm))" "Sequence (tx_TxIn (eng_tx vm) ! txIdx vm) = l"
  shows "opcodeCheckSequenceVerify pop vm = Ok vm"
proof -
  have n: "makeScriptNum (le_PutUint64 l) False 9 = Ok (int (unat l))"
    using assms(3) sn_value_Put64 [of l] by (simp add: makeScriptNum_value)
  have "\<not> bit l 63" using bit_imp_le [of l 63] assms(3) by auto
  then have "l AND 2 ^ 63 = 0" by (rule iffD2 [OF and_exp_eq_0_iff_not_bit])
  then have "l AND SequenceLockTimeDisabled = 0" by (simp add: SequenceLockTimeDisabled_def push_bit_eq_mult)
  moreover have "verifyLockTime x t x = Ok ()" for x t by (auto simp: verifyLockTime_def)
  ultimately show ?thesis
    using assms n by (simp add: opcodeCheckSequenceVerify_def PeekByteArray_def)
qed

lemma Execute_lock_example:
  assumes "scripts vm = [ps, lock_pops l, [op_pop OP_NOP], [op_pop OP_1]]" "scriptIdx vm = 1" "scriptOff vm = 0" "plain vm"
    "stk (dstack vm) = []" "numOps vm = 0" "unat l < 2 ^ 32" "txIdx vm < length (tx_TxIn (eng_tx vm))"
    "Sequence (tx_TxIn (eng_tx vm) ! txIdx vm) = l"
  shows "\<exists>r. Execute C vm = Ok r"
proof -
  let ?vm1 = "vm\<lparr> scriptOff := 1, dstack := PushByteArray (le_PutUint64 l) (dstack vm) \<rparr>"
  let ?vm2 = "?vm1\<lparr> scriptOff := Suc (Suc 0), numOps := 1 \<rparr>"
  let ?vm3 = "vm\<lparr> astack := (astack vm)\<lparr> stk := [] \<rparr>, scriptIdx := Suc (Suc 0), lastCodeSep := 0 \<rparr>"
  have "pushes (data_pop (le_PutUint64 l)) (le_PutUint64 l)" by (simp add: pushes_def flip: length_greater_0_conv)
  then have s1: "Step C vm = Ok (False, ?vm1)" using Step_push [of vm "le_PutUint64 l" C] assms(1-4) by simp
  have "opcodeCheckSequenceVerify (op_pop OP_CHECKSEQUENCEVERIFY) ?vm2 = Ok ?vm2"
    using assms by (intro CheckSequenceVerify_example [of _ l]) (simp_all add: PushByteArray_def plain_def)
  then have s2: "Step C ?vm1 = Ok (False, ?vm2)"
    using assms by (simp add: Step_def validPC_def executeOpcode_def isDisabled_def alwaysIllegal_def isBranchExecuting_def
        plain_def MaxOpsPerScript_def Depth_def maxStackSize_def PushByteArray_def)
  have s3: "Step C ?vm2 = Ok (False, ?vm3)"
    using assms
    by (simp add: Step_def validPC_def executeOpcode_def isDisabled_def alwaysIllegal_def isBranchExecuting_def opcodeDrop_def
        on_dstack_def DropN_def PopByteArray_def nipN_def next_script_def leave_script_def enter_script_def
        plain_def MaxOpsPerScript_def Depth_def maxStackSize_def PushByteArray_def)
  have "\<exists>r. Execute C ?vm3 = Ok r"
    using assms by (intro Execute_example_tail [of _ "[ps, lock_pops l]"]) (simp_all add: plain_def)
  then show ?thesis using Execute_next [OF s1] Execute_next [OF s2] Execute_next [OF s3] by metis
qed

text \<open>Spending an output with an extended program by the example transaction.\<close>

lemma example_extended:
  assumes "length t = 8 \<or> length t = 20 \<or> length t = 22" "pkScript = OP_0 # OP_DATA_32 # example_hash @ word_of_nat (length t) # t"
    "unat l < 2 ^ 32"
    "\<And>vm ps. witnessExtProg vm = [data_pop t] \<Longrightarrow> flags vm = fl \<Longrightarrow> \<not> verifyMinimalData (dstack vm) \<Longrightarrow> scripts vm = [ps] \<Longrightarrow>
      witness_ext vm = Ok (vm\<lparr> scripts := [ps] @ [lock_pops l] \<rparr>)"
  shows "\<exists>vm r. NewEngine pkScript (example_tx l) 0 fl None None 0 = Ok vm \<and> Execute C vm = Ok r"
proof -
  let ?pops = "[op_pop OP_0, data_pop example_hash, data_pop t]"
  have p: "parsed pkScript = Ok ?pops" unfolding assms(2) using assms(1) by (intro parsed_extended) auto
  have w: "isMASSWitnessProgram ?pops" using mass_program(1) [OF _ assms(1), of example_hash] by simp
  have len: "length pkScript \<le> maxScriptSize" using assms(1,2) by (auto simp: maxScriptSize_def)
  define vm where "vm = \<lparr> scripts = [?pops], scriptIdx = 0, scriptOff = 0, lastCodeSep = 0,
      dstack = \<lparr> stk = [], verifyMinimalData = False \<rparr>, astack = \<lparr> stk = [], verifyMinimalData = False \<rparr>,
      eng_tx = example_tx l, txIdx = 0, condStack = [], numOps = 0, flags = fl, sigCache = None, hashCache = None,
      witnessVersion = 0, witnessProgram = Some example_hash, witnessExtProg = [data_pop t], inputAmount = 0 \<rparr>"
  have n: "NewEngine pkScript (example_tx l) 0 fl None None 0 = Ok vm"
    using p w len assms(2) by (simp add: NewEngine_def extractWitnessProgramInfo_def vm_def asSmallInt_def)
  let ?vm1 = "vm\<lparr> scriptOff := 1, dstack := \<lparr> stk = [[]], verifyMinimalData = False \<rparr> \<rparr>"
  let ?vm2 = "vm\<lparr> scriptOff := Suc (Suc 0), dstack := \<lparr> stk = [[], example_hash], verifyMinimalData = False \<rparr> \<rparr>"
  let ?vm3 = "vm\<lparr> scriptIdx := 1, scripts := [?pops, lock_pops l, [op_pop OP_NOP], [op_pop OP_1]] \<rparr>"
  have ext: "witness_ext (vm\<lparr> scriptIdx := 1 \<rparr>) = Ok (vm\<lparr> scriptIdx := 1, scripts := [?pops] @ [lock_pops l] \<rparr>)"
    by (subst assms(4) [of _ ?pops]) (simp_all add: vm_def)
  have "Execute C vm = Execute C ?vm1"
    using Execute_push [of vm ?pops "[]" C] by (simp add: vm_def plain_def pushes_def PushByteArray_def)
  also have "\<dots> = Execute C ?vm2"
    using Execute_push [of ?vm1 ?pops example_hash C]
    by (simp add: vm_def plain_def pushes_def PushByteArray_def flip: length_greater_0_conv)
  also have "\<dots> = Execute C ?vm3"
  proof (rule Execute_last_push [where ps = ?pops and d = t])
    show "next_script (?vm2\<lparr> scriptOff := length ?pops, dstack := PushByteArray t (dstack ?vm2) \<rparr>) = Ok (False, ?vm3)"
      using example_witness_check [of "vm\<lparr> scriptIdx := 1 \<rparr>" "[lock_pops l]"] ext
      by (simp add: vm_def next_script_def leave_script_def enter_script_def Depth_def PushByteArray_def isWitnessVersionActive_def)
    show "pushes (?pops ! scriptOff ?vm2) t" using assms(1) by (auto simp: pushes_def)
  qed (simp_all add: vm_def plain_def)
  finally have "\<exists>r. Execute C vm = Ok r"
    using Execute_lock_example [of ?vm3 ?pops l C] assms(3) by (simp add: vm_def plain_def)
  then show ?thesis using n by blast
qed

theorem spend_staking_output_witness:
  "IsValidFrozenPeriod 61440 \<and>
   (\<exists>r lock. spent_by (OP_0 # OP_DATA_32 # example_hash @ 8 # le_PutUint64 61440) example_hash [lock] [[OP_NOP], [OP_1]] r \<and>
     block_lock 61441 (Sequence (tx_TxIn (example_tx 61441) ! nat 0)))"
proof -
  let ?pk = "OP_0 # OP_DATA_32 # example_hash @ 8 # le_PutUint64 61440"
  have v: "IsValidFrozenPeriod 61440" by (simp add: IsValidFrozenPeriod_def SequenceLockTimeMask_def params)
  have pay: "payToStakingScriptHashScript example_hash 61440 = Ok ?pk" using pay_script_forms(2) v by simp
  obtain vm r where "NewEngine ?pk (example_tx 61441) 0 0 None None 0 = Ok vm" "Execute toy_crypto vm = Ok r"
    using example_extended [of "le_PutUint64 61440" ?pk 61441 0 toy_crypto] staking_ext [where p = 61440] by auto
  from spend_staking_output [OF pay v _ this] show ?thesis using v by auto
qed

theorem spend_binding_output_witness:
  "\<exists>r lock. spent_by (OP_0 # OP_DATA_32 # example_hash @ 20 # replicate 20 7) example_hash lock [[OP_NOP], [OP_1]] r \<and>
     length lock = 1 \<and> block_lock 4294967294 (Sequence (tx_TxIn (example_tx 4294967294) ! nat 0))"
proof -
  let ?pk = "OP_0 # OP_DATA_32 # example_hash @ 20 # replicate 20 7"
  have pay: "payToBindingScriptHashScript example_hash (replicate 20 7) = Ok ?pk" using pay_script_forms(3) by simp
  obtain vm r where "NewEngine ?pk (example_tx 4294967294) 0 2 None None 0 = Ok vm" "Execute toy_crypto vm = Ok r"
    using example_extended [of "replicate 20 7" ?pk 4294967294 2 toy_crypto]
    by (auto simp: witness_ext_def WitnessV0FrozenPeriodDataSize_def hasFlag_def ScriptMASSip2_def lock_script_eq params)
  from spend_binding_output [OF pay _ _ this] show ?thesis by (auto simp: ScriptMASSip2_def)
qed

end
