(* ===== verification/Signatures.thy ===== *)
theory Signatures
  imports Engine_Ops "HOL-Library.Sublist"
begin

text \<open>
  The checks of signatures in the script engine (\<^verbatim>\<open>txscript/engine.go\<close>, \<^verbatim>\<open>txscript/opcode.go\<close>): which encodings of a
  signature \<open>checkSignatureEncoding\<close> accepts and on which it panics, and what the loop over several signatures
  and keys decides.
\<close>

section \<open>Encodings of signatures\<close>

text \<open>The bytes of a DER integer that is not negative and has no superfluous leading zero.\<close>

definition der_int :: "byte list \<Rightarrow> bool" where
  "der_int x \<longleftrightarrow> x \<noteq> [] \<and> unat (hd x) < 128 \<and> (1 < length x \<and> hd x = 0 \<longrightarrow> 128 \<le> unat (x ! 1))"

definition der_signature :: "byte list \<Rightarrow> byte list \<Rightarrow> byte list" where
  "der_signature R S = [0x30, word_of_nat (length R + length S + 4), 0x02, word_of_nat (length R)] @ R @ [0x02, word_of_nat (length S)] @ S"

lemma low_byte: "(b :: byte) AND 0x80 = 0 \<longleftrightarrow> unat b < 128"
  using byte_high_bit [of b] by linarith

lemma der_int_index:
  assumes "take n (drop k sig) = x" "0 < n" "k + n \<le> length sig"
  shows "der_int x \<longleftrightarrow> unat (sig ! k) < 128 \<and> (1 < n \<and> sig ! k = 0 \<longrightarrow> 128 \<le> unat (sig ! (k + 1)))"
proof -
  have "length x = n" using assms by auto
  moreover have "x ! i = sig ! (k + i)" if "i < n" for i using assms that by auto
  from this [of 0] this [of 1] have "hd x = sig ! k" "1 < n \<Longrightarrow> x ! 1 = sig ! (k + 1)"
    using assms(2) calculation by (auto simp: hd_conv_nth)
  ultimately show ?thesis using assms(2) by (auto simp: der_int_def)
qed

text \<open>The checks of the outer structure, and the checks of the two integers when the length of the second is
  inside the signature.\<close>

definition outer_ok :: "byte list \<Rightarrow> bool" where
  "outer_ok sig \<longleftrightarrow> 8 \<le> length sig \<and> length sig \<le> 72 \<and> sig ! 0 = 0x30 \<and> unat (sig ! 1) = length sig - 2"

definition inner_ok :: "('pk, 'sig) crypto \<Rightarrow> byte list \<Rightarrow> nat \<Rightarrow> nat \<Rightarrow> bool" where
  "inner_ok C sig r s \<longleftrightarrow> r + s + 6 = length sig \<and> sig ! 2 = 0x02 \<and> 0 < r \<and> 0 < s \<and> sig ! (r + 4) = 0x02 \<and>
    der_int (take r (drop 4 sig)) \<and> der_int (take s (drop (r + 6) sig)) \<and> int (be_val (take s (drop (r + 6) sig))) \<le> halfOrder C"

lemma check_outer: "\<not> outer_ok sig \<Longrightarrow> \<exists>e. checkSignatureEncoding C sig = Err e"
  by (auto simp: checkSignatureEncoding_def outer_ok_def Let_def)

lemma check_bounds:
  assumes "outer_ok sig" "length sig \<le> unat (sig ! 3) + 5"
  shows "checkSignatureEncoding C sig = (if unat (sig ! 3) + 5 = length sig then Panic else Err (ErrText ''malformed signature: S out of bounds''))"
  using assms by (auto simp: checkSignatureEncoding_def outer_ok_def Let_def at_def)

lemma check_inner:
  assumes "outer_ok sig" "unat (sig ! 3) = r" "r + 5 < length sig" "unat (sig ! (r + 5)) = s"
  shows "if inner_ok C sig r s then checkSignatureEncoding C sig = Ok () else \<exists>e. checkSignatureEncoding C sig = Err e"
proof (cases "r + s + 6 = length sig \<and> sig ! 2 = 0x02 \<and> 0 < r \<and> 0 < s \<and> sig ! (r + 4) = 0x02")
  case True
  have o: "\<not> length sig < 8" "\<not> length sig > 72" "sig ! 0 = 0x30" "unat (sig ! 1) = length sig - 2"
    using assms(1) by (simp_all add: outer_ok_def)
  have R: "der_int (take r (drop 4 sig)) \<longleftrightarrow> unat (sig ! 4) < 128 \<and> (1 < r \<and> sig ! 4 = 0 \<longrightarrow> 128 \<le> unat (sig ! 5))"
    using der_int_index [OF refl, of r 4 sig] True by simp
  have S: "der_int (take s (drop (r + 6) sig)) \<longleftrightarrow> unat (sig ! (r + 6)) < 128 \<and> (1 < s \<and> sig ! (r + 6) = 0 \<longrightarrow> 128 \<le> unat (sig ! (r + 7)))"
    using der_int_index [OF refl, of s "r + 6" sig] True by (simp add: add.commute)
  have i: "at sig (r + 5) = Ok (sig ! (r + 5))" "at sig (r + 6) = Ok (sig ! (r + 6))" "1 < s \<Longrightarrow> at sig (r + 7) = Ok (sig ! (r + 7))"
    using True by simp_all
  consider "128 \<le> unat (sig ! 4)" | "unat (sig ! 4) < 128" "1 < r \<and> sig ! 4 = 0 \<and> unat (sig ! 5) < 128"
    | "der_int (take r (drop 4 sig))" "128 \<le> unat (sig ! (r + 6))"
    | "der_int (take r (drop 4 sig))" "unat (sig ! (r + 6)) < 128" "1 < s \<and> sig ! (r + 6) = 0 \<and> unat (sig ! (r + 7)) < 128"
    | "der_int (take r (drop 4 sig))" "der_int (take s (drop (r + 6) sig))"
    unfolding R S by linarith
  then show ?thesis
  proof cases
    case 1
    then show ?thesis using o i(1) True assms(2-4) R by (simp add: checkSignatureEncoding_def Let_def byte_high_bit inner_ok_def)
  next
    case 2
    then show ?thesis using o i(1) True assms(2-4) R by (simp add: checkSignatureEncoding_def Let_def low_byte byte_high_bit inner_ok_def)
  next
    case 3
    then show ?thesis using o i(1,2) True assms(2-4) R S by (simp add: checkSignatureEncoding_def Let_def low_byte byte_high_bit inner_ok_def)
  next
    case 4
    then show ?thesis using o i True assms(2-4) R S by (simp add: checkSignatureEncoding_def Let_def low_byte byte_high_bit inner_ok_def)
  next
    case 5
    then show ?thesis
      using o i True assms(2-4) R S by (auto simp: checkSignatureEncoding_def Let_def low_byte byte_high_bit inner_ok_def big_Cmp_def)
  qed
next
  case False
  then have "\<not> inner_ok C sig r s" by (auto simp: inner_ok_def)
  moreover have "at sig (r + 5) = Ok (sig ! (r + 5))" using assms(3) by simp
  then have "\<exists>e. checkSignatureEncoding C sig = Err e"
    using False assms by (auto simp: checkSignatureEncoding_def Let_def outer_ok_def)
  ultimately show ?thesis by simp
qed

text \<open>C18 (panic on a signature). The encoding check panics exactly when the declared length of the first integer
  leaves no byte after the marker of the second, so that the length of the second is read one byte past the end.\<close>

theorem checkSignatureEncoding_panics:
  "checkSignatureEncoding C sig = Panic \<longleftrightarrow>
    8 \<le> length sig \<and> length sig \<le> 72 \<and> sig ! 0 = 0x30 \<and> unat (sig ! 1) = length sig - 2 \<and> unat (sig ! 3) + 5 = length sig"
proof -
  consider "\<not> outer_ok sig" | "outer_ok sig" "length sig \<le> unat (sig ! 3) + 5" | "outer_ok sig" "unat (sig ! 3) + 5 < length sig"
    by linarith
  then show ?thesis
  proof cases
    case 1
    then show ?thesis using check_outer [of sig C] by (auto simp: outer_ok_def)
  next
    case 2
    then show ?thesis using check_bounds [of sig C] by (auto simp: outer_ok_def)
  next
    case 3
    then show ?thesis using check_inner [OF 3(1) refl 3(2) refl, of C] by (auto split: if_splits)
  qed
qed

lemma der_signature_index:
  fixes R S
  assumes "length R + length S \<le> 66"
  defines "sig \<equiv> der_signature R S"
  shows "length sig = length R + length S + 6" "sig ! 0 = 0x30" "unat (sig ! 1) = length R + length S + 4" "sig ! 2 = 0x02"
    "unat (sig ! 3) = length R" "sig ! (length R + 4) = 0x02" "unat (sig ! (length R + 5)) = length S"
    "take (length R) (drop 4 sig) = R" "take (length S) (drop (length R + 6) sig) = S"
proof -
  have u: "unat (word_of_nat n :: byte) = n" if "n < 256" for n using that by (simp add: unat_of_nat)
  show "unat (sig ! 1) = length R + length S + 4"
    using assms(1) u [of "length R + length S + 4"] by (simp add: sig_def der_signature_def del: of_nat_add)
  have d: "drop n (xs @ ys) = ys" if "n = length xs" for n and xs ys :: "byte list" using that by simp
  have "drop (length R + 6) (([0x30, word_of_nat (length R + length S + 4), 0x02, word_of_nat (length R)] @ R @ [0x02, word_of_nat (length S)]) @ S) = S"
    by (rule d) simp
  then show "take (length S) (drop (length R + 6) sig) = S" by (simp add: sig_def der_signature_def)
qed (use assms(1) in \<open>simp_all add: sig_def der_signature_def nth_append unat_of_nat nth_Cons'\<close>)

lemma list_four:
  assumes "4 \<le> length xs"
  shows "xs = [xs ! 0, xs ! 1, xs ! 2, xs ! 3] @ drop 4 xs"
proof -
  obtain a b c d ys where "xs = a # b # c # d # ys"
    using assms by (auto simp: numeral_eq_Suc Suc_le_length_iff)
  then show ?thesis by simp
qed

lemma der_signature_of:
  assumes "outer_ok sig" "unat (sig ! 3) = r" "unat (sig ! (r + 5)) = s" "r + s + 6 = length sig" "sig ! 2 = 0x02" "sig ! (r + 4) = 0x02"
  shows "sig = der_signature (take r (drop 4 sig)) (take s (drop (r + 6) sig))"
proof -
  have "drop 4 sig = take r (drop 4 sig) @ drop (r + 4) sig" by (metis add.commute append_take_drop_id drop_drop)
  also have "drop (r + 4) sig = sig ! (r + 4) # sig ! (r + 5) # drop (r + 6) sig"
    using assms(4) drop_nth_Cons [of "r + 4" sig] drop_nth_Cons [of "r + 5" sig] by (simp add: add.commute)
  finally have "drop 4 sig = take r (drop 4 sig) @ [sig ! (r + 4), sig ! (r + 5)] @ take s (drop (r + 6) sig)" using assms(4) by simp
  moreover have "sig = [sig ! 0, sig ! 1, sig ! 2, sig ! 3] @ drop 4 sig" using assms(4) by (intro list_four) simp
  moreover have "sig ! 1 = word_of_nat (r + s + 4)" "sig ! 3 = word_of_nat r" "sig ! (r + 5) = word_of_nat s"
  proof -
    have w: "b = word_of_nat n" if "unat b = n" for b :: byte and n using that by auto
    have "unat (sig ! 1) = r + s + 4" using assms(1,4) by (simp add: outer_ok_def)
    then show "sig ! 1 = word_of_nat (r + s + 4)" by (rule w)
    show "sig ! 3 = word_of_nat r" "sig ! (r + 5) = word_of_nat s" using assms(2,3) w by blast+
  qed
  moreover have "length (take r (drop 4 sig)) = r" "length (take s (drop (r + 6) sig)) = s" using assms(4) by simp_all
  ultimately show ?thesis
    using assms(1,5,6) unfolding der_signature_def outer_ok_def by (metis append_Cons append_Nil)
qed

text \<open>C17 (accepted signatures). The encoding check accepts exactly the signatures of at most 72 bytes that are the
  strict DER encoding of a pair of integers in which the second is at most half the order of the curve: a sequence
  of the right length of two integers of the right lengths, not empty, not negative and without superfluous zeros.\<close>

theorem checkSignatureEncoding_iff:
  "checkSignatureEncoding C sig = Ok () \<longleftrightarrow>
    (\<exists>R S. sig = der_signature R S \<and> length R + length S \<le> 66 \<and> der_int R \<and> der_int S \<and> int (be_val S) \<le> halfOrder C)"
proof
  assume ok: "checkSignatureEncoding C sig = Ok ()"
  then have o: "outer_ok sig" using check_outer [of sig C] by auto
  moreover have "unat (sig ! 3) + 5 < length sig" using ok check_bounds [OF o, of C] by (force split: if_splits)
  ultimately have "inner_ok C sig (unat (sig ! 3)) (unat (sig ! (unat (sig ! 3) + 5)))"
    using ok check_inner [OF o refl _ refl, of C] by (auto split: if_splits)
  then show "\<exists>R S. sig = der_signature R S \<and> length R + length S \<le> 66 \<and> der_int R \<and> der_int S \<and> int (be_val S) \<le> halfOrder C"
    using der_signature_of [OF o refl refl] o by (auto simp: inner_ok_def outer_ok_def intro!: exI)
next
  assume "\<exists>R S. sig = der_signature R S \<and> length R + length S \<le> 66 \<and> der_int R \<and> der_int S \<and> int (be_val S) \<le> halfOrder C"
  then obtain R S where rs: "sig = der_signature R S" "length R + length S \<le> 66" "der_int R" "der_int S" "int (be_val S) \<le> halfOrder C"
    by blast
  have l: "0 < length R" "0 < length S" using rs(3,4) by (auto simp: der_int_def)
  then have "2 \<le> length R + length S" by linarith
  with l show "checkSignatureEncoding C sig = Ok ()"
    using check_inner [of sig "length R" "length S" C] der_signature_index [OF rs(2)] rs by (simp add: outer_ok_def inner_ok_def)
qed

section \<open>Several signatures\<close>

text \<open>Assigning to each signature a key, in the order of both lists.\<close>

definition matching :: "('s \<Rightarrow> 'k \<Rightarrow> bool) \<Rightarrow> 's list \<Rightarrow> 'k list \<Rightarrow> bool" where
  "matching P ss ks \<longleftrightarrow> (\<exists>ks'. subseq ks' ks \<and> list_all2 P ss ks')"

lemma matching_Nil [simp]: "matching P [] ks"
  by (auto simp: matching_def intro!: exI [of _ "[]"])

lemma matching_length: "matching P ss ks \<Longrightarrow> length ss \<le> length ks"
  by (metis list_all2_lengthD list_emb_length matching_def)

lemma matching_skip: "matching P ss ks \<Longrightarrow> matching P ss (k # ks)"
  by (auto simp: matching_def)

lemma matching_take: "matching P ss ks \<Longrightarrow> P s k \<Longrightarrow> matching P (s # ss) (k # ks)"
  unfolding matching_def by (metis list_all2_Cons subseq_Cons2)

text \<open>Giving the first signature the first key that fits it loses nothing.\<close>

lemma matching_Cons:
  "matching P (s # ss) (k # ks) \<longleftrightarrow> (if P s k then matching P ss ks else matching P (s # ss) ks)"
proof -
  have "matching P ss ks" if "matching P (s # ss) (k # ks)"
  proof -
    obtain k' ks' where "subseq (k' # ks') (k # ks)" "list_all2 P ss ks'"
      using \<open>matching P (s # ss) (k # ks)\<close> by (auto simp: matching_def list_all2_Cons1)
    then show ?thesis unfolding matching_def by (metis subseq_Cons' subseq_Cons2_iff)
  qed
  moreover have "matching P (s # ss) ks" if "matching P (s # ss) (k # ks)" "\<not> P s k"
    using that unfolding matching_def by (metis list_all2_Cons1 subseq_Cons2_neq)
  ultimately show ?thesis using matching_take matching_skip by metis
qed

text \<open>The serialized signature with its hash type is a valid signature of the script under the key.\<close>

definition signed_by :: "('pk, 'sig) crypto \<Rightarrow> parsedOpcode list \<Rightarrow> Engine \<Rightarrow> byte list \<Rightarrow> byte list \<Rightarrow> bool" where
  "signed_by C script vm rawSig pubKey \<longleftrightarrow> rawSig \<noteq> [] \<and>
    (\<exists>s k h. ParseDERSignature C (butlast rawSig) = Some s \<and> ParsePubKey C pubKey = Some k \<and>
      calcWitnessSignatureHash script (sig_hashes vm) (ucast (last rawSig)) (eng_tx vm) (txIdx vm) (inputAmount vm) = Ok h \<and>
      sig_Verify C s h k)"

lemma sig_hashes_cache [simp]: "sig_hashes (vm\<lparr> sigCache := c \<rparr>) = sig_hashes vm"
  by (cases "hashCache vm") (simp_all add: sig_hashes_def)

lemma signed_by_cache [simp]: "signed_by C script (vm\<lparr> sigCache := c \<rparr>) = signed_by C script vm"
  by (simp add: signed_by_def fun_eq_iff)

definition cache_ok :: "('pk, 'sig) crypto \<Rightarrow> SigCache option \<Rightarrow> bool" where
  "cache_ok C cache \<longleftrightarrow> (\<forall>c. cache = Some c \<longrightarrow> cache_sound C c)"

lemma verify_cached_value:
  assumes "cache_ok C cache" "verify_cached C cache h s k = (valid, cache')"
  shows "valid = sig_Verify C s h k \<and> cache_ok C cache'"
proof (cases cache)
  case None
  then show ?thesis using assms by (auto simp: verify_cached_def cache_ok_def)
next
  case (Some c)
  then have "cache_sound C c" using assms(1) by (simp add: cache_ok_def)
  from sig_cache.lookup_or_check [OF this, of "(h, s, k)"] show ?thesis
    using assms(2) Some by (auto simp: verify_cached_def cache_ok_def split: if_splits)
qed

definition info_ok :: "('pk, 'sig) crypto \<Rightarrow> 'sig parsedSigInfo \<Rightarrow> bool" where
  "info_ok C i \<longleftrightarrow> (psi_parsed i \<longrightarrow> psi_parsedSignature i = ParseDERSignature C (butlast (psi_signature i)))"

text \<open>The ways the loop goes on after looking at a key.\<close>

lemma multisig_loop_cases:
  assumes "multisig_loop C script (pk # pks) (i # js) vm = Ok (b, vm')" "info_ok C i"
  obtains (short) "length (pk # pks) < length (i # js)" "\<not> b"
    | (empty) "psi_signature i = []" "multisig_loop C script pks (i # js) vm = Ok (b, vm')"
    | (unparsed) i' where "psi_signature i' = psi_signature i" "info_ok C i'"
        "ParseDERSignature C (butlast (psi_signature i)) = None \<or> ParsePubKey C pk = None"
        "multisig_loop C script pks (i' # js) vm = Ok (b, vm')"
    | (checked) i' s k h valid cache where "psi_signature i \<noteq> []" "psi_signature i' = psi_signature i" "info_ok C i'"
        "ParseDERSignature C (butlast (psi_signature i)) = Some s" "ParsePubKey C pk = Some k"
        "calcWitnessSignatureHash script (sig_hashes vm) (ucast (last (psi_signature i))) (eng_tx vm) (txIdx vm) (inputAmount vm) = Ok h"
        "verify_cached C (sigCache vm) h s k = (valid, cache)"
        "multisig_loop C script pks (if valid then js else i' # js) (vm\<lparr> sigCache := cache \<rparr>) = Ok (b, vm')"
proof -
  let ?raw = "psi_signature i"
  define parse where "parse =
    (if \<not> psi_parsed i then
       bindR (checkHashTypeEncoding (ucast (last ?raw))) (\<lambda>_.
       bindR (checkSignatureEncoding C (butlast ?raw)) (\<lambda>_.
       Ok (i\<lparr> psi_parsed := True, psi_parsedSignature := ParseDERSignature C (butlast ?raw) \<rparr>)))
     else Ok i)"
  note eq = assms(1) [unfolded multisig_loop.simps Let_def, folded parse_def]
  show ?thesis
  proof (cases "length (i # js) > length (pk # pks) \<or> ?raw = []")
    case True
    then show ?thesis using eq short empty by (auto split: if_splits)
  next
    case False
    then obtain i' where i': "parse = Ok i'" using eq by (auto simp: res_simps split: if_splits)
    have p: "psi_signature i' = ?raw" "info_ok C i'" "psi_parsedSignature i' = ParseDERSignature C (butlast ?raw)"
      using i' assms(2) by (auto simp: parse_def info_ok_def res_simps split: if_splits)
    show ?thesis
    proof (cases "ParseDERSignature C (butlast ?raw) = None \<or> ParsePubKey C pk = None")
      case True
      then show ?thesis using unparsed [of i'] p eq False i' by (auto simp: res_simps split: option.splits)
    next
      case known: False
      then obtain s k where s: "ParseDERSignature C (butlast ?raw) = Some s" "ParsePubKey C pk = Some k" by auto
      obtain h where h: "calcWitnessSignatureHash script (sig_hashes vm) (ucast (last ?raw)) (eng_tx vm) (txIdx vm) (inputAmount vm) = Ok h"
        using p eq False i' s by (auto simp: res_simps)
      obtain valid cache where "verify_cached C (sigCache vm) h s k = (valid, cache)" by (cases "verify_cached C (sigCache vm) h s k")
      then show ?thesis using checked [OF _ p(1,2) s h] p eq False i' s h by (auto simp: res_simps)
    qed
  qed
qed

lemma multisig_loop_decides:
  assumes "multisig_loop C script pks infos vm = Ok (b, vm')" "cache_ok C (sigCache vm)" "list_all (info_ok C) infos"
  shows "b = matching (signed_by C script vm) (map psi_signature infos) pks"
  using assms
proof (induction pks arbitrary: infos vm)
  case Nil
  then show ?case by (cases infos) (auto dest: matching_length)
next
  case (Cons pk pks)
  note ih = Cons.IH
  show ?case
  proof (cases infos)
    case Nil
    then show ?thesis using Cons.prems by simp
  next
    case inf: (Cons i js)
    have ok: "list_all (info_ok C) js" "info_ok C i" using Cons.prems(3) inf by simp_all
    note m = matching_Cons [of "signed_by C script vm" "psi_signature i" "map psi_signature js" pk pks]
    show ?thesis
      using Cons.prems(1) [unfolded inf] ok(2)
    proof (cases rule: multisig_loop_cases)
      case short
      then show ?thesis unfolding inf using matching_length [of _ "map psi_signature (i # js)" "pk # pks"] by auto
    next
      case empty
      then have "\<not> signed_by C script vm (psi_signature i) pk" by (simp add: signed_by_def)
      then show ?thesis using ih [OF empty(2)] Cons.prems(2) ok m inf by simp
    next
      case (unparsed i')
      then have "\<not> signed_by C script vm (psi_signature i) pk" by (auto simp: signed_by_def)
      then show ?thesis using ih [OF unparsed(4)] unparsed(1,2) Cons.prems(2) ok m inf by simp
    next
      case (checked i' s k h valid cache)
      have v: "valid = sig_Verify C s h k" "cache_ok C cache" using verify_cached_value [OF Cons.prems(2) checked(7)] by simp_all
      have "signed_by C script vm (psi_signature i) pk = valid" using checked v(1) by (auto simp: signed_by_def)
      then show ?thesis using ih [OF checked(8)] v(2) ok m inf checked(2,3) by (cases valid) simp_all
    qed
  qed
qed

lemma PopByteArray_Ok:
  assumes "PopByteArray s = Ok (x, s')"
  shows "stk s = stk s' @ [x] \<and> verifyMinimalData s' = verifyMinimalData s"
  using assms by (cases "stk s" rule: rev_cases) (auto simp: PopByteArray_simps)

lemma popN_Ok: "popN n s = Ok (xs, s') \<Longrightarrow>
    stk s = stk s' @ rev xs \<and> length xs = n \<and> verifyMinimalData s' = verifyMinimalData s"
proof (induction n arbitrary: s xs)
  case (Suc n)
  then obtain x t ys where x: "PopByteArray s = Ok (x, t)" "popN n t = Ok (ys, s')" "xs = x # ys" by (auto simp: res_simps)
  then show ?case using PopByteArray_Ok [OF x(1)] Suc.IH [OF x(2)] by simp
qed simp

lemma PopInt_Ok:
  assumes "PopInt s = Ok (n, s')"
  shows "\<exists>b. stk s = stk s' @ [b] \<and> verifyMinimalData s' = verifyMinimalData s \<and>
    makeScriptNum b (verifyMinimalData s) 4 = Ok n"
proof -
  obtain b where "PopByteArray s = Ok (b, s')" "makeScriptNum b (verifyMinimalData s) 4 = Ok n"
    using assms by (auto simp: PopInt_def res_simps defaultScriptNumLen_def)
  then show ?thesis using PopByteArray_Ok by blast
qed

lemma Int32_count: "\<not> scriptNum_Int32 n < 0 \<Longrightarrow> \<not> 20 < scriptNum_Int32 n \<Longrightarrow> n = int (nat (scriptNum_Int32 n))"
  by (auto simp: scriptNum_Int32_def wrap32_def split: if_splits)

text \<open>The script that several signatures are for: outside of witness programs their pushes are removed from it.\<close>

definition multisig_script :: "Engine \<Rightarrow> parsedOpcode list \<Rightarrow> byte list list \<Rightarrow> parsedOpcode list" where
  "multisig_script vm script sigs = (if \<not> isWitnessVersionActive vm 0 then foldl removeOpcodeByData script sigs else script)"

definition multisig_done :: "('pk, 'sig) crypto \<Rightarrow> Engine \<Rightarrow> Engine \<Rightarrow> bool" where
  "multisig_done C vm vm' \<longleftrightarrow> (\<exists>below sigs m keys n script b.
    stk (dstack vm) = below @ rev sigs @ [m] @ rev keys @ [n] \<and> stk (dstack vm') = below @ [fromBool b] \<and>
    makeScriptNum m (verifyMinimalData (dstack vm)) 4 = Ok (int (length sigs)) \<and>
    makeScriptNum n (verifyMinimalData (dstack vm)) 4 = Ok (int (length keys)) \<and>
    length sigs \<le> length keys \<and> length keys \<le> 20 \<and> subScript vm = Ok script \<and>
    b = matching (signed_by C (multisig_script vm script sigs) vm) sigs keys)"

lemma multisig_done_intro:
  fixes vm ops s4
  defines "vm4 \<equiv> vm\<lparr> numOps := ops, dstack := s4 \<rparr>"
  assumes "PopInt (dstack vm) = Ok (numKeys, s1)" "\<not> 20 < scriptNum_Int32 numKeys"
    "\<not> scriptNum_Int32 numKeys < 0" "\<not> scriptNum_Int32 numSigs < 0"
    "popN (nat (scriptNum_Int32 numKeys)) s1 = Ok (keys, s2)" "PopInt s2 = Ok (numSigs, s3)"
    "\<not> scriptNum_Int32 numKeys < scriptNum_Int32 numSigs" "popN (nat (scriptNum_Int32 numSigs)) s3 = Ok (sigs, s4)"
    "subScript vm4 = Ok script" "multisig_loop C (multisig_script vm script sigs) keys
      (map (\<lambda>signature. \<lparr> psi_signature = signature, psi_parsedSignature = None, psi_parsed = False \<rparr>) sigs) vm4 = Ok (b, vm1)"
    "cache_ok C (sigCache vm)"
  shows "multisig_done C vm (vm1\<lparr> dstack := PushBool b (dstack vm1) \<rparr>)"
proof -
  have "same_but_cache vm4 vm1" using okRD [OF multisig_loop_same assms(11)] by simp
  then have "dstack (vm1\<lparr> sigCache := None \<rparr>) = dstack (vm4\<lparr> sigCache := None \<rparr>)" unfolding same_but_cache_def by (rule arg_cong)
  then have d: "dstack vm1 = s4" by (simp add: vm4_def)
  have h: "sig_hashes vm4 = sig_hashes vm" by (cases "hashCache vm") (simp_all add: sig_hashes_def vm4_def)
  then have "signed_by C sc vm4 = signed_by C sc vm" for sc by (simp add: signed_by_def vm4_def fun_eq_iff)
  then have b: "b = matching (signed_by C (multisig_script vm script sigs) vm) sigs keys"
    using multisig_loop_decides [OF assms(11)] assms(12) by (simp add: vm4_def info_ok_def list_all_iff comp_def)
  have sub: "subScript vm = Ok script" using assms(10) by (simp add: subScript_def vm4_def cong: if_cong)
  note keys = popN_Ok [OF assms(6)] and sigs = popN_Ok [OF assms(9)]
  obtain n where n: "stk (dstack vm) = stk s1 @ [n]" "verifyMinimalData s1 = verifyMinimalData (dstack vm)"
    "makeScriptNum n (verifyMinimalData (dstack vm)) 4 = Ok numKeys" using PopInt_Ok [OF assms(2)] by blast
  obtain m where m: "stk s2 = stk s3 @ [m]" "makeScriptNum m (verifyMinimalData s2) 4 = Ok numSigs"
    using PopInt_Ok [OF assms(7)] by blast
  have "stk (dstack vm) = stk s4 @ rev sigs @ [m] @ rev keys @ [n]" using n m keys sigs by simp
  moreover have "int (length keys) = numKeys" "int (length sigs) = numSigs"
    using Int32_count [of numKeys] Int32_count [of numSigs] assms(3,4,5,8) keys sigs by linarith+
  moreover from this have "makeScriptNum m (verifyMinimalData (dstack vm)) 4 = Ok (int (length sigs))"
    "makeScriptNum n (verifyMinimalData (dstack vm)) 4 = Ok (int (length keys))" using n m keys by simp_all
  moreover have "length sigs \<le> length keys" "length keys \<le> 20" using keys sigs assms(3,8) by linarith+
  moreover have "stk (dstack (vm1\<lparr> dstack := PushBool b (dstack vm1) \<rparr>)) = stk s4 @ [fromBool b]"
    using d by (simp add: PushBool_def PushByteArray_def)
  ultimately show ?thesis unfolding multisig_done_def using b sub by blast
qed

lemma CheckMultiSig_done: "cache_ok C (sigCache vm) \<Longrightarrow> okR (multisig_done C vm) (opcodeCheckMultiSig C pop vm)"
  unfolding opcodeCheckMultiSig_def Let_def
  by (intro okR_intros)
    (auto simp: MaxPubKeysPerMultiSig_def isWitnessVersionActive_def multisig_script_def intro!: multisig_done_intro)

text \<open>C16 (several signatures). When the handler of \<^verbatim>\<open>OP_CHECKMULTISIG\<close> succeeds with a sound signature cache, it has
  replaced the number of keys, the keys, the number of signatures and the signatures on the stack by a truth value:
  the two numbers on the stack are the lengths of the two lists, and this value is true exactly when the signatures
  can be assigned, in order, to some of the keys, also in order,
  so that each is valid under its key; then there are at most 20 keys and no more signatures than keys.\<close>

theorem CheckMultiSig_decides:
  assumes "opcodeCheckMultiSig C pop vm = Ok vm'" "cache_ok C (sigCache vm)"
  shows "\<exists>below sigs m keys n script b.
    stk (dstack vm) = below @ rev sigs @ [m] @ rev keys @ [n] \<and> stk (dstack vm') = below @ [fromBool b] \<and>
    makeScriptNum m (verifyMinimalData (dstack vm)) 4 = Ok (int (length sigs)) \<and>
    makeScriptNum n (verifyMinimalData (dstack vm)) 4 = Ok (int (length keys)) \<and>
    length sigs \<le> length keys \<and> length keys \<le> 20 \<and> subScript vm = Ok script \<and>
    b = matching (signed_by C (multisig_script vm script sigs) vm) sigs keys"
  using okRD [OF CheckMultiSig_done [OF assms(2)] assms(1)] by (simp add: multisig_done_def)

definition multisig_example :: Engine where
  "multisig_example =
    \<lparr> scripts = [[]], scriptIdx = 0, scriptOff = 0, lastCodeSep = 0,
      dstack = \<lparr> stk = [[], [1], [2, 3], [1]], verifyMinimalData = False \<rparr>, astack = \<lparr> stk = [], verifyMinimalData = False \<rparr>,
      eng_tx = sample_tx, txIdx = 0, condStack = [], numOps = 0, flags = 0, sigCache = None, hashCache = None,
      witnessVersion = 0, witnessProgram = Some [], witnessExtProg = [], inputAmount = 0 \<rparr>"

theorem CheckMultiSig_decides_witness:
  "\<exists>vm'. opcodeCheckMultiSig toy_crypto (op_pop OP_CHECKMULTISIG) multisig_example = Ok vm' \<and> stk (dstack vm') = [[]] \<and>
    (\<exists>below sigs m keys n script b.
      stk (dstack multisig_example) = below @ rev sigs @ [m] @ rev keys @ [n] \<and> stk (dstack vm') = below @ [fromBool b] \<and>
      makeScriptNum m (verifyMinimalData (dstack multisig_example)) 4 = Ok (int (length sigs)) \<and>
      makeScriptNum n (verifyMinimalData (dstack multisig_example)) 4 = Ok (int (length keys)) \<and>
      length sigs \<le> length keys \<and> length keys \<le> 20 \<and> subScript multisig_example = Ok script \<and>
      b = matching (signed_by toy_crypto (multisig_script multisig_example script sigs) multisig_example) sigs keys)"
proof -
  have n: "makeScriptNum [1] False defaultScriptNumLen = Ok 1" "scriptNum_Int32 1 = 1"
    by (simp_all add: makeScriptNum_def defaultScriptNumLen_def scriptNum_Int32_def wrap32_def)
  obtain vm' where v: "opcodeCheckMultiSig toy_crypto (op_pop OP_CHECKMULTISIG) multisig_example = Ok vm'" "stk (dstack vm') = [[]]"
    by (simp add: opcodeCheckMultiSig_def multisig_example_def PopInt_def PopByteArray_def nipN_def n
        MaxPubKeysPerMultiSig_def MaxOpsPerScript_def subScript_def isWitnessVersionActive_def PushBool_def PushByteArray_def fromBool_def)
  then show ?thesis using CheckMultiSig_decides [OF v(1)] by (simp add: cache_ok_def multisig_example_def)
qed

end
