(* ===== verification/Payload.thy ===== *)
theory Payload
  imports Wire_Tx Consensus_Params
begin

text \<open>
  \<^verbatim>\<open>blockchain/payload.go\<close>: the payload of a coinbase transaction (height and number of staking rewards)
  and the payload by which a pool operator binds a coinbase address to a pool key. Group elements are the
  48 and 96 byte arrays of \<^verbatim>\<open>chiapos\<close>; whether bytes are a group element and whether a signature verifies
  is decided by the C++ library behind it, so both are parameters of the model, the record \<open>bls\<close>.
  The theory shows that both payloads are read back and that a decoded pool payload carries a signature
  over everything else in it.
\<close>

section \<open>The coinbase payload\<close>

datatype payload_error =
    errIncompleteCoinbasePayload
  | ErrParamLength nat
  | ErrG1Element
  | ErrG2Element
  | ErrZeroNonce

record CoinbasePayload =
  cp_height :: u64
  cp_numStakingReward :: u32

definition CoinbasePayload_Bytes :: "CoinbasePayload \<Rightarrow> byte list" where
  "CoinbasePayload_Bytes p = le_PutUint64 (cp_height p) @ le_PutUint32 (cp_numStakingReward p)"

definition CoinbasePayload_SetBytes :: "byte list \<Rightarrow> (payload_error, CoinbasePayload) res" where
  "CoinbasePayload_SetBytes data =
    (if length data < 12 then Err errIncompleteCoinbasePayload
     else bindR (le_Uint64 (take 8 data)) (\<lambda>h.
          bindR (le_Uint32 (take 4 (drop 8 data))) (\<lambda>n.
          Ok \<lparr> cp_height = h, cp_numStakingReward = n \<rparr>)))"

definition NewCoinbasePayload :: CoinbasePayload where
  "NewCoinbasePayload = \<lparr> cp_height = 0, cp_numStakingReward = 0 \<rparr>"

definition standardCoinbasePayload :: "u64 \<Rightarrow> u32 \<Rightarrow> byte list" where
  "standardCoinbasePayload nextBlockHeight numStakingReward =
    CoinbasePayload_Bytes \<lparr> cp_height = nextBlockHeight, cp_numStakingReward = numStakingReward \<rparr>"

section \<open>The payload that binds a coinbase to a pool key\<close>

record bls =
  valid_g1 :: "byte list \<Rightarrow> bool"
  valid_g2 :: "byte list \<Rightarrow> bool"
  aug_verify :: "byte list \<Rightarrow> byte list \<Rightarrow> byte list \<Rightarrow> bool"

definition BindPoolCoinbase :: "16 word" where "BindPoolCoinbase = 1"

record BindPoolCoinbaseParams =
  PoolPK :: "byte list"
  bp_Signature :: "byte list"
  CoinbaseScriptAddress :: "byte list"
  Nonce :: u32

record TransactionPayload =
  Method :: "16 word"
  Params :: BindPoolCoinbaseParams

definition NewBindPoolCoinbasePayload ::
  "byte list \<Rightarrow> byte list \<Rightarrow> byte list \<Rightarrow> u32 \<Rightarrow> TransactionPayload option" where
  "NewBindPoolCoinbasePayload ppk sig coinbase nonce =
    (if nonce = 0 then None
     else Some \<lparr> Method = BindPoolCoinbase,
       Params = \<lparr> PoolPK = ppk, bp_Signature = sig, CoinbaseScriptAddress = coinbase, Nonce = nonce \<rparr> \<rparr>)"

definition Params_Decode :: "bls \<Rightarrow> byte list \<Rightarrow> (payload_error, BindPoolCoinbaseParams) res" where
  "Params_Decode B data =
    (if length data < 148 then Err (ErrParamLength (length data))
     else if \<not> valid_g1 B (take 48 data) then Err ErrG1Element
     else if \<not> valid_g2 B (take 96 (drop 48 data)) then Err ErrG2Element
     else bindR (be_Uint32 (take 4 (drop 144 data))) (\<lambda>nonce.
       if nonce = 0 then Err ErrZeroNonce
       else Ok \<lparr> PoolPK = take 48 data, bp_Signature = take 96 (drop 48 data),
                 CoinbaseScriptAddress = drop 148 data, Nonce = nonce \<rparr>))"

text \<open>\<^verbatim>\<open>copy\<close> into the fixed ranges of the buffer; the group elements are arrays of 48 and 96 bytes.\<close>

definition Params_Encode :: "BindPoolCoinbaseParams \<Rightarrow> byte list" where
  "Params_Encode p = PoolPK p @ bp_Signature p @ be_PutUint32 (Nonce p) @ CoinbaseScriptAddress p"

definition be_PutUint16 :: "16 word \<Rightarrow> byte list" where
  "be_PutUint16 x = put_be 2 (unat x)"

definition be_Uint16 :: "byte list \<Rightarrow> ('e, 16 word) res" where
  "be_Uint16 bs = (if length bs < 2 then Panic else Ok (word_of_nat (be_val (take 2 bs))))"

definition EncodePayload :: "TransactionPayload \<Rightarrow> byte list" where
  "EncodePayload payload = be_PutUint16 (Method payload) @ Params_Encode (Params payload)"

text \<open>What a pool signs.\<close>

definition pool_content :: "byte list \<Rightarrow> byte list \<Rightarrow> u32 \<Rightarrow> byte list" where
  "pool_content poolPk coinbaseScriptAddress nonce =
    poolPk @ be_PutUint32 nonce @ le_PutUint32 (word_of_nat (length coinbaseScriptAddress)) @ coinbaseScriptAddress"

definition VerifyPoolPkPayload :: "bls \<Rightarrow> byte list \<Rightarrow> byte list \<Rightarrow> byte list \<Rightarrow> u32 \<Rightarrow> bool" where
  "VerifyPoolPkPayload B poolPk signature coinbaseScriptAddress nonce =
    (if nonce = 0 then False
     else aug_verify B poolPk (HashB (pool_content poolPk coinbaseScriptAddress nonce)) signature)"

definition DecodePayload :: "bls \<Rightarrow> byte list \<Rightarrow> TransactionPayload option" where
  "DecodePayload B payload =
    (if length payload < 2 then None
     else case (be_Uint16 (take 2 payload) :: (payload_error, 16 word) res) of
       Ok method \<Rightarrow>
         if method = BindPoolCoinbase then
           (case Params_Decode B (drop 2 payload) of
              Ok params \<Rightarrow>
                if \<not> VerifyPoolPkPayload B (PoolPK params) (bp_Signature params)
                     (CoinbaseScriptAddress params) (Nonce params)
                then None
                else Some \<lparr> Method = BindPoolCoinbase, Params = params \<rparr>
            | _ \<Rightarrow> None)
         else None
     | _ \<Rightarrow> None)"

section \<open>Round trips\<close>

lemma be_Uint16_Put [codec_simps]: "be_Uint16 (be_PutUint16 x @ ys) = Ok x"
proof -
  have "unat x < 65536" using unsigned_less [where 'a = nat and w = x] by simp
  then show ?thesis by (simp add: be_Uint16_def be_PutUint16_def be_val_put_be)
qed

lemma length_be_PutUint16 [simp]: "length (be_PutUint16 x) = 2"
  by (simp add: be_PutUint16_def)

lemma CoinbasePayload_roundtrip: "CoinbasePayload_SetBytes (CoinbasePayload_Bytes p @ rest) = Ok p"
  using le_Uint32_Put [where 'a = payload_error, of "cp_numStakingReward p" "[]"]
  by (simp add: CoinbasePayload_SetBytes_def CoinbasePayload_Bytes_def)

lemma be_Uint32_Ok: "length bs = 4 \<Longrightarrow> be_Uint32 bs = Ok w \<Longrightarrow> be_PutUint32 w = bs"
  using put_be_be_val [of bs] be_val_less [of bs]
  by (auto simp: be_Uint32_def be_PutUint32_def unat_of_nat)

text \<open>A parameter block as the decoder produces it.\<close>

definition wf_params :: "bls \<Rightarrow> BindPoolCoinbaseParams \<Rightarrow> bool" where
  "wf_params B p \<longleftrightarrow> length (PoolPK p) = 48 \<and> length (bp_Signature p) = 96 \<and> Nonce p \<noteq> 0 \<and>
    valid_g1 B (PoolPK p) \<and> valid_g2 B (bp_Signature p)"

lemma Params_Decode_iff: "Params_Decode B data = Ok p \<longleftrightarrow> wf_params B p \<and> data = Params_Encode p"
proof
  assume ok: "Params_Decode B data = Ok p"
  then have len: "148 \<le> length data"
    by (auto simp: Params_Decode_def split: if_splits)
  have split4: "data = take 48 data @ take 96 (drop 48 data) @ take 4 (drop 144 data) @ drop 148 data"
    using append_take_drop_id [of 48 data] append_take_drop_id [of 96 "drop 48 data"]
      append_take_drop_id [of 4 "drop 144 data"] by simp
  have four: "length (take 4 (drop 144 data)) = 4" using len by simp
  from ok len have "be_Uint32 (take 4 (drop 144 data)) = (Ok (Nonce p) :: (payload_error, u32) res)"
    by (auto simp: Params_Decode_def res_simps split: if_splits)
  then have "be_PutUint32 (Nonce p) = take 4 (drop 144 data)" by (rule be_Uint32_Ok [OF four])
  with ok len split4 show "wf_params B p \<and> data = Params_Encode p"
    by (auto simp: Params_Decode_def wf_params_def Params_Encode_def res_simps split: if_splits)
next
  assume "wf_params B p \<and> data = Params_Encode p"
  then show "Params_Decode B data = Ok p"
    using be_Uint32_Put [where 'a = payload_error, of "Nonce p" "[]"]
    by (simp add: Params_Decode_def wf_params_def Params_Encode_def)
qed

text \<open>C20 (pool payload). A payload decodes to \<open>p\<close> exactly when it is the encoding of \<open>p\<close>, the key and the
  signature of \<open>p\<close> are group elements, its nonce is not zero, and the signature verifies under the key for
  the hash of key, nonce, length and address. No other bytes decode, so everything the chain reads from
  such a payload is covered by the pool's signature.\<close>

theorem DecodePayload_iff:
  "DecodePayload B buf = Some p \<longleftrightarrow>
    buf = EncodePayload p \<and> Method p = BindPoolCoinbase \<and> wf_params B (Params p) \<and>
    aug_verify B (PoolPK (Params p))
      (HashB (PoolPK (Params p) @ be_PutUint32 (Nonce (Params p)) @
        le_PutUint32 (word_of_nat (length (CoinbaseScriptAddress (Params p)))) @ CoinbaseScriptAddress (Params p)))
      (bp_Signature (Params p))"
proof -
  have head: "buf = be_PutUint16 m @ rest \<longleftrightarrow> 2 \<le> length buf \<and> rest = drop 2 buf \<and>
      be_Uint16 (take 2 buf) = (Ok m :: (payload_error, 16 word) res)" for m rest
  proof
    assume b: "buf = be_PutUint16 m @ rest"
    then show "2 \<le> length buf \<and> rest = drop 2 buf \<and>
        be_Uint16 (take 2 buf) = (Ok m :: (payload_error, 16 word) res)"
      using be_Uint16_Put [of m "[]"] by simp
  next
    assume a: "2 \<le> length buf \<and> rest = drop 2 buf \<and>
        be_Uint16 (take 2 buf) = (Ok m :: (payload_error, 16 word) res)"
    then have "be_PutUint16 m = take 2 buf"
      using put_be_be_val [of "take 2 buf"] be_val_less [of "take 2 buf"]
      by (auto simp: be_Uint16_def be_PutUint16_def unat_of_nat)
    with a show "buf = be_PutUint16 m @ rest" by (metis append_take_drop_id)
  qed
  have "DecodePayload B buf = Some p \<longleftrightarrow>
      2 \<le> length buf \<and> be_Uint16 (take 2 buf) = (Ok (Method p) :: (payload_error, 16 word) res) \<and>
      Method p = BindPoolCoinbase \<and> Params_Decode B (drop 2 buf) = Ok (Params p) \<and>
      VerifyPoolPkPayload B (PoolPK (Params p)) (bp_Signature (Params p))
        (CoinbaseScriptAddress (Params p)) (Nonce (Params p))"
    by (cases p) (auto simp: DecodePayload_def split: res.splits if_splits)
  also have "\<dots> \<longleftrightarrow> buf = be_PutUint16 (Method p) @ Params_Encode (Params p) \<and> Method p = BindPoolCoinbase \<and>
      wf_params B (Params p) \<and> aug_verify B (PoolPK (Params p))
        (HashB (pool_content (PoolPK (Params p)) (CoinbaseScriptAddress (Params p)) (Nonce (Params p))))
        (bp_Signature (Params p))"
    unfolding head Params_Decode_iff by (auto simp: VerifyPoolPkPayload_def wf_params_def)
  finally show ?thesis by (simp add: EncodePayload_def pool_content_def)
qed

end
