(* ===== verification/Tx_Validate.thy ===== *)
theory Tx_Validate
  imports Reward Script Payload
begin

text \<open>
  \<^verbatim>\<open>blockchain/validate.go\<close>, the checks on transactions, and the transaction store of
  \<^verbatim>\<open>blockchain/txlookup.go\<close> they work on: the context free checks (\<open>CheckTransactionSanity\<close>), finality and
  sequence locks, signature operation counts, and the checks of a transaction's inputs
  (\<open>CheckTransactionInputs\<close>), which spend outputs in the store, with the loop of \<^verbatim>\<open>checkConnectBlock\<close> that
  runs them over a block and totals the fees. A \<^verbatim>\<open>TxStore\<close> maps hashes to pointers to \<^verbatim>\<open>TxData\<close>; every hash
  has an entry of its own, so the map with updated entries is the store after the mutation. A call that
  returns an error still leaves the outputs it marked spent, so these functions return the store with
  their outcome. The theory shows exactly which transactions are sane, and that the transactions of a
  block that passes the loop spend existing unspent outputs, each once, and that nothing is created.
\<close>

datatype chain_error =
    ErrNoTxInputs | ErrNoTxOutputs | ErrTxTooBig | ErrBadTxOutValue | ErrDuplicateTxInputs | ErrBadTxInput
  | ErrMissingTx | ErrImmatureSpend | ErrDoubleSpend | ErrCoinbaseTxInWitness | ErrBadCoinbaseHeight
  | ErrTooManySigOps | ErrFeeForPoolPkCoinbase | ErrPayloadNonce | ErrBadFees | ErrTxShaMissing
  | ErrTxAlreadyExists | ErrOverwriteTx
  | CAmount amount_error
  | CPayload payload_error
  | CDatabase nat

section \<open>Context free checks\<close>

definition MaxBlockPayload :: nat where "MaxBlockPayload = 2000000"

definition MaxSigOpsPerBlock :: int where
  "MaxSigOpsPerBlock = int (MaxBlockPayload div 150) * MaxPubKeysPerMultiSig"

definition isNullOutpoint :: "OutPoint \<Rightarrow> bool" where
  "isNullOutpoint outpoint \<longleftrightarrow> op_Index outpoint = 0xffffffff \<and> op_Hash outpoint = zeroHash"

definition IsCoinBaseTx :: "MsgTx \<Rightarrow> bool" where
  "IsCoinBaseTx msgTx =
    (if length (tx_TxIn msgTx) < 1 then False
     else
       let prevOut = PreviousOutPoint (tx_TxIn msgTx ! 0) in
       if op_Index prevOut \<noteq> 0xffffffff \<or> op_Hash prevOut \<noteq> zeroHash then False
       else True)"

record SequenceLock =
  sl_Seconds :: int
  sl_BlockHeight :: u64

definition SequenceLockActive :: "SequenceLock \<Rightarrow> u64 \<Rightarrow> int \<Rightarrow> bool" where
  "SequenceLockActive sequenceLock blockHeight medianTimePast =
    (if sl_Seconds sequenceLock \<ge> medianTimePast \<or> sl_BlockHeight sequenceLock \<ge> blockHeight then False
     else True)"

definition IsFinalizedTransaction :: "MsgTx \<Rightarrow> u64 \<Rightarrow> int \<Rightarrow> bool" where
  "IsFinalizedTransaction msgTx blockHeight blockTime =
    (let lockTime = tx_LockTime msgTx in
     if lockTime = 0 then True
     else
       let blockTimeOrHeight = (if lockTime < LockTimeThreshold then sint blockHeight else blockTime) in
       if sint lockTime < blockTimeOrHeight then True
       else \<forall>txIn\<in>set (tx_TxIn msgTx). Sequence txIn = MaxTxInSequenceNum)"

definition check_dup_input :: "TxIn \<Rightarrow> OutPoint set \<Rightarrow> (chain_error, OutPoint set) res" where
  "check_dup_input txIn existingTxOut =
    (if PreviousOutPoint txIn \<in> existingTxOut then Err ErrDuplicateTxInputs
     else Ok (insert (PreviousOutPoint txIn) existingTxOut))"

definition check_null_input :: "TxIn \<Rightarrow> unit \<Rightarrow> (chain_error, unit) res" where
  "check_null_input txIn u = (if isNullOutpoint (PreviousOutPoint txIn) then Err ErrBadTxInput else Ok ())"

definition CheckTransactionSanity :: "MsgTx \<Rightarrow> (chain_error, unit) res" where
  "CheckTransactionSanity msgTx =
    (if length (tx_TxIn msgTx) = 0 then Err ErrNoTxInputs
     else if length (tx_TxOut msgTx) = 0 then Err ErrNoTxOutputs
     else if MsgTx_PlainSize msgTx > MaxBlockPayload then Err ErrTxTooBig
     else
       bindR (liftE (\<lambda>_. ErrBadTxOutValue)
         (foldR (\<lambda>txOut totalMaxwell. Amount_AddInt totalMaxwell (Value txOut)) (tx_TxOut msgTx) zeroAmount)) (\<lambda>_.
       bindR (foldR check_dup_input (tx_TxIn msgTx) {}) (\<lambda>_.
       if IsCoinBaseTx msgTx then foldR check_null_input (drop 1 (tx_TxIn msgTx)) ()
       else foldR check_null_input (tx_TxIn msgTx) ())))"

text \<open>\<^verbatim>\<open>CountSigOps\<close> indexes the last item of every witness: an empty witness panics.\<close>

definition CountSigOps :: "MsgTx \<Rightarrow> (chain_error, int) res" where
  "CountSigOps msgTx =
    (if IsCoinBaseTx msgTx then Ok 0
     else
       bindR (foldR (\<lambda>txIn total.
           if Witness txIn = [] then Panic
           else Ok (wrap64 (total + GetSigOpCount (last (Witness txIn))))) (tx_TxIn msgTx) 0) (\<lambda>total.
       Ok (fold (\<lambda>txOut total. wrap64 (total + GetSigOpCount (PkScript txOut))) (tx_TxOut msgTx) total)))"

definition add_sigops :: "MsgTx \<Rightarrow> int \<Rightarrow> (chain_error, int) res" where
  "add_sigops tx totalSigOps =
    bindR (CountSigOps tx) (\<lambda>numSigOps.
    let total = wrap64 (totalSigOps + numSigOps) in
    if total < totalSigOps \<or> total > MaxSigOpsPerBlock then Err ErrTooManySigOps else Ok total)"

definition extractCoinbaseHeight :: "MsgTx \<Rightarrow> (chain_error, u64) res" where
  "extractCoinbaseHeight coinbaseTx =
    (let payload = tx_Payload coinbaseTx in
     if length payload < 8 then Err (CPayload errIncompleteCoinbasePayload)
     else le_Uint64 (take 8 payload))"

definition extractCoinbaseStakingRewardNumber :: "MsgTx \<Rightarrow> (chain_error, u32) res" where
  "extractCoinbaseStakingRewardNumber coinbaseTx =
    (let payload = tx_Payload coinbaseTx in
     if length payload < 12 then Err (CPayload errIncompleteCoinbasePayload)
     else le_Uint32 (take 4 (drop 8 payload)))"

definition checkSerializedHeight :: "MsgTx \<Rightarrow> u64 \<Rightarrow> (chain_error, unit) res" where
  "checkSerializedHeight coinbaseTx wantHeight =
    bindR (extractCoinbaseHeight coinbaseTx) (\<lambda>serializedHeight.
    if serializedHeight \<noteq> wantHeight then Err ErrBadCoinbaseHeight else Ok ())"

section \<open>The transaction store\<close>

record TxData =
  td_Tx :: "MsgTx option"
  td_Hash :: hash
  td_BlockHeight :: u64
  td_Spent :: "bool list"
  td_Err :: "chain_error option"

type_synonym TxStore = "hash \<rightharpoonup> TxData"

definition isTransactionSpent :: "TxData \<Rightarrow> bool" where
  "isTransactionSpent txD \<longleftrightarrow> (\<forall>isOutputSpent\<in>set (td_Spent txD). isOutputSpent)"

definition checkDupSpend :: "OutPoint \<Rightarrow> bool list \<Rightarrow> (chain_error, unit) res" where
  "checkDupSpend preOutPoint spent =
    (if op_Index preOutPoint \<ge> word_of_nat (length spent) then Err ErrBadTxInput
     else bindR (at spent (unat (op_Index preOutPoint))) (\<lambda>s. if s then Err ErrDoubleSpend else Ok ()))"

text \<open>\<^verbatim>\<open>txData.Tx\<close> is read through: a nil transaction panics.\<close>

definition checkTxInMaturity :: "TxData \<Rightarrow> u64 \<Rightarrow> bool \<Rightarrow> (chain_error, unit) res" where
  "checkTxInMaturity txData txHeight isCoinbase =
    (let blocksSincePrev = (if txHeight > td_BlockHeight txData then txHeight - td_BlockHeight txData else 0) in
     case td_Tx txData of
       None \<Rightarrow> Panic
     | Some tx \<Rightarrow>
         if IsCoinBaseTx tx then
           if blocksSincePrev < CoinbaseMaturity then Err ErrImmatureSpend else Ok ()
         else if isCoinbase then
           if blocksSincePrev < TransactionMaturity then Err ErrImmatureSpend else Ok ()
         else Ok ())"

text \<open>One turn of the loop over the inputs: the lookup, the checks, the total, and the mark.\<close>

definition spend_input :: "u64 \<Rightarrow> TxIn \<Rightarrow> amount \<Rightarrow> TxStore \<Rightarrow> (chain_error, amount \<times> TxStore) res" where
  "spend_input txHeight txIn totalMaxwellIn txStore =
    (let txInHash = op_Hash (PreviousOutPoint txIn); originTxIndex = unat (op_Index (PreviousOutPoint txIn)) in
     case txStore txInHash of
       None \<Rightarrow> Err ErrMissingTx
     | Some originTx \<Rightarrow>
         (case td_Tx originTx of
            None \<Rightarrow> Err ErrMissingTx
          | Some tx \<Rightarrow>
              if td_Err originTx \<noteq> None then Err ErrMissingTx
              else
                bindR (checkTxInMaturity originTx txHeight False) (\<lambda>_.
                bindR (checkDupSpend (PreviousOutPoint txIn) (td_Spent originTx)) (\<lambda>_.
                bindR (at (tx_TxOut tx) originTxIndex) (\<lambda>txOut.
                bindR (liftE CAmount (NewAmountFromInt (Value txOut))) (\<lambda>originTxMaxwell.
                bindR (liftE CAmount (Amount_Add totalMaxwellIn originTxMaxwell)) (\<lambda>total.
                Ok (total, txStore(txInHash \<mapsto>
                  originTx\<lparr> td_Spent := (td_Spent originTx)[originTxIndex := True] \<rparr>)))))))))"

fun spend_inputs :: "u64 \<Rightarrow> TxIn list \<Rightarrow> amount \<Rightarrow> TxStore \<Rightarrow> TxStore \<times> (chain_error, amount) res" where
  "spend_inputs txHeight [] totalMaxwellIn txStore = (txStore, Ok totalMaxwellIn)"
| "spend_inputs txHeight (txIn # txIns) totalMaxwellIn txStore =
    (case spend_input txHeight txIn totalMaxwellIn txStore of
       Ok (totalIn, st) \<Rightarrow> spend_inputs txHeight txIns totalIn st
     | Err e \<Rightarrow> (txStore, Err e)
     | Panic \<Rightarrow> (txStore, Panic))"

definition add_output :: "TxOut \<Rightarrow> amount \<Rightarrow> (chain_error, amount) res" where
  "add_output txOut totalMaxwellOut =
    bindR (liftE CAmount (NewAmountFromInt (Value txOut))) (\<lambda>v.
    liftE CAmount (Amount_Add totalMaxwellOut v))"

definition CheckTransactionInputs :: "MsgTx \<Rightarrow> u64 \<Rightarrow> TxStore \<Rightarrow> TxStore \<times> (chain_error, amount) res" where
  "CheckTransactionInputs tx txHeight txStore =
    (if IsCoinBaseTx tx then
       (txStore,
        if \<exists>txIn\<in>set (tx_TxIn tx). TxWitness_PlainSize (Witness txIn) \<noteq> 0 then Err ErrCoinbaseTxInWitness
        else Ok zeroAmount)
     else
       let (st, r) = spend_inputs txHeight (tx_TxIn tx) zeroAmount txStore in
       (st, bindR r (\<lambda>totalMaxwellIn.
            bindR (foldR add_output (tx_TxOut tx) zeroAmount) (\<lambda>totalMaxwellOut.
            liftE CAmount (Amount_Sub totalMaxwellIn totalMaxwellOut)))))"

text \<open>The loop of \<^verbatim>\<open>checkConnectBlock\<close>: \<open>i\<close> is the index of the transaction in the block.\<close>

definition check_pool_payload :: "bls \<Rightarrow> nat \<Rightarrow> bool \<Rightarrow> MsgTx \<Rightarrow> amount \<Rightarrow> (chain_error, unit) res" where
  "check_pool_payload B i enforceMassIp2WarmUp tx txFee =
    (if i \<noteq> 0 \<and> enforceMassIp2WarmUp then
       case DecodePayload B (tx_Payload tx) of
         None \<Rightarrow> Ok ()
       | Some payload \<Rightarrow>
           if Method payload = BindPoolCoinbase then
             bindR (liftE CAmount (Amount_IntValue txFee)) (\<lambda>fee.
             if fee < MASSIP0002SetPoolPkCoinbaseFee then Err ErrFeeForPoolPkCoinbase
             else if Nonce (Params payload) = 0 then Err ErrPayloadNonce
             else Ok ())
           else Ok ()
     else Ok ())"

fun check_block_inputs ::
  "bls \<Rightarrow> u64 \<Rightarrow> bool \<Rightarrow> nat \<Rightarrow> MsgTx list \<Rightarrow> amount \<Rightarrow> TxStore \<Rightarrow> TxStore \<times> (chain_error, amount) res" where
  "check_block_inputs B height warmUp i [] totalFees txStore = (txStore, Ok totalFees)"
| "check_block_inputs B height warmUp i (tx # txs) totalFees txStore =
    (let (st, r) = CheckTransactionInputs tx height txStore in
     case bindR r (\<lambda>txFee.
          bindR (check_pool_payload B i warmUp tx txFee) (\<lambda>_.
          liftE (\<lambda>_. ErrBadFees) (Amount_Add totalFees txFee))) of
       Ok fees \<Rightarrow> check_block_inputs B height warmUp (i + 1) txs fees st
     | Err e \<Rightarrow> (st, Err e)
     | Panic \<Rightarrow> (st, Panic))"

section \<open>Sane transactions\<close>

lemma foldR_check_dup_input:
  "foldR check_dup_input tis S = Ok S' \<longleftrightarrow>
    distinct (map PreviousOutPoint tis) \<and> S \<inter> PreviousOutPoint ` set tis = {} \<and>
    S' = S \<union> PreviousOutPoint ` set tis"
  by (induction tis arbitrary: S) (auto simp: check_dup_input_def)

lemma foldR_check_dup_input_Err:
  "foldR check_dup_input tis S = Err e \<longleftrightarrow> e = ErrDuplicateTxInputs \<and>
    \<not> (distinct (map PreviousOutPoint tis) \<and> S \<inter> PreviousOutPoint ` set tis = {})"
  by (induction tis arbitrary: S) (auto simp: check_dup_input_def)

lemma foldR_check_dup_input_no_panic: "foldR check_dup_input tis S \<noteq> Panic"
  by (induction tis arbitrary: S) (auto simp: check_dup_input_def)

lemma foldR_check_null_input:
  "foldR check_null_input tis u =
    (if \<exists>ti\<in>set tis. isNullOutpoint (PreviousOutPoint ti) then Err ErrBadTxInput else Ok ())"
  by (induction tis arbitrary: u) (auto simp: check_null_input_def)

lemma foldR_outputs:
  "foldR (\<lambda>txOut total. Amount_AddInt total (Value txOut)) tos a = foldR (\<lambda>v total. Amount_AddInt total v) (map Value tos) a"
  by (induction tos arbitrary: a) (auto intro: bindR_cong)

lemma IsCoinBaseTx_iff:
  "IsCoinBaseTx tx \<longleftrightarrow> tx_TxIn tx \<noteq> [] \<and> isNullOutpoint (PreviousOutPoint (hd (tx_TxIn tx)))"
  by (cases "tx_TxIn tx") (auto simp: IsCoinBaseTx_def isNullOutpoint_def Let_def)

definition wf_values :: "MsgTx \<Rightarrow> bool" where
  "wf_values tx \<longleftrightarrow> (\<forall>to\<in>set (tx_TxOut tx). int64 (Value to))"

lemma output_total_Ok:
  assumes "wf_values tx"
  shows "(\<exists>a. foldR (\<lambda>txOut total. Amount_AddInt total (Value txOut)) (tx_TxOut tx) zeroAmount = Ok a) \<longleftrightarrow>
    (\<forall>to\<in>set (tx_TxOut tx). 0 \<le> Value to) \<and> (\<Sum>to\<leftarrow>tx_TxOut tx. Value to) \<le> max_maxwell"
  using amount_sum.total_Ok [of "map Value (tx_TxOut tx)" 0] assms
  by (auto simp: foldR_outputs zeroAmount_mk wf_values_def)

text \<open>What a sane transaction is: inputs and outputs, of a size a block can hold, output values that are not
  negative and add up to at most the supply, no input twice, and no null input after the first one.\<close>

definition sane :: "MsgTx \<Rightarrow> bool" where
  "sane tx \<longleftrightarrow> tx_TxIn tx \<noteq> [] \<and> tx_TxOut tx \<noteq> [] \<and> MsgTx_PlainSize tx \<le> 2000000 \<and>
    (\<forall>to\<in>set (tx_TxOut tx). 0 \<le> Value to) \<and> (\<Sum>to\<leftarrow>tx_TxOut tx. Value to) \<le> max_maxwell \<and>
    distinct (map PreviousOutPoint (tx_TxIn tx)) \<and>
    (\<forall>ti\<in>set (tl (tx_TxIn tx)). \<not> isNullOutpoint (PreviousOutPoint ti))"

lemma null_inputs:
  assumes "tx_TxIn tx \<noteq> []"
  shows "(if IsCoinBaseTx tx then foldR check_null_input (drop 1 (tx_TxIn tx)) () else foldR check_null_input (tx_TxIn tx) ())
    = (if \<forall>ti\<in>set (tl (tx_TxIn tx)). \<not> isNullOutpoint (PreviousOutPoint ti) then Ok () else Err ErrBadTxInput)"
  using assms by (cases "tx_TxIn tx") (auto simp: foldR_check_null_input check_null_input_def IsCoinBaseTx_iff)

text \<open>C19 (context free transaction checks). \<open>CheckTransactionSanity\<close> accepts exactly the sane transactions and
  never panics; the sum of the outputs of an accepted transaction is exact, it did not wrap around.\<close>

theorem CheckTransactionSanity_iff:
  assumes "wf_values tx"
  shows "(CheckTransactionSanity tx = Ok () \<longleftrightarrow> sane tx) \<and> CheckTransactionSanity tx \<noteq> Panic"
proof -
  let ?t = "foldR (\<lambda>txOut total. Amount_AddInt total (Value txOut)) (tx_TxOut tx) zeroAmount"
  have np: "?t \<noteq> Panic"
    using amount_sum.total_no_panic [of "map Value (tx_TxOut tx)" 0] assms
    by (auto simp: foldR_outputs zeroAmount_mk wf_values_def)
  show ?thesis
  proof (cases "tx_TxIn tx = []")
    case True
    then show ?thesis by (simp add: CheckTransactionSanity_def sane_def)
  next
    case False
    with np show ?thesis
      unfolding CheckTransactionSanity_def null_inputs [OF False] sane_def
      using output_total_Ok [OF assms]
      by (auto simp: res_simps foldR_check_dup_input foldR_check_dup_input_Err foldR_check_dup_input_no_panic
          MaxBlockPayload_def split: if_splits)
  qed
qed

text \<open>A coinbase and a transaction that spends its only output.\<close>

definition sample_coinbase :: MsgTx where
  "sample_coinbase =
    \<lparr> tx_Version = 1,
      tx_TxIn = [\<lparr> PreviousOutPoint = \<lparr> op_Hash = zeroHash, op_Index = 0xffffffff \<rparr>, Witness = [], Sequence = 0 \<rparr>],
      tx_TxOut = [\<lparr> Value = 500, PkScript = [] \<rparr>], tx_LockTime = 0, tx_Payload = [] \<rparr>"

definition sample_hash :: hash where
  "sample_hash = replicate 32 7"

lemma sample_hash_neq [simp]: "sample_hash \<noteq> zeroHash" "zeroHash \<noteq> sample_hash"
  by (simp_all add: sample_hash_def zeroHash_def)

definition sample_spend :: MsgTx where
  "sample_spend =
    \<lparr> tx_Version = 1,
      tx_TxIn = [\<lparr> PreviousOutPoint = \<lparr> op_Hash = sample_hash, op_Index = 0 \<rparr>, Witness = [], Sequence = 0 \<rparr>],
      tx_TxOut = [\<lparr> Value = 300, PkScript = [] \<rparr>, \<lparr> Value = 150, PkScript = [] \<rparr>],
      tx_LockTime = 0, tx_Payload = [] \<rparr>"

lemmas samples = sample_coinbase_def sample_spend_def

lemma sample_fields:
  "tx_TxIn sample_coinbase = [\<lparr> PreviousOutPoint = \<lparr> op_Hash = zeroHash, op_Index = 0xffffffff \<rparr>, Witness = [], Sequence = 0 \<rparr>]"
  "tx_TxIn sample_spend = [\<lparr> PreviousOutPoint = \<lparr> op_Hash = sample_hash, op_Index = 0 \<rparr>, Witness = [], Sequence = 0 \<rparr>]"
  "tx_TxOut sample_coinbase = [\<lparr> Value = 500, PkScript = [] \<rparr>]"
  "tx_TxOut sample_spend = [\<lparr> Value = 300, PkScript = [] \<rparr>, \<lparr> Value = 150, PkScript = [] \<rparr>]"
  "tx_Payload sample_coinbase = []" "tx_Payload sample_spend = []"
  by (simp_all add: samples)

theorem CheckTransactionSanity_witness:
  "CheckTransactionSanity sample_spend = Ok () \<and>
   CheckTransactionSanity (sample_spend\<lparr> tx_TxIn := tx_TxIn sample_spend @ tx_TxIn sample_spend \<rparr>) \<noteq> Ok ()"
proof -
  have "sane sample_spend"
    by (simp add: sane_def samples MsgTx_PlainSize_def TxIn_PlainSize_def TxOut_PlainSize_def TxWitness_PlainSize_def)
  moreover have "\<not> sane (sample_spend\<lparr> tx_TxIn := tx_TxIn sample_spend @ tx_TxIn sample_spend \<rparr>)"
    by (simp add: sane_def samples)
  moreover have "wf_values sample_spend"
    "wf_values (sample_spend\<lparr> tx_TxIn := tx_TxIn sample_spend @ tx_TxIn sample_spend \<rparr>)"
    by (simp_all add: wf_values_def samples int64_def)
  ultimately show ?thesis
    using CheckTransactionSanity_iff [of sample_spend]
      CheckTransactionSanity_iff [of "sample_spend\<lparr> tx_TxIn := tx_TxIn sample_spend @ tx_TxIn sample_spend \<rparr>"]
    by blast
qed

section \<open>Signature operations\<close>

lemma count_inputs_panics:
  "foldR (\<lambda>txIn total. if Witness txIn = [] then Panic else Ok (f txIn total)) txIns n = Panic \<longleftrightarrow>
    [] \<in> Witness ` set txIns"
  by (induction txIns arbitrary: n) auto

lemma count_inputs_no_Err:
  "foldR (\<lambda>txIn total. if Witness txIn = [] then Panic else Ok (f txIn total)) txIns n \<noteq> Err e"
  by (induction txIns arbitrary: n) auto

text \<open>C22 (counting signature operations). Counting the signature operations of a transaction panics exactly when it
  is not a coinbase and one of its inputs has an empty witness, and it has no other error. The sanity checks
  do not rule this out: a sane transaction with an empty witness makes the check of its block panic.\<close>

theorem CountSigOps_panics:
  "(CountSigOps tx = Panic \<longleftrightarrow> \<not> IsCoinBaseTx tx \<and> [] \<in> Witness ` set (tx_TxIn tx)) \<and> CountSigOps tx \<noteq> Err e \<and>
   CheckTransactionSanity sample_spend = Ok () \<and> add_sigops sample_spend 0 = Panic"
proof (intro conjI)
  show "CountSigOps tx = Panic \<longleftrightarrow> \<not> IsCoinBaseTx tx \<and> [] \<in> Witness ` set (tx_TxIn tx)"
    by (simp add: CountSigOps_def bindR_Panic_iff count_inputs_panics)
  show "CountSigOps tx \<noteq> Err e"
    by (simp add: CountSigOps_def bindR_Err_iff count_inputs_no_Err)
  have cb: "\<not> IsCoinBaseTx sample_spend"
    by (simp add: IsCoinBaseTx_def samples Let_def)
  show "CheckTransactionSanity sample_spend = Ok ()"
    by (simp add: CheckTransactionSanity_def check_dup_input_def check_null_input_def isNullOutpoint_def cb sample_fields
        MsgTx_PlainSize_def TxIn_PlainSize_def TxOut_PlainSize_def TxWitness_PlainSize_def MaxBlockPayload_def
        params amount_simps valid_amount_def zeroAmount_mk int64_def)
  show "add_sigops sample_spend 0 = Panic" by (simp add: add_sigops_def CountSigOps_def cb sample_fields)
qed

section \<open>Spending outputs\<close>

text \<open>What a store says about an outpoint: the output it refers to, whether it is spent, whether it is mature.\<close>

definition origin :: "TxStore \<Rightarrow> OutPoint \<Rightarrow> TxOut option" where
  "origin st op =
    (case st (op_Hash op) of
       None \<Rightarrow> None
     | Some d \<Rightarrow>
         (case td_Tx d of
            None \<Rightarrow> None
          | Some tx \<Rightarrow>
              if td_Err d = None \<and> unat (op_Index op) < length (tx_TxOut tx)
              then Some (tx_TxOut tx ! unat (op_Index op)) else None))"

definition out_value :: "TxStore \<Rightarrow> OutPoint \<Rightarrow> int" where
  "out_value st op = (case origin st op of None \<Rightarrow> 0 | Some to \<Rightarrow> Value to)"

definition is_spent :: "TxStore \<Rightarrow> OutPoint \<Rightarrow> bool" where
  "is_spent st op =
    (case st (op_Hash op) of
       None \<Rightarrow> False
     | Some d \<Rightarrow> unat (op_Index op) < length (td_Spent d) \<and> td_Spent d ! unat (op_Index op))"

definition mature :: "u64 \<Rightarrow> TxStore \<Rightarrow> OutPoint \<Rightarrow> bool" where
  "mature height st op =
    (case st (op_Hash op) of
       None \<Rightarrow> False
     | Some d \<Rightarrow>
         (case td_Tx d of
            None \<Rightarrow> False
          | Some tx \<Rightarrow> IsCoinBaseTx tx \<longrightarrow> uint (td_BlockHeight d) + 1000 \<le> uint height))"

definition wf_entry :: "TxData \<Rightarrow> bool" where
  "wf_entry d =
    (case td_Tx d of
       None \<Rightarrow> True
     | Some tx \<Rightarrow> wf_values tx \<and> length (td_Spent d) = length (tx_TxOut tx) \<and> length (tx_TxOut tx) < 2 ^ 32)"

definition wf_store :: "TxStore \<Rightarrow> bool" where
  "wf_store st \<longleftrightarrow> (\<forall>h d. st h = Some d \<longrightarrow> wf_entry d)"

lemma wf_storeD:
  assumes "wf_store st" "st h = Some d" "td_Tx d = Some tx"
  shows "length (td_Spent d) = length (tx_TxOut tx)" "length (td_Spent d) < 2 ^ 32" "wf_values tx"
proof -
  have "wf_entry d" using assms by (simp add: wf_store_def)
  then show "length (td_Spent d) = length (tx_TxOut tx)" "length (td_Spent d) < 2 ^ 32" "wf_values tx"
    using assms by (simp_all add: wf_entry_def)
qed

text \<open>\<open>spends st ops st'\<close>: the outputs \<open>ops\<close> exist in \<open>st\<close>, are unspent and pairwise different, and \<open>st'\<close> is
  \<open>st\<close> with exactly these marked spent.\<close>

definition spends :: "u64 \<Rightarrow> TxStore \<Rightarrow> OutPoint list \<Rightarrow> TxStore \<Rightarrow> bool" where
  "spends height st ops st' \<longleftrightarrow>
    distinct ops \<and>
    (\<forall>op\<in>set ops. origin st op \<noteq> None \<and> \<not> is_spent st op \<and> mature height st op \<and> 0 \<le> out_value st op) \<and>
    origin st' = origin st \<and> mature height st' = mature height st \<and>
    (\<forall>op. is_spent st' op \<longleftrightarrow> is_spent st op \<or> op \<in> set ops)"

lemma spends_Nil [simp]: "spends height st [] st"
  by (simp add: spends_def)

lemma spends_append:
  assumes "spends height st xs st'" and "spends height st' ys st''"
  shows "spends height st (xs @ ys) st''"
  using assms unfolding spends_def out_value_def by auto

lemma out_value_spends: "spends height st ops st' \<Longrightarrow> out_value st' = out_value st"
  by (simp add: spends_def out_value_def fun_eq_iff)

lemma unat_index_less:
  assumes "n < 2 ^ 32" shows "word_of_nat n \<le> (i :: u32) \<longleftrightarrow> n \<le> unat i"
  using assms by (simp add: word_le_nat_alt unat_of_nat)

lemma checkDupSpend_Ok:
  assumes "length spent < 2 ^ 32"
  shows "checkDupSpend op spent = Ok u \<longleftrightarrow> unat (op_Index op) < length spent \<and> \<not> spent ! unat (op_Index op)"
    and "checkDupSpend op spent \<noteq> Panic"
  using unat_index_less [OF assms, of "op_Index op"]
  by (auto simp: checkDupSpend_def res_simps)

lemma checkTxInMaturity_Ok:
  assumes "td_Tx d = Some tx" and "checkTxInMaturity d height False = Ok u" and "IsCoinBaseTx tx"
  shows "uint (td_BlockHeight d) + 1000 \<le> uint height"
proof -
  have "td_BlockHeight d < height" "1000 \<le> height - td_BlockHeight d"
    using assms by (auto simp: checkTxInMaturity_def Let_def params not_less split: if_splits)
  then have "uint (1000 :: u64) \<le> uint (height - td_BlockHeight d)"
    "uint (height - td_BlockHeight d) = uint height - uint (td_BlockHeight d)"
    by (simp_all add: word_le_def word_less_def uint_sub_if')
  then show ?thesis by simp
qed

lemma checkTxInMaturity_no_panic: "td_Tx d = Some tx \<Longrightarrow> checkTxInMaturity d height b \<noteq> Panic"
  by (simp add: checkTxInMaturity_def Let_def)

text \<open>Marking one output of an entry.\<close>

lemma spends_mark:
  assumes "wf_store st" and d: "st (op_Hash op) = Some d" "td_Tx d = Some tx" "td_Err d = None"
    and i: "unat (op_Index op) < length (td_Spent d)" "\<not> td_Spent d ! unat (op_Index op)"
    and m: "mature height st op" "0 \<le> Value (tx_TxOut tx ! unat (op_Index op))"
  defines "st' \<equiv> st(op_Hash op \<mapsto> d\<lparr> td_Spent := (td_Spent d)[unat (op_Index op) := True] \<rparr>)"
  shows "spends height st [op] st'" and "wf_store st'"
proof -
  note len = wf_storeD(1) [OF assms(1) d(1,2)]
  have o: "origin st op = Some (tx_TxOut tx ! unat (op_Index op))"
    using d i len by (simp add: origin_def)
  have "is_spent st' p \<longleftrightarrow> is_spent st p \<or> p = op" for p
  proof (cases "op_Hash p = op_Hash op")
    case True
    then have "p = op \<longleftrightarrow> unat (op_Index p) = unat (op_Index op)" by (cases p; cases op) (auto simp: word_unat_eq_iff)
    with True d i show ?thesis by (auto simp: is_spent_def st'_def nth_list_update)
  qed (auto simp: is_spent_def st'_def)
  moreover have "origin st' = origin st" "mature height st' = mature height st"
    using d by (auto simp: origin_def mature_def st'_def fun_eq_iff)
  moreover have "\<not> is_spent st op" using d i by (simp add: is_spent_def)
  ultimately show "spends height st [op] st'" using o m by (auto simp: spends_def out_value_def)
  show "wf_store st'" using assms(1) d wf_storeD [OF assms(1) d(1,2)] by (auto simp: wf_store_def wf_entry_def st'_def)
qed

lemma spend_input_Ok:
  assumes wf: "wf_store st" and v: "valid_amount a" and ok: "spend_input height ti a st = Ok (b, st')"
  shows "spends height st [PreviousOutPoint ti] st' \<and> wf_store st' \<and> valid_amount b \<and>
    maxwell b = maxwell a + out_value st (PreviousOutPoint ti)"
proof -
  let ?op = "PreviousOutPoint ti"
  obtain d tx where d: "st (op_Hash ?op) = Some d" "td_Tx d = Some tx" "td_Err d = None"
    and m: "checkTxInMaturity d height False = Ok ()" and dup: "checkDupSpend ?op (td_Spent d) = Ok ()"
    and amt: "bindR (liftE CAmount (NewAmountFromInt (Value (tx_TxOut tx ! unat (op_Index ?op))))) (\<lambda>x.
       liftE CAmount (Amount_Add a x)) = Ok b"
    and st': "st' = st(op_Hash ?op \<mapsto> d\<lparr> td_Spent := (td_Spent d)[unat (op_Index ?op) := True] \<rparr>)"
    using ok by (auto simp: spend_input_def Let_def res_simps split: option.splits if_splits)
  note len = wf_storeD(1,2) [OF wf d(1,2)] and vals = wf_storeD(3) [OF wf d(1,2)]
  have i: "unat (op_Index ?op) < length (td_Spent d)" "\<not> td_Spent d ! unat (op_Index ?op)"
    using dup checkDupSpend_Ok [OF len(2)] by blast+
  have to: "int64 (Value (tx_TxOut tx ! unat (op_Index ?op)))"
    using vals i len by (simp add: wf_values_def)
  then have val: "0 \<le> Value (tx_TxOut tx ! unat (op_Index ?op))" "valid_amount b"
    "maxwell b = maxwell a + Value (tx_TxOut tx ! unat (op_Index ?op))"
    using amt v by (auto simp: res_simps amount_simps valid_amount_def split: if_splits)
  have "mature height st ?op"
    using d checkTxInMaturity_Ok [OF d(2) m] by (simp add: mature_def)
  from spends_mark [OF wf d i this val(1)] val d i len show ?thesis
    by (simp add: st' out_value_def origin_def)
qed

lemma spend_input_no_panic:
  assumes wf: "wf_store st" and v: "valid_amount a"
  shows "spend_input height ti a st \<noteq> Panic"
proof
  let ?op = "PreviousOutPoint ti"
  assume p: "spend_input height ti a st = Panic"
  then obtain d tx where d: "st (op_Hash ?op) = Some d" "td_Tx d = Some tx" "td_Err d = None"
    by (auto simp: spend_input_def Let_def split: option.splits if_splits)
  note len = wf_storeD(1,2) [OF wf d(1,2)] and vals = wf_storeD(3) [OF wf d(1,2)]
  have "int64 (Value (tx_TxOut tx ! i))" if "i < length (tx_TxOut tx)" for i
    using vals that by (simp add: wf_values_def)
  with p d len v checkDupSpend_Ok [OF len(2)] checkTxInMaturity_no_panic [OF d(2)] show False
    by (auto simp: spend_input_def Let_def res_simps amount_simps valid_amount_def split: if_splits)
qed

lemma spend_inputs_Ok:
  assumes "wf_store st" "valid_amount a" "spend_inputs height tis a st = (st', Ok b)"
  shows "spends height st (map PreviousOutPoint tis) st' \<and> wf_store st' \<and> valid_amount b \<and>
    maxwell b = maxwell a + (\<Sum>ti\<leftarrow>tis. out_value st (PreviousOutPoint ti))"
  using assms
proof (induction tis arbitrary: a st)
  case (Cons ti tis)
  from Cons.prems(3) obtain c st1 where c: "spend_input height ti a st = Ok (c, st1)"
    and rest: "spend_inputs height tis c st1 = (st', Ok b)"
    by (auto split: res.splits)
  note one = spend_input_Ok [OF Cons.prems(1,2) c]
  with Cons.IH [OF _ _ rest] have "spends height st1 (map PreviousOutPoint tis) st'" "wf_store st'" "valid_amount b"
    "maxwell b = maxwell c + (\<Sum>ti\<leftarrow>tis. out_value st1 (PreviousOutPoint ti))" by auto
  with one spends_append [of height st "[PreviousOutPoint ti]" st1] out_value_spends show ?case by fastforce
qed simp

lemma spend_inputs_no_panic:
  "wf_store st \<Longrightarrow> valid_amount a \<Longrightarrow> snd (spend_inputs height tis a st) \<noteq> Panic"
proof (induction tis arbitrary: a st)
  case (Cons ti tis)
  show ?case
  proof (cases "spend_input height ti a st")
    case (Ok p)
    then obtain c st1 where "spend_input height ti a st = Ok (c, st1)" by (cases p) auto
    with Cons spend_input_Ok [OF Cons.prems this] show ?thesis by simp
  qed (use Cons.prems spend_input_no_panic in auto)
qed simp

lemma add_output_spec:
  assumes "valid_amount a" "int64 (Value to)"
  shows "add_output to a = Ok b \<longleftrightarrow> 0 \<le> Value to \<and> maxwell a + Value to \<le> max_maxwell \<and> b = mk_amount (maxwell a + Value to)"
    and "add_output to a \<noteq> Panic"
  using assms by (auto simp: add_output_def res_simps amount_simps valid_amount_def)

lemma add_outputs_Ok:
  assumes "valid_amount a" "\<forall>to\<in>set tos. int64 (Value to)" "foldR add_output tos a = Ok b"
  shows "valid_amount b \<and> maxwell b = maxwell a + (\<Sum>to\<leftarrow>tos. Value to)"
  using assms
proof (induction tos arbitrary: a)
  case (Cons to tos)
  from Cons.prems obtain c where c: "add_output to a = Ok c" "foldR add_output tos c = Ok b"
    by (auto simp: res_simps)
  with Cons.prems have "valid_amount c" "maxwell c = maxwell a + Value to"
    using add_output_spec(1) [of a to c] by (auto simp: valid_amount_def)
  with Cons.IH [OF this(1) _ c(2)] Cons.prems show ?case by simp
qed simp

lemma add_outputs_no_panic:
  "valid_amount a \<Longrightarrow> \<forall>to\<in>set tos. int64 (Value to) \<Longrightarrow> foldR add_output tos a \<noteq> Panic"
proof (induction tos arbitrary: a)
  case (Cons to tos)
  show ?case
  proof (cases "add_output to a")
    case (Ok c)
    with Cons.prems have "valid_amount c"
      using add_output_spec(1) [of a to c] by (auto simp: valid_amount_def)
    with Cons Ok show ?thesis by simp
  qed (use Cons.prems add_output_spec(2) in auto)
qed simp

text \<open>The outpoints a transaction spends and the values it moves: a coinbase spends nothing here.\<close>

definition spent_outpoints :: "MsgTx \<Rightarrow> OutPoint list" where
  "spent_outpoints tx = (if IsCoinBaseTx tx then [] else map PreviousOutPoint (tx_TxIn tx))"

definition created_value :: "MsgTx \<Rightarrow> int" where
  "created_value tx = (if IsCoinBaseTx tx then 0 else \<Sum>to\<leftarrow>tx_TxOut tx. Value to)"

lemma CheckTransactionInputs_Ok:
  assumes wf: "wf_store st" and vals: "wf_values tx" and ok: "CheckTransactionInputs tx height st = (st', Ok fee)"
  shows "spends height st (spent_outpoints tx) st' \<and> wf_store st' \<and> valid_amount fee \<and>
    (\<Sum>op\<leftarrow>spent_outpoints tx. out_value st op) = created_value tx + maxwell fee"
proof (cases "IsCoinBaseTx tx")
  case True
  with ok wf show ?thesis
    by (auto simp: CheckTransactionInputs_def spent_outpoints_def created_value_def zeroAmount_mk valid_amount_def split: if_splits)
next
  case False
  from ok False obtain a b where a: "spend_inputs height (tx_TxIn tx) zeroAmount st = (st', Ok a)"
    and b: "foldR add_output (tx_TxOut tx) zeroAmount = Ok b" and fee: "Amount_Sub a b = Ok fee"
    by (auto simp: CheckTransactionInputs_def res_simps split: prod.splits)
  from spend_inputs_Ok [OF wf valid_zeroAmount a] have "spends height st (map PreviousOutPoint (tx_TxIn tx)) st'" "wf_store st'"
    "valid_amount a" "maxwell a = (\<Sum>ti\<leftarrow>tx_TxIn tx. out_value st (PreviousOutPoint ti))"
    by (simp_all add: zeroAmount_mk)
  moreover from add_outputs_Ok [OF valid_zeroAmount _ b] vals have "valid_amount b" "maxwell b = (\<Sum>to\<leftarrow>tx_TxOut tx. Value to)"
    by (simp_all add: zeroAmount_mk wf_values_def)
  ultimately show ?thesis
    using fee False by (auto simp: amount_simps spent_outpoints_def created_value_def valid_amount_def comp_def split: if_splits)
qed

lemma CheckTransactionInputs_no_panic:
  assumes "wf_store st" "wf_values tx"
  shows "snd (CheckTransactionInputs tx height st) \<noteq> Panic"
proof (cases "spend_inputs height (tx_TxIn tx) zeroAmount st")
  case (Pair st' r)
  have r: "r \<noteq> Panic" using spend_inputs_no_panic [OF assms(1), of zeroAmount height "tx_TxIn tx"] Pair by simp
  have va: "valid_amount a" if "r = Ok a" for a using spend_inputs_Ok [OF assms(1) _ Pair [unfolded that]] by simp
  have vb: "valid_amount b" if "foldR add_output (tx_TxOut tx) zeroAmount = Ok b" for b
    using add_outputs_Ok [OF _ _ that] assms(2) by (simp add: wf_values_def)
  have o: "foldR add_output (tx_TxOut tx) zeroAmount \<noteq> Panic"
    using add_outputs_no_panic assms(2) by (simp add: wf_values_def)
  show ?thesis
    using Pair r va vb o by (auto simp: CheckTransactionInputs_def res_simps amount_simps)
qed

section \<open>A block neither spends twice nor creates value\<close>

lemma check_block_inputs_Ok:
  assumes "wf_store st" "\<forall>tx\<in>set txs. wf_values tx" "valid_amount a"
    and "check_block_inputs B height warmUp i txs a st = (st', Ok b)"
  shows "spends height st (concat (map spent_outpoints txs)) st' \<and> wf_store st' \<and> valid_amount b \<and>
    (\<Sum>op\<leftarrow>concat (map spent_outpoints txs). out_value st op) + maxwell a = (\<Sum>tx\<leftarrow>txs. created_value tx) + maxwell b"
  using assms
proof (induction txs arbitrary: a i st)
  case (Cons tx txs)
  obtain st1 r where tx: "CheckTransactionInputs tx height st = (st1, r)" by fastforce
  with Cons.prems(4) obtain fee c where fee: "r = Ok fee" and c: "Amount_Add a fee = Ok c"
    and rest: "check_block_inputs B height warmUp (i + 1) txs c st1 = (st', Ok b)"
    by (auto simp: res_simps split: res.splits)
  have one: "spends height st (spent_outpoints tx) st1 \<and> wf_store st1 \<and> valid_amount fee \<and>
      (\<Sum>op\<leftarrow>spent_outpoints tx. out_value st op) = created_value tx + maxwell fee"
    using CheckTransactionInputs_Ok [of st tx height st1 fee] Cons.prems tx fee by simp
  then have vc: "valid_amount c" "maxwell c = maxwell a + maxwell fee"
    using c Cons.prems(3) by (auto simp: amount_simps valid_amount_def split: if_splits)
  from Cons.IH [OF _ _ vc(1) rest] one Cons.prems(2)
  have ih: "spends height st1 (concat (map spent_outpoints txs)) st' \<and> wf_store st' \<and> valid_amount b \<and>
    (\<Sum>op\<leftarrow>concat (map spent_outpoints txs). out_value st1 op) + maxwell c = (\<Sum>tx\<leftarrow>txs. created_value tx) + maxwell b"
    by simp
  moreover have "out_value st1 = out_value st" using one out_value_spends by blast
  ultimately show ?case
    using spends_append [of height st "spent_outpoints tx" st1] one vc(2) by auto
qed simp

text \<open>C2 (no double spending and no inflation within a block). When the input checks of a block pass, the
  outputs its transactions spend are pairwise different, each of them exists in the store, is unspent there
  and is at least 1000 blocks old if a coinbase created it; afterwards exactly these outputs have become
  spent; and the value of the outputs spent equals the value of the outputs created plus the total of the
  fees, all as exact integers. Two transactions of a block therefore never spend the same output, also when
  one spends an output of the other. The store stays well formed.\<close>

theorem block_inputs_conserve_value:
  assumes "wf_store st" and "\<forall>tx\<in>set txs. wf_values tx"
    and "check_block_inputs B height warmUp 0 txs zeroAmount st = (st', Ok totalFees)"
  shows "distinct (concat (map spent_outpoints txs)) \<and>
    (\<forall>op\<in>set (concat (map spent_outpoints txs)).
       origin st op \<noteq> None \<and> \<not> is_spent st op \<and> mature height st op) \<and>
    (\<forall>op. is_spent st' op \<longleftrightarrow> is_spent st op \<or> op \<in> set (concat (map spent_outpoints txs))) \<and>
    (\<Sum>op\<leftarrow>concat (map spent_outpoints txs). out_value st op) =
      (\<Sum>tx\<leftarrow>txs. created_value tx) + maxwell totalFees \<and>
    0 \<le> maxwell totalFees \<and> wf_store st'"
  using check_block_inputs_Ok [OF assms(1,2) valid_zeroAmount assms(3)]
  by (auto simp: spends_def zeroAmount_mk valid_amount_def)

definition sample_store :: TxStore where
  "sample_store =
    [sample_hash \<mapsto> \<lparr> td_Tx = Some sample_coinbase, td_Hash = sample_hash, td_BlockHeight = 100, td_Spent = [False], td_Err = None \<rparr>]"

definition sample_bls :: bls where
  "sample_bls = \<lparr> valid_g1 = (\<lambda>_. True), valid_g2 = (\<lambda>_. True), aug_verify = (\<lambda>_ _ _. True) \<rparr>"

theorem block_inputs_conserve_value_witness:
  "snd (check_block_inputs sample_bls 1100 True 0 [sample_coinbase, sample_spend] zeroAmount sample_store) = Ok (mk_amount 50) \<and>
   out_value sample_store \<lparr> op_Hash = sample_hash, op_Index = 0 \<rparr> = created_value sample_spend + 50 \<and>
   snd (check_block_inputs sample_bls 1099 True 0 [sample_coinbase, sample_spend] zeroAmount sample_store) = Err ErrImmatureSpend"
proof -
  let ?st = "sample_store(sample_hash \<mapsto> \<lparr> td_Tx = Some sample_coinbase, td_Hash = sample_hash, td_BlockHeight = 100, td_Spent = [True], td_Err = None \<rparr>)"
  have cb: "IsCoinBaseTx sample_coinbase" "\<not> IsCoinBaseTx sample_spend"
    by (simp_all add: IsCoinBaseTx_def samples Let_def)
  note eval = CheckTransactionInputs_def cb sample_fields spend_input_def checkTxInMaturity_def checkDupSpend_def add_output_def
    check_pool_payload_def DecodePayload_def params amount_simps valid_amount_def zeroAmount_mk int64_def
    TxWitness_PlainSize_def sample_store_def Let_def
  have run: "check_block_inputs sample_bls 1100 True 0 [sample_coinbase, sample_spend] zeroAmount sample_store =
      (?st, Ok (mk_amount 50))"
    by (simp add: eval)
  have early: "snd (check_block_inputs sample_bls 1099 True 0 [sample_coinbase, sample_spend] zeroAmount sample_store) = Err ErrImmatureSpend"
    by (simp add: eval)
  have "wf_store sample_store"
    by (auto simp: wf_store_def wf_entry_def wf_values_def sample_store_def sample_coinbase_def int64_def)
  moreover have "\<forall>tx\<in>set [sample_coinbase, sample_spend]. wf_values tx"
    by (simp add: wf_values_def samples int64_def)
  ultimately have "(\<Sum>op\<leftarrow>concat (map spent_outpoints [sample_coinbase, sample_spend]). out_value sample_store op) =
      (\<Sum>tx\<leftarrow>[sample_coinbase, sample_spend]. created_value tx) + 50"
    using block_inputs_conserve_value [OF _ _ run] by simp
  with run early show ?thesis by (simp add: spent_outpoints_def created_value_def cb) (simp add: samples)
qed

end
