(* ===== verification/Tx_Lookup.thy ===== *)
theory Tx_Lookup
  imports Tx_Validate
begin

text \<open>
  \<^verbatim>\<open>blockchain/txlookup.go\<close>: the view of the transactions a block refers to. \<open>connectTransactions\<close> and
  \<open>disconnectTransactions\<close> move a store forward and backward over a block, \<open>fetchTxStoreMain\<close> reads it from
  the database at the end of the main chain, and \<open>fetchInputTransactions\<close> joins the transactions of the
  block itself with those of the chain. The database is not modelled: the calls the code makes are the
  record \<open>chain_db\<close>, a parameter. The theory shows that disconnecting a block undoes connecting it, that
  every entry is filed under its own hash, and which transactions of a block see each other's outputs.
\<close>

record TxReply =
  tr_Sha :: hash
  tr_Tx :: "MsgTx option"
  tr_Height :: u64
  tr_TxSpent :: "bool list"
  tr_Err :: "chain_error option"

record chain_db =
  FetchTxByShaList :: "hash list \<Rightarrow> TxReply list"
  FetchUnSpentTxByShaList :: "hash list \<Rightarrow> TxReply list"
  FetchLastFullySpentTxBeforeHeight :: "hash \<Rightarrow> u64 \<Rightarrow> MsgTx option \<times> u64 \<times> chain_error option"

section \<open>Connecting and disconnecting a block\<close>

text \<open>The loop over the inputs: \<open>b\<close> is the mark, true when connecting and false when disconnecting.\<close>

definition mark_origin :: "bool \<Rightarrow> TxIn \<Rightarrow> TxStore \<Rightarrow> (chain_error, TxStore) res" where
  "mark_origin b txIn txStore =
    (let originIndex = op_Index (PreviousOutPoint txIn); h = op_Hash (PreviousOutPoint txIn) in
     case txStore h of
       None \<Rightarrow> Ok txStore
     | Some originTx \<Rightarrow>
         if td_Tx originTx \<noteq> None \<and> td_Err originTx = None then
           if originIndex \<ge> word_of_nat (length (td_Spent originTx)) then Err ErrBadTxInput
           else Ok (txStore(h \<mapsto> originTx\<lparr> td_Spent := (td_Spent originTx)[unat originIndex := b] \<rparr>))
         else Ok txStore)"

definition connect_tx :: "u64 \<Rightarrow> MsgTx \<Rightarrow> TxStore \<Rightarrow> (chain_error, TxStore) res" where
  "connect_tx height tx txStore =
    bindR
      (case txStore (TxHash tx) of
         None \<Rightarrow> Ok txStore
       | Some txD \<Rightarrow>
           if td_Tx txD \<noteq> None \<and> \<not> isTransactionSpent txD then Err ErrTxAlreadyExists
           else Ok (txStore(TxHash tx \<mapsto> txD\<lparr> td_Tx := Some tx, td_BlockHeight := height,
                  td_Spent := replicate (length (tx_TxOut tx)) False, td_Err := None \<rparr>)))
      (\<lambda>st. if IsCoinBaseTx tx then Ok st else foldR (mark_origin True) (tx_TxIn tx) st)"

definition connectTransactions :: "TxStore \<Rightarrow> u64 \<Rightarrow> MsgTx list \<Rightarrow> (chain_error, TxStore) res" where
  "connectTransactions txStore height txs = foldR (connect_tx height) txs txStore"

text \<open>Clearing the entry of a transaction: an earlier transaction with this hash that is fully spent comes
  back, otherwise the entry is marked missing.\<close>

definition clear_entry :: "chain_db \<Rightarrow> u64 \<Rightarrow> hash \<Rightarrow> TxData \<Rightarrow> (chain_error, TxData) res" where
  "clear_entry db height h txD =
    (let (msgtx, height', err) = FetchLastFullySpentTxBeforeHeight db h height in
     if err \<noteq> None \<and> err \<noteq> Some ErrTxShaMissing then Err (the err)
     else case msgtx of
       None \<Rightarrow> Ok (txD\<lparr> td_Tx := None, td_BlockHeight := 0, td_Spent := [], td_Err := Some ErrTxShaMissing \<rparr>)
     | Some m \<Rightarrow> Ok (txD\<lparr> td_Tx := Some m, td_BlockHeight := height',
           td_Spent := replicate (length (tx_TxOut m)) True, td_Err := None \<rparr>))"

definition disconnect_tx :: "chain_db \<Rightarrow> u64 \<Rightarrow> MsgTx \<Rightarrow> TxStore \<Rightarrow> (chain_error, TxStore) res" where
  "disconnect_tx db height tx txStore =
    bindR
      (case txStore (TxHash tx) of
         None \<Rightarrow> Ok txStore
       | Some txD \<Rightarrow> bindR (clear_entry db height (TxHash tx) txD) (\<lambda>d. Ok (txStore(TxHash tx \<mapsto> d))))
      (\<lambda>st. if IsCoinBaseTx tx then Ok st else foldR (mark_origin False) (tx_TxIn tx) st)"

definition disconnectTransactions :: "chain_db \<Rightarrow> TxStore \<Rightarrow> u64 \<Rightarrow> MsgTx list \<Rightarrow> (chain_error, TxStore) res" where
  "disconnectTransactions db txStore height txs = foldR (disconnect_tx db height) (rev txs) txStore"

section \<open>Reading the store\<close>

definition missing_entry :: "hash \<Rightarrow> TxData" where
  "missing_entry h = \<lparr> td_Tx = None, td_Hash = h, td_BlockHeight = 0, td_Spent = [], td_Err = Some ErrTxShaMissing \<rparr>"

definition fill_reply :: "TxReply \<Rightarrow> TxStore \<Rightarrow> TxStore" where
  "fill_reply txReply txStore =
    (case txStore (tr_Sha txReply) of
       None \<Rightarrow> txStore
     | Some txD \<Rightarrow>
         if tr_Err txReply = None then
           txStore(tr_Sha txReply \<mapsto> txD\<lparr> td_Err := None, td_Tx := tr_Tx txReply,
             td_BlockHeight := tr_Height txReply, td_Spent := tr_TxSpent txReply \<rparr>)
         else txStore(tr_Sha txReply \<mapsto> txD\<lparr> td_Err := tr_Err txReply \<rparr>))"

definition fetchTxStoreMain :: "chain_db \<Rightarrow> hash list \<Rightarrow> bool \<Rightarrow> TxStore" where
  "fetchTxStoreMain db txSet includeSpent =
    (if txSet = [] then Map.empty
     else
       let txStore = map_of (map (\<lambda>h. (h, missing_entry h)) txSet);
           replies = (if includeSpent then FetchTxByShaList db txSet else FetchUnSpentTxByShaList db txSet)
       in fold fill_reply replies txStore)"

definition FetchTransactionStore :: "chain_db \<Rightarrow> MsgTx \<Rightarrow> bool \<Rightarrow> TxStore" where
  "FetchTransactionStore db tx includeSpent =
    fetchTxStoreMain db (remdups (TxHash tx # map (\<lambda>ti. op_Hash (PreviousOutPoint ti)) (tx_TxIn tx))) includeSpent"

text \<open>\<open>fetchInputTransactions\<close>: the index of the last transaction with a hash, the store of the inputs that
  refer to the block itself, and the set of hashes still needed. The needed entries are then fetched
  (\<open>fetch\<close> is \<^verbatim>\<open>fetchTxStore\<close> for the node) and replace what is there.\<close>

definition tx_in_flight :: "MsgTx list \<Rightarrow> hash \<rightharpoonup> nat" where
  "tx_in_flight txs = fold (\<lambda>(i, tx) m. m(TxHash tx \<mapsto> i)) (enumerate 0 txs) Map.empty"

definition input_refs :: "MsgTx \<Rightarrow> TxIn list" where
  "input_refs tx = (if IsCoinBaseTx tx then drop 1 (tx_TxIn tx) else tx_TxIn tx)"

definition collect_input ::
  "MsgTx list \<Rightarrow> u64 \<Rightarrow> (nat \<times> TxIn) \<Rightarrow> TxStore \<times> hash list \<Rightarrow> TxStore \<times> hash list" where
  "collect_input txs height = (\<lambda>(i, txIn) (txStore, txNeededSet).
    let originHash = op_Hash (PreviousOutPoint txIn); txD = missing_entry originHash in
    case tx_in_flight txs originHash of
      Some inFlightIndex \<Rightarrow>
        if i \<ge> inFlightIndex then
          let originTx = txs ! inFlightIndex in
          (txStore(originHash \<mapsto> txD\<lparr> td_Tx := Some originTx, td_BlockHeight := height,
             td_Spent := replicate (length (tx_TxOut originTx)) False, td_Err := None \<rparr>), txNeededSet)
        else (txStore(originHash \<mapsto> txD), List.insert originHash txNeededSet)
    | None \<Rightarrow> (txStore(originHash \<mapsto> txD), List.insert originHash txNeededSet))"

definition block_refs :: "MsgTx list \<Rightarrow> (nat \<times> TxIn) list" where
  "block_refs txs = concat (map (\<lambda>(i, tx). map (Pair i) (input_refs tx)) (enumerate 0 txs))"

definition fetchInputTransactions ::
  "(hash list \<Rightarrow> (chain_error, TxStore) res) \<Rightarrow> u64 \<Rightarrow> MsgTx list \<Rightarrow> (chain_error, TxStore) res" where
  "fetchInputTransactions fetch height txs =
    (let (txStore, txNeededSet) = fold (collect_input txs height) (block_refs txs) (Map.empty, []) in
     bindR (fetch txNeededSet) (\<lambda>txNeededStore. Ok (txStore ++ txNeededStore)))"

section \<open>Entries are filed under their hash\<close>

definition keyed :: "TxStore \<Rightarrow> bool" where
  "keyed st \<longleftrightarrow> (\<forall>h d. st h = Some d \<longrightarrow> td_Hash d = h)"

lemma keyed_upd: "keyed st \<Longrightarrow> td_Hash d = h \<Longrightarrow> keyed (st(h \<mapsto> d))"
  by (simp add: keyed_def)

lemma keyed_mark_origin: "keyed st \<Longrightarrow> okR keyed (mark_origin b ti st)"
  unfolding mark_origin_def Let_def
  by (intro okR_intros) (auto simp: keyed_def)

lemma okR_foldR:
  assumes "P s" and step: "\<And>x s. P s \<Longrightarrow> okR P (f x s)"
  shows "okR P (foldR f xs s)"
  using assms(1)
proof (induction xs arbitrary: s)
  case (Cons x xs)
  then show ?case using okRD [OF step [OF Cons.prems]] by (auto intro: okR_bind)
qed (simp add: okR_def)

lemma keyed_connect: "keyed st \<Longrightarrow> okR keyed (connectTransactions st height txs)"
  unfolding connectTransactions_def
proof (erule okR_foldR)
  fix tx and s :: TxStore assume s: "keyed s"
  have "okR keyed (case s (TxHash tx) of
         None \<Rightarrow> Ok s
       | Some txD \<Rightarrow>
           if td_Tx txD \<noteq> None \<and> \<not> isTransactionSpent txD then Err ErrTxAlreadyExists
           else Ok (s(TxHash tx \<mapsto> txD\<lparr> td_Tx := Some tx, td_BlockHeight := height,
                  td_Spent := replicate (length (tx_TxOut tx)) False, td_Err := None \<rparr>)))"
    using s by (intro okR_intros) (auto simp: keyed_def)
  then show "okR keyed (connect_tx height tx s)"
    unfolding connect_tx_def
    by (intro okR_intros) (auto dest: okRD intro!: okR_foldR keyed_mark_origin)
qed

lemma keyed_fetchTxStoreMain: "keyed (fetchTxStoreMain db txSet includeSpent)"
proof -
  have "keyed (fold fill_reply rs st)" if "keyed st" for rs st
    using that
  proof (induction rs arbitrary: st)
    case (Cons r rs)
    have "keyed (fill_reply r st)"
      using Cons.prems by (cases "st (tr_Sha r)") (simp_all add: fill_reply_def keyed_def)
    with Cons.IH show ?case by simp
  qed simp
  moreover have "keyed (map_of (map (\<lambda>h. (h, missing_entry h)) txSet))"
    by (auto simp: keyed_def missing_entry_def dest!: map_of_SomeD)
  moreover have "keyed Map.empty" by (simp add: keyed_def)
  ultimately show ?thesis by (simp add: fetchTxStoreMain_def Let_def)
qed

section \<open>Disconnecting undoes connecting\<close>

text \<open>The marks in the entry of one hash.\<close>

definition set_marks :: "bool \<Rightarrow> TxIn list \<Rightarrow> hash \<Rightarrow> bool list \<Rightarrow> bool list" where
  "set_marks b tis h s =
    fold (\<lambda>ti s. if op_Hash (PreviousOutPoint ti) = h then s[unat (op_Index (PreviousOutPoint ti)) := b] else s) tis s"

definition marked :: "bool \<Rightarrow> TxIn list \<Rightarrow> TxStore \<Rightarrow> TxStore" where
  "marked b tis st = (\<lambda>h. map_option (\<lambda>d. if td_Tx d \<noteq> None \<and> td_Err d = None
    then d\<lparr> td_Spent := set_marks b tis h (td_Spent d) \<rparr> else d) (st h))"

definition in_range :: "TxStore \<Rightarrow> TxIn \<Rightarrow> bool" where
  "in_range st ti =
    (case st (op_Hash (PreviousOutPoint ti)) of
       None \<Rightarrow> True
     | Some d \<Rightarrow> td_Tx d \<noteq> None \<and> td_Err d = None \<longrightarrow>
         op_Index (PreviousOutPoint ti) < word_of_nat (length (td_Spent d)))"

lemma set_marks_simps [simp]:
  "set_marks b [] h s = s"
  "set_marks b (ti # tis) h s = set_marks b tis h
    (if op_Hash (PreviousOutPoint ti) = h then s[unat (op_Index (PreviousOutPoint ti)) := b] else s)"
  by (simp_all add: set_marks_def)

lemma length_set_marks [simp]: "length (set_marks b tis h s) = length s"
  by (induction tis arbitrary: s) auto

lemma nth_set_marks:
  "k < length s \<Longrightarrow> set_marks b tis h s ! k =
    (if \<exists>ti\<in>set tis. op_Hash (PreviousOutPoint ti) = h \<and> unat (op_Index (PreviousOutPoint ti)) = k then b else s ! k)"
  by (induction tis arbitrary: s) (auto simp: nth_list_update)

lemma in_range_marked [simp]: "in_range (marked b tis st) ti = in_range st ti"
  by (auto simp: in_range_def marked_def split: option.splits)

lemma mark_origin_marked:
  "mark_origin b ti st = (if in_range st ti then Ok (marked b [ti] st) else Err ErrBadTxInput)"
proof (cases "st (op_Hash (PreviousOutPoint ti))")
  case None
  then show ?thesis by (auto simp: mark_origin_def in_range_def marked_def fun_eq_iff map_option_case split: option.splits)
next
  case (Some d)
  then show ?thesis
    by (auto simp: mark_origin_def in_range_def marked_def fun_eq_iff map_option_case Let_def not_le split: option.splits)
qed

lemma marked_marked: "marked b tis (marked b [ti] st) = marked b (ti # tis) st"
  by (auto simp: marked_def fun_eq_iff map_option_case split: option.splits)

lemma marked_Nil [simp]: "marked b [] st = st"
  by (auto simp: marked_def fun_eq_iff map_option_case split: option.splits)

lemma mark_origins_marked:
  "foldR (mark_origin b) tis st =
    (if \<forall>ti\<in>set tis. in_range st ti then Ok (marked b tis st) else Err ErrBadTxInput)"
  by (induction tis arbitrary: st) (simp_all add: mark_origin_marked marked_marked)

lemma marked_undo:
  assumes "\<forall>ti\<in>set tis. \<not> is_spent st (PreviousOutPoint ti)"
  shows "marked False tis (marked True tis st) = st"
proof
  fix h
  show "marked False tis (marked True tis st) h = st h"
  proof (cases "st h")
    case (Some d)
    have "set_marks False tis h (set_marks True tis h (td_Spent d)) = td_Spent d"
    proof (rule nth_equalityI)
      fix k assume "k < length (set_marks False tis h (set_marks True tis h (td_Spent d)))"
      then have k: "k < length (td_Spent d)" by simp
      have "\<not> td_Spent d ! k"
        if "ti \<in> set tis" "op_Hash (PreviousOutPoint ti) = h" "unat (op_Index (PreviousOutPoint ti)) = k" for ti
        using assms that Some k by (auto simp: is_spent_def)
      then show "set_marks False tis h (set_marks True tis h (td_Spent d)) ! k = td_Spent d ! k"
        using k by (auto simp: nth_set_marks)
    qed simp
    with Some show ?thesis by (auto simp: marked_def)
  qed (simp add: marked_def)
qed

lemma set_marks_other: "\<forall>ti\<in>set tis. op_Hash (PreviousOutPoint ti) \<noteq> h \<Longrightarrow> set_marks b tis h s = s"
  by (induction tis arbitrary: s) auto

lemma marked_other: "\<forall>ti\<in>set tis. op_Hash (PreviousOutPoint ti) \<noteq> h \<Longrightarrow> marked b tis st h = st h"
  by (simp add: marked_def set_marks_other map_option_case split: option.splits)

lemma marked_upd:
  "\<forall>ti\<in>set tis. op_Hash (PreviousOutPoint ti) \<noteq> h \<Longrightarrow> (marked b tis (st(h \<mapsto> d')))(h \<mapsto> d) = marked b tis (st(h \<mapsto> d))"
  by (auto simp: fun_eq_iff marked_other) (simp add: marked_def)

lemma in_range_upd:
  "op_Hash (PreviousOutPoint ti) \<noteq> h \<Longrightarrow> in_range (st(h \<mapsto> d)) ti = in_range st ti"
  by (simp add: in_range_def)

text \<open>What the store holds for a hash before the block at a height. When the database has no fully spent
  transaction with this hash below the height, the entry says that the transaction is missing; when it has
  one, the entry is that transaction, at its height, with every output spent.\<close>

definition entry_before :: "chain_db \<Rightarrow> u64 \<Rightarrow> hash \<Rightarrow> TxData \<Rightarrow> bool" where
  "entry_before db height h d =
    (case FetchLastFullySpentTxBeforeHeight db h height of
       (None, _, err) \<Rightarrow> err \<in> {None, Some ErrTxShaMissing} \<and>
         td_Tx d = None \<and> td_BlockHeight d = 0 \<and> td_Spent d = [] \<and> td_Err d = Some ErrTxShaMissing
     | (Some m, minedAt, err) \<Rightarrow> err = None \<and>
         td_Tx d = Some m \<and> td_BlockHeight d = minedAt \<and> length (td_Spent d) = length (tx_TxOut m) \<and>
         False \<notin> set (td_Spent d) \<and> td_Err d = None)"

lemma all_True_replicate: "False \<notin> set bs \<Longrightarrow> replicate (length bs) True = bs"
  by (induction bs) auto

lemma clear_entry_restores:
  assumes "entry_before db height h d"
  shows "clear_entry db height h (d\<lparr> td_Tx := t, td_BlockHeight := b, td_Spent := s, td_Err := e \<rparr>) = Ok d"
proof -
  obtain msgtx minedAt err where f: "FetchLastFullySpentTxBeforeHeight db h height = (msgtx, minedAt, err)"
    by (cases "FetchLastFullySpentTxBeforeHeight db h height")
  show ?thesis
  proof (cases msgtx)
    case None
    with f assms show ?thesis by (cases d) (auto simp: entry_before_def clear_entry_def)
  next
    case (Some m)
    with f assms have "err = None" "td_Tx d = Some m" "td_BlockHeight d = minedAt" "td_Err d = None"
      and len: "length (td_Spent d) = length (tx_TxOut m)" and all: "False \<notin> set (td_Spent d)"
      unfolding entry_before_def by simp_all
    moreover have "replicate (length (tx_TxOut m)) True = td_Spent d"
      using all_True_replicate [OF all] len by simp
    ultimately show ?thesis using f Some by (cases d) (simp add: clear_entry_def)
  qed
qed

text \<open>What makes a transaction's step reversible: its entry, if the store has one, is as \<open>entry_before\<close> says; the
  outputs it spends are unspent in the store; and it does not spend an output of itself.\<close>

definition reversible :: "chain_db \<Rightarrow> u64 \<Rightarrow> TxStore \<Rightarrow> MsgTx \<Rightarrow> bool" where
  "reversible db height st tx \<longleftrightarrow>
    (\<forall>d. st (TxHash tx) = Some d \<longrightarrow> entry_before db height (TxHash tx) d) \<and>
    (\<forall>op\<in>set (spent_outpoints tx). \<not> is_spent st op \<and> op_Hash op \<noteq> TxHash tx)"

fun reversible_block :: "chain_db \<Rightarrow> u64 \<Rightarrow> TxStore \<Rightarrow> MsgTx list \<Rightarrow> bool" where
  "reversible_block db height st [] = True"
| "reversible_block db height st (tx # txs) \<longleftrightarrow> reversible db height st tx \<and>
    (case connect_tx height tx st of Ok st' \<Rightarrow> reversible_block db height st' txs | _ \<Rightarrow> True)"

lemma disconnect_connect_tx:
  assumes rev: "reversible db height st tx" and ok: "connect_tx height tx st = Ok st'"
  shows "disconnect_tx db height tx st' = Ok st"
proof -
  let ?H = "TxHash tx" and ?tis = "if IsCoinBaseTx tx then [] else tx_TxIn tx"
  have ins: "spent_outpoints tx = map PreviousOutPoint ?tis" by (simp add: spent_outpoints_def)
  have other: "\<forall>ti\<in>set ?tis. op_Hash (PreviousOutPoint ti) \<noteq> ?H"
    and unspent: "\<forall>ti\<in>set ?tis. \<not> is_spent st (PreviousOutPoint ti)"
    using rev unfolding reversible_def ins by auto
  have loop: "(if IsCoinBaseTx tx then Ok s else foldR (mark_origin b) (tx_TxIn tx) s) =
      (if \<forall>ti\<in>set ?tis. in_range s ti then Ok (marked b ?tis s) else Err ErrBadTxInput)" for b s
    by (simp add: mark_origins_marked)
  note undo = marked_undo [OF unspent]
  show ?thesis
  proof (cases "st ?H")
    case None
    then have "st' = marked True ?tis st" "\<forall>ti\<in>set ?tis. in_range st ti"
      using ok unfolding connect_tx_def loop by (auto split: if_splits)
    with None undo show ?thesis
      unfolding disconnect_tx_def loop by (simp add: marked_other [OF other])
  next
    case (Some d)
    let ?d = "d\<lparr> td_Tx := Some tx, td_BlockHeight := height,
                  td_Spent := replicate (length (tx_TxOut tx)) False, td_Err := None \<rparr>"
    have st': "st' = marked True ?tis (st(?H \<mapsto> ?d))" and r: "\<forall>ti\<in>set ?tis. in_range (st(?H \<mapsto> ?d)) ti"
      using ok Some unfolding connect_tx_def loop by (auto split: if_splits)
    have r': "\<forall>ti\<in>set ?tis. in_range st ti" using r other by (simp add: in_range_upd)
    have "st' ?H = Some ?d" by (simp add: st' marked_other [OF other])
    moreover have "clear_entry db height ?H ?d = Ok d"
      using rev Some by (simp add: reversible_def clear_entry_restores)
    moreover have "st'(?H \<mapsto> d) = marked True ?tis st"
      using Some by (simp add: st' marked_upd [OF other] fun_upd_idem)
    ultimately show ?thesis
      using r' undo unfolding disconnect_tx_def loop by simp
  qed
qed

text \<open>C6 (a reorganisation undoes blocks exactly). Disconnecting a block from the store that connecting it
  produced gives back the store from before, for all of its transactions in reverse order, also when they
  spend outputs of each other. The hypotheses, for each transaction at the moment it is connected: the outputs
  it spends are unspent in the store, none of them is its own, and an entry the store has for its hash agrees
  with the database, which means that it says missing when the database has no fully spent transaction with
  that hash below this height, and is that transaction with every output spent when it has one.\<close>

theorem disconnect_undoes_connect:
  assumes "reversible_block db height st txs" and "connectTransactions st height txs = Ok st'"
  shows "disconnectTransactions db st' height txs = Ok st"
  using assms unfolding connectTransactions_def disconnectTransactions_def
proof (induction txs arbitrary: st)
  case (Cons tx txs)
  from Cons.prems(2) obtain st1 where st1: "connect_tx height tx st = Ok st1"
    and rest: "foldR (connect_tx height) txs st1 = Ok st'"
    by (auto simp: res_simps)
  with Cons.prems(1) have "reversible db height st tx" "reversible_block db height st1 txs" by simp_all
  with Cons.IH [OF this(2) rest] disconnect_connect_tx [OF this(1) st1] show ?case
    by (simp add: foldR_append)
qed simp

text \<open>A coinbase with the hash of an earlier one: the database knows the earlier one as fully spent.\<close>

definition sample_db :: chain_db where
  "sample_db = \<lparr> FetchTxByShaList = (\<lambda>_. []), FetchUnSpentTxByShaList = (\<lambda>_. []),
    FetchLastFullySpentTxBeforeHeight = (\<lambda>h height.
      if h = TxHash sample_coinbase \<and> height > 100 then (Some sample_coinbase, 100, None)
      else (None, 0, Some ErrTxShaMissing)) \<rparr>"

definition sample_view :: TxStore where
  "sample_view = [TxHash sample_coinbase \<mapsto> \<lparr> td_Tx = Some sample_coinbase, td_Hash = TxHash sample_coinbase,
     td_BlockHeight = 100, td_Spent = [True], td_Err = None \<rparr>]"

theorem disconnect_undoes_connect_witness:
  "\<exists>st'. connectTransactions sample_view 1100 [sample_coinbase] = Ok st' \<and>
    \<not> is_spent st' \<lparr> op_Hash = TxHash sample_coinbase, op_Index = 0 \<rparr> \<and>
    is_spent sample_view \<lparr> op_Hash = TxHash sample_coinbase, op_Index = 0 \<rparr> \<and>
    disconnectTransactions sample_db st' 1100 [sample_coinbase] = Ok sample_view"
proof -
  have cb: "IsCoinBaseTx sample_coinbase" by (simp add: IsCoinBaseTx_def samples)
  have rev: "reversible_block sample_db 1100 sample_view [sample_coinbase]"
    by (simp add: reversible_def spent_outpoints_def cb sample_view_def sample_db_def entry_before_def sample_fields
        split: res.splits)
  obtain st' where ok: "connectTransactions sample_view 1100 [sample_coinbase] = Ok st'"
    and sp: "\<not> is_spent st' \<lparr> op_Hash = TxHash sample_coinbase, op_Index = 0 \<rparr>"
      "is_spent sample_view \<lparr> op_Hash = TxHash sample_coinbase, op_Index = 0 \<rparr>"
    by (simp add: connectTransactions_def connect_tx_def cb sample_view_def isTransactionSpent_def is_spent_def sample_fields)
  from disconnect_undoes_connect [OF rev ok] ok sp show ?thesis by blast
qed

section \<open>Which outputs a block can spend\<close>

definition in_flight_entry :: "MsgTx list \<Rightarrow> u64 \<Rightarrow> hash \<Rightarrow> nat \<Rightarrow> TxData" where
  "in_flight_entry txs height h j =
    (missing_entry h)\<lparr> td_Tx := Some (txs ! j), td_BlockHeight := height,
       td_Spent := replicate (length (tx_TxOut (txs ! j))) False, td_Err := None \<rparr>"

definition in_block :: "MsgTx list \<Rightarrow> nat \<Rightarrow> hash \<Rightarrow> bool" where
  "in_block txs i h \<longleftrightarrow> (\<exists>j\<le>i. tx_in_flight txs h = Some j)"

abbreviation ref_hash :: "nat \<times> TxIn \<Rightarrow> hash" where
  "ref_hash r \<equiv> op_Hash (PreviousOutPoint (snd r))"

lemma collect_input_cases:
  "collect_input txs height r (st, needed) =
    (if in_block txs (fst r) (ref_hash r)
     then (st(ref_hash r \<mapsto> in_flight_entry txs height (ref_hash r) (the (tx_in_flight txs (ref_hash r)))), needed)
     else (st(ref_hash r \<mapsto> missing_entry (ref_hash r)), List.insert (ref_hash r) needed))"
  by (cases r) (auto simp: collect_input_def in_block_def in_flight_entry_def Let_def split: option.splits)

lemma collect_needed:
  "set (snd (fold (collect_input txs height) refs (st, needed))) =
    set needed \<union> ref_hash ` {r \<in> set refs. \<not> in_block txs (fst r) (ref_hash r)}"
proof (induction refs arbitrary: st needed)
  case (Cons r refs)
  show ?case by (cases "in_block txs (fst r) (ref_hash r)") (auto simp: collect_input_cases Cons.IH)
qed simp

lemma collect_store:
  "h \<notin> set (snd (fold (collect_input txs height) refs (st, needed))) \<Longrightarrow>
   fst (fold (collect_input txs height) refs (st, needed)) h =
    (if h \<in> ref_hash ` set refs then Some (in_flight_entry txs height h (the (tx_in_flight txs h))) else st h)"
proof (induction refs arbitrary: st needed)
  case (Cons r refs)
  obtain st1 needed1 where one: "collect_input txs height r (st, needed) = (st1, needed1)" by fastforce
  with Cons.prems have prem: "h \<notin> set (snd (fold (collect_input txs height) refs (st1, needed1)))" by simp
  have st1: "st1 h = (if ref_hash r = h then Some (in_flight_entry txs height h (the (tx_in_flight txs h))) else st h)"
  proof (cases "in_block txs (fst r) (ref_hash r)")
    case True
    then show ?thesis using one by (auto simp: collect_input_cases)
  next
    case False
    then have "ref_hash r \<in> set needed1" "st1 = st(ref_hash r \<mapsto> missing_entry (ref_hash r))"
      using one by (auto simp: collect_input_cases)
    with prem show ?thesis by (auto simp: collect_needed)
  qed
  show ?case using Cons.IH [OF prem] st1 one by auto
qed simp

lemma fold_upd_None: "fold (\<lambda>(i, x) m. m(f x \<mapsto> i)) ps m k = Some j \<Longrightarrow> m k = Some j \<or> (\<exists>x. (j, x) \<in> set ps \<and> f x = k)"
proof (induction ps arbitrary: m)
  case (Cons p ps)
  obtain i x where p: "p = (i, x)" by fastforce
  from Cons.IH [of "m(f x \<mapsto> i)"] Cons.prems p show ?case by (auto split: if_splits)
qed simp

lemma tx_in_flight_Some: "tx_in_flight txs h = Some j \<Longrightarrow> j < length txs \<and> TxHash (txs ! j) = h"
  using fold_upd_None [of TxHash "enumerate 0 txs" Map.empty h j]
  by (auto simp: tx_in_flight_def in_set_enumerate_eq)

lemma block_refs_iff: "(i, ti) \<in> set (block_refs txs) \<longleftrightarrow> i < length txs \<and> ti \<in> set (input_refs (txs ! i))"
  by (force simp: block_refs_def in_set_enumerate_eq)

lemma dom_fill_replies: "dom (fold fill_reply rs st) = dom st"
proof (induction rs arbitrary: st)
  case (Cons r rs)
  have "dom (fill_reply r st) = dom st" by (auto simp: fill_reply_def split: option.splits)
  with Cons show ?case by simp
qed simp

lemma dom_fetchTxStoreMain: "dom (fetchTxStoreMain db txSet includeSpent) = set txSet"
  by (auto simp: fetchTxStoreMain_def Let_def dom_fill_replies dom_map_of_conv_image_fst image_image)

text \<open>The store of a block that extends the main chain: it has an entry for exactly the transactions the block
  refers to. An entry is the transaction of the block itself when every reference to it comes from a
  transaction that does not stand before it, and what the database has otherwise.\<close>

lemma fetchInputTransactions_view:
  "\<exists>st needed. fetchInputTransactions (\<lambda>hs. Ok (fetchTxStoreMain db hs False)) height txs = Ok st \<and>
    set needed = ref_hash ` {r \<in> set (block_refs txs). \<not> in_block txs (fst r) (ref_hash r)} \<and>
    dom st = ref_hash ` set (block_refs txs) \<and>
    (\<forall>h\<in>dom st. if h \<in> set needed then st h = fetchTxStoreMain db needed False h
      else \<exists>j<length txs. TxHash (txs ! j) = h \<and> st h = Some (in_flight_entry txs height h j))"
proof -
  let ?f = "fold (collect_input txs height) (block_refs txs) (Map.empty, [])"
  let ?needed = "snd ?f"
  let ?st = "fst ?f ++ fetchTxStoreMain db ?needed False"
  have needed: "set ?needed = ref_hash ` {r \<in> set (block_refs txs). \<not> in_block txs (fst r) (ref_hash r)}"
    by (simp add: collect_needed)
  have chain: "?st h = fetchTxStoreMain db ?needed False h" if "h \<in> set ?needed" for h
  proof -
    from that obtain d where "fetchTxStoreMain db ?needed False h = Some d"
      using dom_fetchTxStoreMain [of db ?needed False] by blast
    then show ?thesis by (simp add: map_add_def)
  qed
  have own: "?st h = (if h \<in> ref_hash ` set (block_refs txs)
      then Some (in_flight_entry txs height h (the (tx_in_flight txs h))) else None)" if "h \<notin> set ?needed" for h
  proof -
    have "fetchTxStoreMain db ?needed False h = None"
      using that dom_fetchTxStoreMain [of db ?needed False] by blast
    then show ?thesis using collect_store [OF that] by (simp add: map_add_def)
  qed
  have dom: "dom ?st = ref_hash ` set (block_refs txs)"
  proof (rule set_eqI)
    fix h
    show "h \<in> dom ?st \<longleftrightarrow> h \<in> ref_hash ` set (block_refs txs)"
    proof (cases "h \<in> set ?needed")
      case True
      then have "h \<in> dom ?st" by (simp add: dom_fetchTxStoreMain)
      moreover have "h \<in> ref_hash ` set (block_refs txs)" using True needed by auto
      ultimately show ?thesis by simp
    next
      case False
      show ?thesis unfolding domIff own [OF False] by simp
    qed
  qed
  have flight: "\<exists>j<length txs. TxHash (txs ! j) = h \<and> ?st h = Some (in_flight_entry txs height h j)"
    if "h \<in> dom ?st" "h \<notin> set ?needed" for h
  proof -
    have "h \<in> ref_hash ` set (block_refs txs)" using that(1) unfolding dom .
    then obtain r where r: "r \<in> set (block_refs txs)" "h = ref_hash r" by blast
    with that(2) have "in_block txs (fst r) h" unfolding needed by blast
    then obtain j where "tx_in_flight txs h = Some j" by (auto simp: in_block_def)
    moreover have "?st h = Some (in_flight_entry txs height h (the (tx_in_flight txs h)))"
      unfolding own [OF that(2)] using r by simp
    ultimately show ?thesis using tx_in_flight_Some by (intro exI [of _ j]) simp
  qed
  have "fetchInputTransactions (\<lambda>hs. Ok (fetchTxStoreMain db hs False)) height txs = Ok ?st"
    by (simp add: fetchInputTransactions_def case_prod_beta)
  moreover have "\<forall>h\<in>dom ?st. if h \<in> set ?needed then ?st h = fetchTxStoreMain db ?needed False h
      else \<exists>j<length txs. TxHash (txs ! j) = h \<and> ?st h = Some (in_flight_entry txs height h j)"
    using chain flight by (metis (no_types, lifting))
  ultimately show ?thesis using needed dom by (intro exI conjI)
qed

end
