(* ===== verification/Staking.thy ===== *)
theory Staking
  imports Tx_Validate Standard "HOL-Library.Multiset" "HOL-Library.AList" "HOL-Library.Product_Lexorder" "HOL-Library.List_Lexorder"
begin

text \<open>
  The ranking of staking nodes: \<^verbatim>\<open>database/sort.go\<close>, the staking maps of \<^verbatim>\<open>database/db.go\<close> and the staking
  half of \<^verbatim>\<open>blockchain/txlookup.go\<close>. A Go map is an association list whose order is the order in which
  \<^verbatim>\<open>range\<close> visits it, so that a definition over the list is one run of the code and a statement about
  all permutations of the list is one about every iteration order. \<^verbatim>\<open>sort.Stable\<close> is insertion sort.
  The theory shows that the ranking does not depend on the iteration order, is strictly descending, has at
  most 30 nodes when it is used for rewards, and never separates nodes of equal rank.
\<close>

record StakingTxInfo = staking_tx +
  st_Value :: u64

record Pair =
  pr_Key :: hash
  pr_Value :: int
  pr_Weight :: uint128

datatype staking_error =
    SAmount amount_error
  | SUint128 uint128_error
  | ErrBeforeAllowHeight
  | ErrExpiredStakingTx

section \<open>The order\<close>

definition key_less :: "Pair \<Rightarrow> Pair \<Rightarrow> bool" where
  "key_less p q \<longleftrightarrow> bytes_Compare (pr_Key p) (pr_Key q) < 0"

definition PairList_Less :: "bool \<Rightarrow> Pair \<Rightarrow> Pair \<Rightarrow> bool" where
  "PairList_Less weightFirst p q =
    (if weightFirst then
       if Uint128_Lt (pr_Weight p) (pr_Weight q) then True
       else if Uint128_Gt (pr_Weight p) (pr_Weight q) then False
       else if pr_Value p < pr_Value q then True
       else if pr_Value p > pr_Value q then False
       else key_less p q
     else
       if pr_Value p < pr_Value q then True
       else if pr_Value p > pr_Value q then False
       else if Uint128_Lt (pr_Weight p) (pr_Weight q) then True
       else if Uint128_Gt (pr_Weight p) (pr_Weight q) then False
       else key_less p q)"

fun insert_stable :: "('a \<Rightarrow> 'a \<Rightarrow> bool) \<Rightarrow> 'a \<Rightarrow> 'a list \<Rightarrow> 'a list" where
  "insert_stable lt x [] = [x]"
| "insert_stable lt x (y # ys) = (if lt y x then y # insert_stable lt x ys else x # y # ys)"

definition sort_Stable :: "('a \<Rightarrow> 'a \<Rightarrow> bool) \<Rightarrow> 'a list \<Rightarrow> 'a list" where
  "sort_Stable lt xs = foldr (insert_stable lt) xs []"

definition sort_Reverse :: "('a \<Rightarrow> 'a \<Rightarrow> bool) \<Rightarrow> 'a \<Rightarrow> 'a \<Rightarrow> bool" where
  "sort_Reverse lt x y = lt y x"

section \<open>\<open>SortMap\<close>\<close>

text \<open>One turn of the loop over the staking transactions of a node.\<close>

definition add_staking :: "u64 \<Rightarrow> StakingTxInfo \<Rightarrow> amount \<times> uint128 \<Rightarrow> (staking_error, amount \<times> uint128) res" where
  "add_staking newestHeight stakingTx = (\<lambda>(totalValue, totalWeight).
    bindR (liftE SAmount (NewAmountFromUint (st_Value stakingTx))) (\<lambda>va.
    bindR (liftE SAmount (Amount_Add totalValue va)) (\<lambda>totalValue.
    if newestHeight < GetBlockHeight stakingTx + StakingTxRewardStart then Err ErrBeforeAllowHeight
    else if GetBlockHeight stakingTx + GetFrozenPeriod stakingTx < newestHeight then Err ErrExpiredStakingTx
    else
      let period = CalcEffectiveStakingPeriod newestHeight (staking_tx.truncate stakingTx) in
      bindR (liftE SUint128 (Uint128_Mul (a_value va) (NewUint128FromUint period))) (\<lambda>uWeight.
      bindR (liftE SUint128 (Uint128_Add totalWeight uWeight)) (\<lambda>totalWeight.
      Ok (totalValue, totalWeight))))))"

definition rank_node :: "u64 \<Rightarrow> hash \<times> StakingTxInfo list \<Rightarrow> (staking_error, Pair) res" where
  "rank_node newestHeight = (\<lambda>(k, stakingTxs).
    bindR (foldR (add_staking newestHeight) stakingTxs (zeroAmount, NewUint128)) (\<lambda>(totalValue, totalWeight).
    bindR (liftE SAmount (Amount_IntValue totalValue)) (\<lambda>v.
    Ok \<lparr> pr_Key = k, pr_Value = v, pr_Weight = totalWeight \<rparr>)))"

text \<open>The loop that finds where to cut the ranking: down from \<open>i\<close> to the first place between two nodes of
  different rank. It leaves \<^verbatim>\<open>length\<close> at zero when there is none.\<close>

fun cut_loop :: "Pair list \<Rightarrow> nat \<Rightarrow> nat" where
  "cut_loop pairs 0 = 0"
| "cut_loop pairs (Suc i) =
    (if pr_Value (pairs ! Suc i) = pr_Value (pairs ! i) \<and> Uint128_Eq (pr_Weight (pairs ! Suc i)) (pr_Weight (pairs ! i))
     then cut_loop pairs i else Suc i)"

definition SortMap :: "(hash \<times> StakingTxInfo list) list \<Rightarrow> u64 \<Rightarrow> bool \<Rightarrow> (staking_error, Pair list) res" where
  "SortMap m newestHeight isOnlyReward =
    (if m = [] then Ok []
     else
       bindR (mapR (rank_node newestHeight) m) (\<lambda>pairs.
       let pairs = sort_Stable (sort_Reverse (PairList_Less (SortStakingNodesByWeight newestHeight))) pairs in
       if isOnlyReward \<and> length pairs > MaxStakingRewardNum
       then Ok (take (cut_loop pairs MaxStakingRewardNum) pairs) else Ok pairs))"

section \<open>The staking maps\<close>

type_synonym StakingTxOutAtHeight = "(u64 \<times> (OutPoint \<times> StakingTxInfo) list) list"
type_synonym StakingNodes = "(hash \<times> StakingTxOutAtHeight) list"

definition lookup_or :: "'v \<Rightarrow> ('k \<times> 'v) list \<Rightarrow> 'k \<Rightarrow> 'v" where
  "lookup_or d m k = (case map_of m k of None \<Rightarrow> d | Some v \<Rightarrow> v)"

text \<open>\<^verbatim>\<open>Put\<close> on the map of a script hash; the second component is the map after the call, which has an entry
  for the height also when the call fails. \<^verbatim>\<open>Get\<close> adds an empty map for an unknown script hash.\<close>

definition StakingTxOutAtHeight_Put ::
  "OutPoint \<Rightarrow> StakingTxInfo \<Rightarrow> StakingTxOutAtHeight \<Rightarrow> bool \<times> StakingTxOutAtHeight" where
  "StakingTxOutAtHeight_Put op stk sh =
    (let m = lookup_or [] sh (GetBlockHeight stk) in
     case map_of m op of
       Some _ \<Rightarrow> (False, AList.update (GetBlockHeight stk) m sh)
     | None \<Rightarrow> (True, AList.update (GetBlockHeight stk) (AList.update op stk m) sh))"

definition StakingNodes_Put :: "hash \<Rightarrow> OutPoint \<Rightarrow> StakingTxInfo \<Rightarrow> StakingNodes \<Rightarrow> bool \<times> StakingNodes" where
  "StakingNodes_Put key op stk nodes =
    (let (ok, sh) = StakingTxOutAtHeight_Put op stk (lookup_or [] nodes key) in (ok, AList.update key sh nodes))"

definition StakingNodes_IsEmpty :: "hash \<Rightarrow> StakingNodes \<Rightarrow> bool" where
  "StakingNodes_IsEmpty key nodes \<longleftrightarrow> (\<forall>(h, v)\<in>set (lookup_or [] nodes key). \<not> length v > 0)"

definition StakingNodes_Delete :: "hash \<Rightarrow> u64 \<Rightarrow> OutPoint \<Rightarrow> StakingNodes \<Rightarrow> bool \<times> StakingNodes" where
  "StakingNodes_Delete key blkHeight op nodes =
    (case map_of nodes key of
       None \<Rightarrow> (False, nodes)
     | Some m1 \<Rightarrow>
         (case map_of m1 blkHeight of
            None \<Rightarrow> (False, nodes)
          | Some m2 \<Rightarrow>
              (case map_of m2 op of
                 None \<Rightarrow> (False, nodes)
               | Some _ \<Rightarrow> (True, AList.update key (AList.update blkHeight (AList.delete op m2) m1) nodes))))"

text \<open>The staking outputs of a block, with their script hash and frozen period.\<close>

datatype staking_chain_error =
    ErrDuplicateStaking
  | ErrStakingNotFound
  | KScript script_error
  | KStaking staking_error
  | KDatabase chain_error

definition staking_output ::
  "(hash \<Rightarrow> OutPoint \<Rightarrow> u64 \<Rightarrow> int \<Rightarrow> StakingNodes \<Rightarrow> (staking_chain_error, StakingNodes) res) \<Rightarrow>
   MsgTx \<Rightarrow> nat \<times> TxOut \<Rightarrow> StakingNodes \<Rightarrow> (staking_chain_error, StakingNodes) res" where
  "staking_output f msgTx = (\<lambda>(i, txOut) txStore.
    let (class, pops) = GetScriptInfo (PkScript txOut) in
    if class = StakingScriptHashTy then
      bindR (liftE KScript (GetParsedOpcode pops class)) (\<lambda>(frozenPeriod, rsh).
      f rsh \<lparr> op_Hash = TxHash msgTx, op_Index = word_of_nat i \<rparr> frozenPeriod (Value txOut) txStore)
    else Ok txStore)"

definition each_staking_output ::
  "(hash \<Rightarrow> OutPoint \<Rightarrow> u64 \<Rightarrow> int \<Rightarrow> StakingNodes \<Rightarrow> (staking_chain_error, StakingNodes) res) \<Rightarrow>
   MsgTx list \<Rightarrow> StakingNodes \<Rightarrow> (staking_chain_error, StakingNodes) res" where
  "each_staking_output f txs = foldR (\<lambda>tx. foldR (staking_output f tx) (enumerate 0 (tx_TxOut tx))) txs"

definition put_staking ::
  "u64 \<Rightarrow> hash \<Rightarrow> OutPoint \<Rightarrow> u64 \<Rightarrow> int \<Rightarrow> StakingNodes \<Rightarrow> (staking_chain_error, StakingNodes) res" where
  "put_staking height rsh op frozenPeriod v txStore =
    (let (ok, st) = StakingNodes_Put rsh op
       \<lparr> GetBlockHeight = height, GetFrozenPeriod = frozenPeriod, st_Value = word_of_int v \<rparr> txStore
     in if ok then Ok st else Err ErrDuplicateStaking)"

text \<open>The second loop deletes the outputs whose period ends at this height and the nodes left empty.\<close>

definition expire_staking :: "u64 \<Rightarrow> StakingNodes \<Rightarrow> StakingNodes" where
  "expire_staking height txStore =
    filter (\<lambda>(rsh, node). \<exists>(h, m)\<in>set node. length m > 0)
      (map (\<lambda>(rsh, node). (rsh, map (\<lambda>(h, m).
        (h, filter (\<lambda>(k, v). height \<noteq> GetBlockHeight v + GetFrozenPeriod v) m)) node)) txStore)"

definition connectStakingTransactions ::
  "StakingNodes \<Rightarrow> u64 \<Rightarrow> MsgTx list \<Rightarrow> (staking_chain_error, StakingNodes) res" where
  "connectStakingTransactions txStore height txs =
    bindR (each_staking_output (put_staking height) txs txStore) (\<lambda>st. Ok (expire_staking height st))"

definition put_expired :: "hash \<times> OutPoint \<times> StakingTxInfo \<Rightarrow> StakingNodes \<Rightarrow> (staking_chain_error, StakingNodes) res" where
  "put_expired = (\<lambda>(rsh, k, v) txStore.
    let (ok, st) = StakingNodes_Put rsh k v txStore in if ok then Ok st else Err ErrDuplicateStaking)"

definition flat_nodes :: "StakingNodes \<Rightarrow> (hash \<times> OutPoint \<times> StakingTxInfo) list" where
  "flat_nodes nodes = concat (map (\<lambda>(rsh, node). concat (map (\<lambda>(h, m). map (\<lambda>(k, v). (rsh, k, v)) m) node)) nodes)"

definition delete_staking ::
  "u64 \<Rightarrow> hash \<Rightarrow> OutPoint \<Rightarrow> u64 \<Rightarrow> int \<Rightarrow> StakingNodes \<Rightarrow> (staking_chain_error, StakingNodes) res" where
  "delete_staking height rsh op frozenPeriod v txStore =
    (let (ok, st) = StakingNodes_Delete rsh height op txStore in
     if \<not> ok then Err ErrStakingNotFound
     else Ok (if StakingNodes_IsEmpty rsh st then AList.delete rsh st else st))"

text \<open>\<open>expired\<close> is \<^verbatim>\<open>FetchExpiredStakingTxListByHeight\<close> of the database.\<close>

definition disconnectStakingTransactions ::
  "(u64 \<Rightarrow> (chain_error, StakingNodes) res) \<Rightarrow> StakingNodes \<Rightarrow> u64 \<Rightarrow> MsgTx list \<Rightarrow>
   (staking_chain_error, StakingNodes) res" where
  "disconnectStakingTransactions expired txStore height txs =
    bindR (liftE KDatabase (expired height)) (\<lambda>txlist.
    bindR (foldR put_expired (flat_nodes txlist) txStore) (\<lambda>st.
    each_staking_output (delete_staking height) txs st))"

record Rank = staking_node +
  rk_ScriptHash :: hash

definition append_reward :: "hash \<times> OutPoint \<times> StakingTxInfo \<Rightarrow> (hash \<times> StakingTxInfo list) list \<Rightarrow> (hash \<times> StakingTxInfo list) list" where
  "append_reward = (\<lambda>(rsh, k, v) txList. AList.update rsh (lookup_or [] txList rsh @ [v]) txList)"

definition getReward :: "StakingNodes \<Rightarrow> u64 \<Rightarrow> (staking_chain_error, Rank list) res" where
  "getReward stakingTxStore height =
    (let txList = fold (\<lambda>(rsh, k, v) l. if height - GetBlockHeight v \<ge> StakingTxRewardStart
           then append_reward (rsh, k, v) l else l) (flat_nodes stakingTxStore) [] in
     bindR (liftE KStaking (SortMap txList height True)) (\<lambda>sorted.
     Ok (map (\<lambda>p. \<lparr> GetValue = pr_Value p, GetWeight = pr_Weight p, rk_ScriptHash = pr_Key p \<rparr>) sorted)))"

section \<open>The order is total\<close>

definition rank_key :: "bool \<Rightarrow> Pair \<Rightarrow> int \<times> int \<times> byte list" where
  "rank_key b p = (if b then (u_value (pr_Weight p), pr_Value p, pr_Key p) else (pr_Value p, u_value (pr_Weight p), pr_Key p))"

lemma bytes_Compare_less: "bytes_Compare xs ys < 0 \<longleftrightarrow> xs < ys"
  by (induction xs ys rule: bytes_Compare.induct) auto

lemma PairList_Less_iff: "PairList_Less b p q \<longleftrightarrow> rank_key b p < rank_key b q"
  by (auto simp: PairList_Less_def rank_key_def key_less_def bytes_Compare_less u128_simps)

lemma inj_rank_key: "inj (rank_key b)"
  by (rule injI) (auto simp: rank_key_def uint128.expand split: if_splits)

lemma mset_insert_stable [simp]: "mset (insert_stable lt x ys) = add_mset x (mset ys)"
  by (induction ys) auto

lemma set_insert_stable [simp]: "set (insert_stable lt x ys) = insert x (set ys)"
  by (induction ys) auto

lemma mset_sort_Stable [simp]: "mset (sort_Stable lt xs) = mset xs"
  by (induction xs) (auto simp: sort_Stable_def)

lemma insert_stable_sorted:
  assumes "sorted_wrt (\<lambda>x y. rank_key b y < rank_key b x) ys" "x \<notin> set ys"
  shows "sorted_wrt (\<lambda>x y. rank_key b y < rank_key b x) (insert_stable (sort_Reverse (PairList_Less b)) x ys)"
  using assms
proof (induction ys)
  case (Cons y ys)
  have "rank_key b x \<noteq> rank_key b y" using Cons.prems injD [OF inj_rank_key] by fastforce
  then show ?case using Cons by (auto simp: sort_Reverse_def PairList_Less_iff)
qed simp

lemma set_sort_Stable [simp]: "set (sort_Stable lt xs) = set xs"
  by (metis mset_sort_Stable set_mset_mset)

lemma length_sort_Stable [simp]: "length (sort_Stable lt xs) = length xs"
  by (metis mset_sort_Stable size_mset)

lemma sort_Stable_sorted:
  "distinct xs \<Longrightarrow> sorted_wrt (\<lambda>x y. rank_key b y < rank_key b x) (sort_Stable (sort_Reverse (PairList_Less b)) xs)"
proof (induction xs)
  case (Cons x xs)
  have "sort_Stable (sort_Reverse (PairList_Less b)) (x # xs) =
      insert_stable (sort_Reverse (PairList_Less b)) x (sort_Stable (sort_Reverse (PairList_Less b)) xs)"
    by (simp add: sort_Stable_def)
  with Cons show ?case by (simp add: insert_stable_sorted)
qed (simp add: sort_Stable_def)

lemma descending_unique:
  fixes f :: "'a \<Rightarrow> 'b :: linorder"
  assumes "sorted_wrt (\<lambda>x y. f y < f x) xs" "sorted_wrt (\<lambda>x y. f y < f x) ys" "set xs = set ys"
  shows "xs = ys"
  using assms
proof (induction xs arbitrary: ys)
  case (Cons x xs)
  then obtain y ys' where ys: "ys = y # ys'" by (cases ys) auto
  have xy: "x = y"
  proof (rule ccontr)
    assume "x \<noteq> y"
    then have "y \<in> set xs" "x \<in> set ys'" using Cons.prems ys by auto
    then show False using Cons.prems ys by (auto dest: less_asym)
  qed
  moreover have "x \<notin> set xs" "y \<notin> set ys'" using Cons.prems ys by auto
  ultimately have "set xs = set ys'" using Cons.prems(3) ys by (metis Diff_insert_absorb list.simps(15))
  with Cons.IH [of ys'] Cons.prems(1,2) ys xy show ?case by simp
qed simp

section \<open>The ranking\<close>

lemma mapR_Ok_iff: "mapR f xs = Ok ys \<longleftrightarrow> list_all2 (\<lambda>x y. f x = Ok y) xs ys"
proof (induction xs arbitrary: ys)
  case (Cons x xs)
  show ?case by (cases ys) (auto simp: res_simps Cons.IH)
qed auto

lemma rank_node_key: "rank_node h x = Ok p \<Longrightarrow> pr_Key p = fst x"
  by (auto simp: rank_node_def res_simps split: prod.splits)

lemma ranked_keys: "mapR (rank_node h) m = Ok ps \<Longrightarrow> map pr_Key ps = map fst m"
  unfolding mapR_Ok_iff by (induction rule: list_all2_induct) (auto dest: rank_node_key)

text \<open>The pairs of the nodes of a map, whatever order they are visited in.\<close>

lemma mapR_perm:
  assumes "mapR f xs = Ok ys" "mset xs = mset xs'"
  shows "\<exists>ys'. mapR f xs' = Ok ys' \<and> mset ys' = mset ys"
proof -
  let ?g = "\<lambda>x. case f x of Ok y \<Rightarrow> y"
  have g: "mapR f zs = Ok (map ?g zs)" if "set zs = set xs" for zs
  proof -
    have "\<forall>x\<in>set xs. \<exists>y. f x = Ok y"
      using assms(1) unfolding mapR_Ok_iff by (auto simp: list_all2_conv_all_nth in_set_conv_nth)
    with that have "\<forall>z\<in>set zs. f z = Ok (?g z)" by fastforce
    then show ?thesis unfolding mapR_Ok_iff by (simp add: list_all2_map2 list_all2_same)
  qed
  have "set xs' = set xs" using assms(2) by (metis set_mset_mset)
  with g [of xs'] g [of xs] assms show ?thesis by auto
qed

definition same_rank :: "Pair \<Rightarrow> Pair \<Rightarrow> bool" where
  "same_rank p q \<longleftrightarrow> pr_Value p = pr_Value q \<and> pr_Weight p = pr_Weight q"

lemma cut_loop_le: "cut_loop ps i \<le> i"
  by (induction i) auto

lemma cut_loop_cut: "0 < cut_loop ps i \<Longrightarrow> \<not> same_rank (ps ! cut_loop ps i) (ps ! (cut_loop ps i - 1))"
  by (induction i) (auto simp: same_rank_def u128_simps)

lemma cut_loop_maximal: "cut_loop ps i < j \<Longrightarrow> j \<le> i \<Longrightarrow> same_rank (ps ! j) (ps ! (j - 1))"
proof (induction i)
  case (Suc i)
  then show ?case by (cases "j = Suc i") (auto simp: same_rank_def u128_simps split: if_splits)
qed simp

lemma same_rank_between:
  assumes "rank_key b q \<le> rank_key b p" "rank_key b r \<le> rank_key b q" "same_rank p r"
  shows "same_rank p q"
  using assms by (cases b) (auto simp: rank_key_def same_rank_def uint128.expand)

lemma SortMap_pairs:
  assumes "SortMap m h only = Ok ps" "m \<noteq> []" "distinct (map fst m)"
  obtains all where "mapR (rank_node h) m = Ok all" "distinct all"
    "ps = (let s = sort_Stable (sort_Reverse (PairList_Less (SortStakingNodesByWeight h))) all in
       if only \<and> 30 < length s then take (cut_loop s 30) s else s)"
proof -
  from assms obtain all where all: "mapR (rank_node h) m = Ok all"
    and ps: "ps = (let s = sort_Stable (sort_Reverse (PairList_Less (SortStakingNodesByWeight h))) all in
       if only \<and> 30 < length s then take (cut_loop s 30) s else s)"
    by (auto simp: SortMap_def res_simps Let_def params split: if_splits)
  have "distinct all" using ranked_keys [OF all] assms(3) by (metis distinct_map)
  with that all ps show thesis by blast
qed

lemma take_sorted_above:
  assumes "sorted_wrt P s" "p \<in> set (take n s)" "q \<in> set s" "q \<notin> set (take n s)"
  shows "P p q"
proof -
  have "q \<in> set (drop n s)" using assms(3,4) by (metis Un_iff append_take_drop_id set_append)
  with assms(1,2) show ?thesis by (metis append_take_drop_id sorted_wrt_append)
qed

lemma cut_keeps_ties:
  assumes srt: "sorted_wrt (\<lambda>x y. rank_key b y < rank_key b x) s" and k: "k < length s" and n: "n = cut_loop s k"
    and p: "p \<in> set (take n s)" and q: "q \<in> set s" "q \<notin> set (take n s)"
  shows "\<not> same_rank p q"
proof
  assume pq: "same_rank p q"
  obtain i where i: "i < n" "i < length s" "p = s ! i" using p by (auto simp: in_set_conv_nth)
  obtain j where j: "j < length s" "q = s ! j" using q(1) by (metis in_set_conv_nth)
  have nj: "n \<le> j"
  proof (rule ccontr)
    assume "\<not> n \<le> j"
    then have "q = take n s ! j" "j < length (take n s)" using j by simp_all
    with q(2) show False by (metis nth_mem)
  qed
  have mono: "rank_key b (s ! m) \<le> rank_key b (s ! l)" if "l \<le> m" "m < length s" for l m
    using sorted_wrt_nth_less [OF srt, of l m] that by (cases "l = m") auto
  have "same_rank (s ! n) (s ! (n - 1))"
    using same_rank_between [OF mono mono pq [unfolded i(3) j(2)], of n] i j nj
      same_rank_between [OF mono mono pq [unfolded i(3) j(2)], of "n - 1"] by (auto simp: same_rank_def)
  with cut_loop_cut [of s k] i n show False by simp
qed

text \<open>C7 (ranking of staking nodes). When the nodes that share in a block's reward are ranked, the result does
  not depend on the order in which the map of nodes is visited: every permutation of the map gives the same
  list. It is strictly descending in weight and value (value and weight below the height of the first
  improvement proposal) with the script hash breaking ties, it has at most 30 nodes, every node left out
  ranks below every node kept, and two nodes with the same value and weight are both kept or both left out.\<close>

theorem SortMap_ranking:
  assumes "distinct (map fst m)" and "SortMap m h True = Ok ps"
  shows "(\<forall>m'. mset m' = mset m \<longrightarrow> SortMap m' h True = Ok ps) \<and>
    sorted_wrt (\<lambda>p q. PairList_Less (SortStakingNodesByWeight h) q p) ps \<and> length ps \<le> 30 \<and>
    (\<forall>x\<in>set m. \<exists>q. rank_node h x = Ok q \<and>
      (q \<notin> set ps \<longrightarrow> (\<forall>p\<in>set ps. PairList_Less (SortStakingNodesByWeight h) q p \<and> \<not> same_rank p q)))"
proof (cases "m = []")
  case True
  with assms show ?thesis by (simp add: SortMap_def)
next
  case False
  let ?b = "SortStakingNodesByWeight h"
  let ?srt = "sort_Stable (sort_Reverse (PairList_Less ?b))"
  obtain all where all: "mapR (rank_node h) m = Ok all" "distinct all"
    and ps: "ps = (let s = ?srt all in if True \<and> 30 < length s then take (cut_loop s 30) s else s)"
    using SortMap_pairs [OF assms(2) False assms(1)] by blast
  note srt = sort_Stable_sorted [OF all(2), of ?b]
  have perm: "SortMap m' h True = Ok ps" if m': "mset m' = mset m" for m'
  proof -
    obtain all' where all': "mapR (rank_node h) m' = Ok all'" "mset all' = mset all"
      using mapR_perm [OF all(1)] m' by metis
    then have "distinct all'" "set all' = set all" using all(2) by (metis distinct_count_atmost_1 set_mset_mset)+
    then have "?srt all' = ?srt all"
      by (intro descending_unique [of "rank_key ?b"] sort_Stable_sorted srt) simp_all
    moreover have "m' \<noteq> []" using False m' by auto
    ultimately show ?thesis by (simp add: SortMap_def all' ps Let_def params del: length_sort_Stable)
  qed
  have len: "length ps \<le> 30" using cut_loop_le [of "?srt all" 30] by (auto simp: ps Let_def)
  define n where "n = (if 30 < length (?srt all) then cut_loop (?srt all) 30 else length (?srt all))"
  have psn: "ps = take n (?srt all)" by (simp add: ps n_def Let_def)
  have sorted: "sorted_wrt (\<lambda>p q. PairList_Less ?b q p) ps"
    using sorted_wrt_take [OF srt, of n] by (simp add: psn PairList_Less_iff)
  have out: "PairList_Less ?b q p \<and> \<not> same_rank p q" if q: "q \<in> set all" "q \<notin> set ps" "p \<in> set ps" for p q
  proof -
    have "30 < length (?srt all)" using q by (auto simp: ps Let_def split: if_splits)
    then have "n = cut_loop (?srt all) 30" by (simp add: n_def)
    with cut_keeps_ties [OF srt \<open>30 < length (?srt all)\<close>, of n p q] take_sorted_above [OF srt, of p n q] q
    show ?thesis by (simp add: psn PairList_Less_iff)
  qed
  have "\<exists>q. rank_node h x = Ok q \<and> q \<in> set all" if "x \<in> set m" for x
    using all(1) that unfolding mapR_Ok_iff by (auto simp: list_all2_conv_all_nth in_set_conv_nth)
  then have "\<forall>x\<in>set m. \<exists>q. rank_node h x = Ok q \<and>
      (q \<notin> set ps \<longrightarrow> (\<forall>p\<in>set ps. PairList_Less ?b q p \<and> \<not> same_rank p q))"
    using out by meson
  with perm sorted len show ?thesis by simp
qed

text \<open>Two nodes that stake 100 MASS each, the second one for longer.\<close>

definition sample_staking :: "(hash \<times> StakingTxInfo list) list" where
  "sample_staking =
    [([1], [\<lparr> GetBlockHeight = 100, GetFrozenPeriod = 100000, st_Value = 10000000000 \<rparr>]),
     ([2], [\<lparr> GetBlockHeight = 100, GetFrozenPeriod = 200000, st_Value = 10000000000 \<rparr>])]"

theorem SortMap_ranking_witness:
  "SortMap (rev sample_staking) 150 True = SortMap sample_staking 150 True \<and>
   map pr_Key (case SortMap sample_staking 150 True of Ok ps \<Rightarrow> ps | _ \<Rightarrow> []) = [[2], [1]] \<and>
   (case SortMap sample_staking 150 True of Ok ps \<Rightarrow> length ps \<le> 30 | _ \<Rightarrow> False)"
proof -
  let ?ps = "[\<lparr> pr_Key = [2], pr_Value = 10000000000, pr_Weight = Uint128 1999510000000000 \<rparr>,
    \<lparr> pr_Key = [1], pr_Value = 10000000000, pr_Weight = Uint128 999510000000000 \<rparr>]"
  have run: "SortMap sample_staking 150 True = Ok ?ps"
    by (simp add: SortMap_def sample_staking_def rank_node_def add_staking_def amount_simps params zeroAmount_mk
        valid_amount_def Uint128_Mul_def Uint128_Add_def validated_spec NewUint128_def NewUint128FromUint_def
        CalcEffectiveStakingPeriod_def staking_tx.truncate_def SortStakingNodesByWeight_def sort_Stable_def
        sort_Reverse_def PairList_Less_def u128_simps Let_def)
  have "distinct (map fst sample_staking)" by (simp add: sample_staking_def)
  from SortMap_ranking [OF this run] run show ?thesis by simp
qed

end
