(* ===== verification/Coinbase.thy ===== *)
theory Coinbase
  imports Staking
begin

text \<open>
  \<^verbatim>\<open>blockchain/validate_coinbase.go\<close>: what the coinbase transaction of a block may pay. Below the warm-up
  height of the second improvement proposal the coinbase shows the miner's bindings as inputs
  (\<open>checkCoinbaseInputs\<close>); from the proposal's height on the binding is looked up in the state trie; the
  staking nodes must receive their shares of the subsidy in the order of their ranks (\<open>checkCoinbase\<close>), and
  the total must not exceed subsidy and fees (\<open>validateCoinbase\<close>). The parameters of the model are the
  hash \<^verbatim>\<open>ripemd160\<close> of a third-party package, what the chain looked up before (the ranked staking nodes
  and the state trie of the parent, a record \<open>coinbase_env\<close>), and the accessors of the proof, which the
  header record carries. The theory shows what every staking node is paid, that their shares add up to at
  most the staking part of the subsidy, and that a block as a whole creates at most its subsidy.
\<close>

datatype coinbase_error =
    BChain chain_error | BScript script_error | BAmount amount_error | BUint128 uint128_error
  | BReward reward_error | BForks forks_error
  | ErrPkHashSize | ErrBindingPubKey | ErrBindingScriptSize | ErrStakingRewardNum
  | ErrRewardValue | ErrRewardAddress | ErrNilChiaPoolPk | ErrUnexpectedCoinbase | ErrZeroPlotID
  | ErrPlotPKNotBound | ErrBadCoinbaseValue

datatype ProofType = ProofTypeDefault | ProofTypeChia | ProofTypeEmpty

fun proof_byte :: "ProofType \<Rightarrow> byte" where
  "proof_byte ProofTypeDefault = 0"
| "proof_byte ProofTypeChia = 1"
| "proof_byte ProofTypeEmpty = 255"

record coinbase_header =
  ch_Height :: u64
  ch_PubKey :: "byte list"
  ch_ProofType :: ProofType
  ch_BitLength :: int
  ch_PoolPk :: "(chain_error, byte list option) res"
  ch_PlotID :: "(chain_error, byte list) res"

record coinbase_env =
  ripemd160 :: "byte list \<Rightarrow> byte list"
  stakingRanks :: "(chain_error, Rank list) res"
  bindingTrie :: "(chain_error, byte list \<Rightarrow> (chain_error, byte list option) res) res"

section \<open>Binding inputs\<close>

definition Hash160 :: "coinbase_env \<Rightarrow> byte list \<Rightarrow> byte list" where
  "Hash160 env data = ripemd160 env (sha256_Sum256 data)"

definition pkToScriptHash :: "coinbase_env \<Rightarrow> byte list \<Rightarrow> (coinbase_error, byte list) res" where
  "pkToScriptHash env pubKey =
    (let h = Hash160 env pubKey in if length h \<noteq> 20 then Err ErrPkHashSize else Ok h)"

definition check_coinbase_input ::
  "TxStore \<Rightarrow> byte list \<Rightarrow> u64 \<Rightarrow> TxIn \<Rightarrow> amount \<Rightarrow> (coinbase_error, amount) res" where
  "check_coinbase_input txStore headerPkHash nextBlockHeight txIn totalMaxwellIn =
    (let originTxIndex = unat (op_Index (PreviousOutPoint txIn)) in
     case txStore (op_Hash (PreviousOutPoint txIn)) of
       None \<Rightarrow> Err (BChain ErrMissingTx)
     | Some originTx \<Rightarrow>
         (case td_Tx originTx of
            None \<Rightarrow> Err (BChain ErrMissingTx)
          | Some mtx \<Rightarrow>
              if td_Err originTx \<noteq> None then Err (BChain ErrMissingTx)
              else
                bindR (liftE BChain (checkTxInMaturity originTx nextBlockHeight True)) (\<lambda>_.
                bindR (liftE BChain (checkDupSpend (PreviousOutPoint txIn) (td_Spent originTx))) (\<lambda>_.
                bindR (at (tx_TxOut mtx) originTxIndex) (\<lambda>txOut.
                bindR (liftE BAmount (NewAmountFromInt (Value txOut))) (\<lambda>originTxMaxwell.
                bindR (liftE BAmount (Amount_Add totalMaxwellIn originTxMaxwell)) (\<lambda>totalIn.
                let (class, pops) = GetScriptInfo (PkScript txOut) in
                if class \<noteq> BindingScriptHashTy then Err ErrBindingPubKey
                else
                  bindR (liftE BScript (GetParsedBindingOpcode pops)) (\<lambda>(_, bindingScriptHash).
                  if length bindingScriptHash \<noteq> unat OP_DATA_20 then Err ErrBindingScriptSize
                  else if headerPkHash \<noteq> bindingScriptHash then Err ErrBindingPubKey
                  else Ok totalIn))))))))"

text \<open>\<^verbatim>\<open>TxIn[1:]\<close> of a transaction without inputs panics.\<close>

definition checkCoinbaseInputs :: "MsgTx \<Rightarrow> TxStore \<Rightarrow> byte list \<Rightarrow> u64 \<Rightarrow> (coinbase_error, amount) res" where
  "checkCoinbaseInputs coinbaseTx txStore headerPkHash nextBlockHeight =
    (if tx_TxIn coinbaseTx = [] then Panic
     else foldR (check_coinbase_input txStore headerPkHash nextBlockHeight) (drop 1 (tx_TxIn coinbaseTx)) zeroAmount)"

section \<open>Rewards of the staking nodes\<close>

definition calcNodeReward :: "amount \<Rightarrow> uint128 \<Rightarrow> uint128 \<Rightarrow> (coinbase_error, amount) res" where
  "calcNodeReward totalReward totalWeight nodeWeight =
    bindR (liftE BUint128 (Uint128_Mul (a_value totalReward) nodeWeight)) (\<lambda>u.
    bindR (liftE BUint128 (Uint128_Div u totalWeight)) (\<lambda>u.
    liftE BAmount (NewAmount u)))"

definition check_reward_output :: "amount \<Rightarrow> Rank \<Rightarrow> TxOut \<Rightarrow> (coinbase_error, unit) res" where
  "check_reward_output expectAmount rank txOut =
    bindR (liftE BAmount (Amount_IntValue expectAmount)) (\<lambda>v.
    if v \<noteq> Value txOut then Err ErrRewardValue
    else
      bindR (liftE BScript (payToWitnessScriptHashScript (rk_ScriptHash rank))) (\<lambda>pkScriptSuperNode.
      if PkScript txOut \<noteq> pkScriptSuperNode then
        let (class, pops) = GetScriptInfo (PkScript txOut) in
        bindR (liftE BScript (GetParsedOpcode pops class)) (\<lambda>_. Err ErrRewardAddress)
      else Ok ()))"

text \<open>The loop over the ranks: it ends at the first node whose share is zero, and returns its index.\<close>

fun check_rewards ::
  "u64 \<Rightarrow> amount \<Rightarrow> uint128 \<Rightarrow> TxOut list \<Rightarrow> nat \<Rightarrow> Rank list \<Rightarrow> (coinbase_error, nat) res" where
  "check_rewards height superNode totalWeight txOuts i [] = Ok i"
| "check_rewards height superNode totalWeight txOuts i (rank # ranks) =
    bindR (liftE BUint128 (CalcStakingNodeWeight height (staking_node.truncate rank))) (\<lambda>nodeWeight.
    bindR (calcNodeReward superNode totalWeight nodeWeight) (\<lambda>expectAmount.
    if Amount_IsZero expectAmount then Ok i
    else
      bindR (at txOuts i) (\<lambda>txOut.
      bindR (check_reward_output expectAmount rank txOut) (\<lambda>_.
      check_rewards height superNode totalWeight txOuts (i + 1) ranks))))"

definition checkCoinbase ::
  "MsgTx \<Rightarrow> Rank list \<Rightarrow> u64 \<Rightarrow> bool \<Rightarrow> 'a chain_params_scheme \<Rightarrow> (coinbase_error, amount) res" where
  "checkCoinbase tx ranks nextBlockHeight hasValidBinding net =
    (let num = length ranks in
     bindR (liftE BChain (extractCoinbaseStakingRewardNumber tx)) (\<lambda>rewardNum.
     if rewardNum > word_of_nat num then Err ErrStakingRewardNum
     else
       bindR (liftE BReward (CalcBlockSubsidy nextBlockHeight net hasValidBinding (num > 0))) (\<lambda>(miner, superNode).
       bindR (liftE BUint128 (CalcTotalStakingWeight nextBlockHeight (map staking_node.truncate ranks))) (\<lambda>totalWeight.
       bindR (check_rewards nextBlockHeight superNode totalWeight (tx_TxOut tx) 0 ranks) (\<lambda>i.
       if word_of_nat i \<noteq> rewardNum then Err ErrStakingRewardNum
       else liftE BAmount (Amount_Add miner superNode))))))"

section \<open>The whole check\<close>

text \<open>\<^verbatim>\<open>blockchain/utils.go\<close>: the address bound to a pool key in the state trie, and its nonce.\<close>

definition keyPoolPkCoinbasePrefix :: "byte list" where "keyPoolPkCoinbasePrefix = [0x70, 0x5f]"

definition makePoolPkKey :: "byte list \<Rightarrow> byte list" where
  "makePoolPkKey poolPk = keyPoolPkCoinbasePrefix @ poolPk"

definition GetPoolPkCoinbase ::
  "(byte list \<Rightarrow> (chain_error, byte list option) res) \<Rightarrow> byte list \<Rightarrow> (chain_error, byte list \<times> u32) res" where
  "GetPoolPkCoinbase TryGet poolPk =
    bindR (TryGet (makePoolPkKey poolPk)) (\<lambda>r.
    case r of
      None \<Rightarrow> Ok ([], 0)
    | Some v \<Rightarrow> bindR (be_Uint32 (take 4 v)) (\<lambda>nonce. Ok (if length v = 4 then [] else drop 4 v, nonce)))"

text \<open>The binding of a block from the second improvement proposal on.\<close>

definition check_bound :: "coinbase_env \<Rightarrow> coinbase_header \<Rightarrow> MsgTx \<Rightarrow> byte list \<Rightarrow> (coinbase_error, unit) res" where
  "check_bound env header coinbaseTx target =
    bindR (liftE BChain (bindingTrie env)) (\<lambda>TryGet.
    bindR
      (if ch_ProofType header = ProofTypeChia then
         bindR (liftE BChain (ch_PoolPk header)) (\<lambda>poolPk.
         case poolPk of
           None \<Rightarrow> Err ErrNilChiaPoolPk
         | Some pk \<Rightarrow>
             bindR (liftE BChain (GetPoolPkCoinbase TryGet pk)) (\<lambda>(address, _).
             bindR
               (if length address \<noteq> 0 then
                  bindR (liftE BScript (payToWitnessScriptHashScript address)) (\<lambda>script.
                  if tx_TxOut coinbaseTx = [] then Panic
                  else if script \<noteq> PkScript (last (tx_TxOut coinbaseTx)) then Err ErrUnexpectedCoinbase
                  else Ok ())
                else Ok ()) (\<lambda>_.
             bindR (liftE BChain (ch_PlotID header)) (\<lambda>plotID.
             if plotID = replicate 32 0 then Err ErrZeroPlotID
             else pkToScriptHash env plotID))))
       else Ok target) (\<lambda>target.
    bindR (liftE BChain (TryGet (target @ [proof_byte (ch_ProofType header), word_of_int (ch_BitLength header)]))) (\<lambda>data.
    if data = None then Err ErrPlotPKNotBound else Ok ())))"

definition valid_binding ::
  "coinbase_env \<Rightarrow> coinbase_header \<Rightarrow> MsgTx \<Rightarrow> TxStore \<Rightarrow> byte list \<Rightarrow> (coinbase_error, bool) res" where
  "valid_binding env header coinbaseTx txStore target =
    (if \<not> EnforceMASSIP0002WarmUp (ch_Height header) then
       bindR (checkCoinbaseInputs coinbaseTx txStore target (ch_Height header)) (\<lambda>totalBinding.
       bindR (case GetRequiredBinding 0 (ch_Height header) 0 (ch_BitLength header) zeroAmount of
                Some r \<Rightarrow> liftE BForks r
              | None \<Rightarrow> Panic) (\<lambda>requiredBinding.
       Ok (Amount_Cmp totalBinding requiredBinding \<ge> 0)))
     else if EnforceMASSIP0002 (ch_Height header) then
       bindR (check_bound env header coinbaseTx target) (\<lambda>_. Ok True)
     else Ok False)"

definition validateCoinbase ::
  "coinbase_env \<Rightarrow> coinbase_header \<Rightarrow> MsgTx list \<Rightarrow> TxStore \<Rightarrow> amount \<Rightarrow> 'a chain_params_scheme \<Rightarrow>
   (coinbase_error, unit) res" where
  "validateCoinbase env header txs txStore totalFees net =
    bindR (at txs 0) (\<lambda>coinbaseTx.
    bindR (pkToScriptHash env (ch_PubKey header)) (\<lambda>bindingTarget.
    bindR (liftE BChain (stakingRanks env)) (\<lambda>stakingTx.
    bindR (valid_binding env header coinbaseTx txStore bindingTarget) (\<lambda>hasValidBinding.
    bindR (checkCoinbase coinbaseTx stakingTx (ch_Height header) hasValidBinding net) (\<lambda>totalreward.
    bindR (liftE BAmount (Amount_Add totalreward totalFees)) (\<lambda>maxTotalCoinbaseOut.
    bindR (liftE BAmount (foldR (\<lambda>txOut t. Amount_AddInt t (Value txOut)) (tx_TxOut coinbaseTx) zeroAmount))
      (\<lambda>totalCoinbaseOut.
    if Amount_Cmp totalCoinbaseOut maxTotalCoinbaseOut > 0 then Err ErrBadCoinbaseValue else Ok ())))))))"

section \<open>What the staking nodes receive\<close>

definition wf_rank :: "Rank \<Rightarrow> bool" where
  "wf_rank r \<longleftrightarrow> valid_u128 (GetWeight r) \<and> int64 (GetValue r) \<and> length (rk_ScriptHash r) = 32"

text \<open>What a node's share is in proportion to: its value below the height of the first improvement proposal,
  its weight from there on.\<close>

definition stake :: "u64 \<Rightarrow> Rank \<Rightarrow> int" where
  "stake height r = (if height < MASSIP0001Height then GetValue r else u_value (GetWeight r))"

definition reward_share :: "u64 \<Rightarrow> Rank list \<Rightarrow> amount \<Rightarrow> Rank \<Rightarrow> int" where
  "reward_share height ranks superNode r = maxwell superNode * stake height r div (\<Sum>r\<leftarrow>ranks. stake height r)"

lemma node_weight:
  assumes "wf_rank r" "CalcStakingNodeWeight height (staking_node.truncate r) = Ok w"
  shows "u_value w = stake height r \<and> valid_u128 w"
  using assms
  by (auto simp: CalcStakingNodeWeight_def stake_def wf_rank_def staking_node.truncate_def NewUint128FromInt_def
      u128_simps valid_u128_def split: if_splits)

lemma total_weight:
  assumes "\<forall>r\<in>set ranks. wf_rank r" "CalcTotalStakingWeight height (map staking_node.truncate ranks) = Ok w"
  shows "u_value w = (\<Sum>r\<leftarrow>ranks. stake height r) \<and> valid_u128 w \<and> (\<forall>r\<in>set ranks. 0 \<le> stake height r)"
proof (cases "height < MASSIP0001Height")
  case True
  have "(\<forall>x\<in>set (map staking_node.truncate ranks). 0 \<le> GetValue x) \<and>
      (\<Sum>x\<leftarrow>map staking_node.truncate ranks. GetValue x) < 2 ^ 128 \<and>
      w = Uint128 (\<Sum>x\<leftarrow>map staking_node.truncate ranks. GetValue x)"
    using CalcTotalStakingWeight_by_value [OF True, of "map staking_node.truncate ranks" w] assms
    by (auto simp: wf_rank_def staking_node.truncate_def)
  moreover have "0 \<le> (\<Sum>r\<leftarrow>ranks. GetValue r)" if "\<forall>r\<in>set ranks. 0 \<le> GetValue r"
    using that by (intro sum_list_nonneg) auto
  ultimately show ?thesis using True
    by (simp add: stake_def staking_node.truncate_def comp_def valid_u128_def)
next
  case False
  have "(\<Sum>x\<leftarrow>map staking_node.truncate ranks. u_value (GetWeight x)) < 2 ^ 128 \<and>
      w = Uint128 (\<Sum>x\<leftarrow>map staking_node.truncate ranks. u_value (GetWeight x))"
    using CalcTotalStakingWeight_by_weight [OF False, of "map staking_node.truncate ranks" w] assms
    by (auto simp: wf_rank_def staking_node.truncate_def)
  moreover have nn: "\<forall>r\<in>set ranks. 0 \<le> u_value (GetWeight r)"
    using assms(1) by (auto simp: wf_rank_def valid_u128_def)
  moreover have "0 \<le> (\<Sum>r\<leftarrow>ranks. u_value (GetWeight r))" using nn by (intro sum_list_nonneg) auto
  ultimately show ?thesis using False
    by (simp add: stake_def staking_node.truncate_def comp_def valid_u128_def)
qed

lemma calcNodeReward_Ok:
  assumes "valid_amount a" "valid_u128 t" "valid_u128 w" "calcNodeReward a t w = Ok b"
  shows "maxwell b = maxwell a * u_value w div u_value t \<and> valid_amount b"
proof -
  from assms(4) obtain u v where u: "Uint128_Mul (a_value a) w = Ok u" and v: "Uint128_Div u t = Ok v"
    and b: "NewAmount v = Ok b"
    by (auto simp: calcNodeReward_def res_simps)
  have "valid_u128 u" "u_value u = maxwell a * u_value w"
    using u by (auto simp: Uint128_Mul_def u128_simps valid_u128_def)
  with v assms(2) have "u_value v = maxwell a * u_value w div u_value t" "0 \<le> u_value v"
    using pos_imp_zdiv_nonneg_iff [of "u_value t" "u_value u"]
    by (auto simp: u128_simps valid_u128_def split: if_splits)
  with b show ?thesis
    by (auto simp: NewAmount_def checkedAmount_spec valid_amount_def split: if_splits)
qed

lemma check_reward_output_Ok:
  assumes "valid_amount a" "wf_rank r" "check_reward_output a r to = Ok u"
  shows "Value to = maxwell a \<and> PkScript to = 0 # 32 # rk_ScriptHash r"
  using assms
  by (auto simp: check_reward_output_def res_simps amount_simps wf_rank_def pay_script_forms split: if_splits prod.splits)

lemma check_rewards_Ok:
  assumes "valid_amount superNode" "valid_u128 t" "\<forall>r\<in>set ranks. wf_rank r"
    and "check_rewards height superNode t outs i ranks = Ok n"
  shows "i \<le> n \<and> n \<le> i + length ranks \<and> (i < n \<longrightarrow> n \<le> length outs) \<and>
    (n < i + length ranks \<longrightarrow> maxwell superNode * stake height (ranks ! (n - i)) div u_value t = 0) \<and>
    (\<forall>k<n - i. Value (outs ! (i + k)) = maxwell superNode * stake height (ranks ! k) div u_value t \<and>
       PkScript (outs ! (i + k)) = 0 # 32 # rk_ScriptHash (ranks ! k))"
  using assms(3,4)
proof (induction ranks arbitrary: i)
  case (Cons r ranks)
  from Cons.prems(2) obtain w a where w: "CalcStakingNodeWeight height (staking_node.truncate r) = Ok w"
    and a: "calcNodeReward superNode t w = Ok a"
    and rest: "(if Amount_IsZero a then Ok i else bindR (at outs i) (\<lambda>txOut. bindR (check_reward_output a r txOut) (\<lambda>_.
      check_rewards height superNode t outs (i + 1) ranks))) = Ok n"
    by (auto simp: res_simps)
  have r: "wf_rank r" using Cons.prems(1) by simp
  note wv = node_weight [OF r w]
  note av = calcNodeReward_Ok [OF assms(1,2) _ a]
  show ?case
  proof (cases "Amount_IsZero a")
    case False
    with rest have i: "i < length outs" and o: "check_reward_output a r (outs ! i) = Ok ()"
      and n: "check_rewards height superNode t outs (i + 1) ranks = Ok n"
      by (auto simp: res_simps)
    have first: "Value (outs ! i) = maxwell superNode * stake height r div u_value t"
      "PkScript (outs ! i) = 0 # 32 # rk_ScriptHash r"
      using check_reward_output_Ok [OF _ r o] av wv by auto
    have ih: "i + 1 \<le> n \<and> n \<le> i + 1 + length ranks \<and> (i + 1 < n \<longrightarrow> n \<le> length outs) \<and>
      (n < i + 1 + length ranks \<longrightarrow> maxwell superNode * stake height (ranks ! (n - (i + 1))) div u_value t = 0) \<and>
      (\<forall>k<n - (i + 1). Value (outs ! (i + 1 + k)) = maxwell superNode * stake height (ranks ! k) div u_value t \<and>
       PkScript (outs ! (i + 1 + k)) = 0 # 32 # rk_ScriptHash (ranks ! k))"
      by (rule Cons.IH [OF _ n]) (use Cons.prems(1) in simp)
    have "Value (outs ! (i + k)) = maxwell superNode * stake height ((r # ranks) ! k) div u_value t \<and>
       PkScript (outs ! (i + k)) = 0 # 32 # rk_ScriptHash ((r # ranks) ! k)" if "k < n - i" for k
      using ih first that by (cases k) auto
    moreover have "(r # ranks) ! (n - i) = ranks ! (n - (i + 1))" using ih by (simp add: nth_Cons')
    ultimately show ?thesis using ih i by auto
  next
    case True
    then have "n = i" using rest by simp
    with True av wv show ?thesis by (simp add: amount_simps)
  qed
qed simp

text \<open>Shares rounded down add up to at most what is shared.\<close>

lemma sum_shares_le:
  fixes f :: "'a \<Rightarrow> int"
  assumes "\<forall>x\<in>set xs. 0 \<le> f x" "0 \<le> a"
  shows "(\<Sum>x\<leftarrow>take n xs. a * f x div (\<Sum>x\<leftarrow>xs. f x)) \<le> a"
proof -
  let ?t = "\<Sum>x\<leftarrow>xs. f x"
  have pre: "(\<Sum>x\<leftarrow>take n xs. f x) \<le> ?t"
  proof -
    have "?t = (\<Sum>x\<leftarrow>take n xs. f x) + (\<Sum>x\<leftarrow>drop n xs. f x)"
      by (metis append_take_drop_id map_append sum_list_append)
    moreover have "0 \<le> (\<Sum>x\<leftarrow>drop n xs. f x)"
      using assms(1) by (intro sum_list_nonneg) (auto dest: in_set_dropD)
    ultimately show ?thesis by simp
  qed
  have "0 \<le> ?t" using assms(1) by (intro sum_list_nonneg) auto
  then consider "?t = 0" | "0 < ?t" by linarith
  then show ?thesis
  proof cases
    case 2
    have "(\<Sum>x\<leftarrow>ys. a * f x div ?t) * ?t \<le> a * (\<Sum>x\<leftarrow>ys. f x)" for ys
    proof (induction ys)
      case (Cons y ys)
      have "a * f y div ?t * ?t \<le> a * f y" using 2 by (metis mult.commute zdiv_mono1 mult_div_mod_eq pos_mod_sign le_add_same_cancel1)
      with Cons show ?case by (simp add: algebra_simps)
    qed simp
    also have "a * (\<Sum>x\<leftarrow>take n xs. f x) \<le> a * ?t" using pre assms(2) by (rule mult_left_mono)
    finally show ?thesis using 2 by simp
  qed (use assms(2) in \<open>simp add: sum_list_0\<close>)
qed

lemma CalcBlockSubsidy_valid:
  assumes "SubsidyHalvingInterval_cfg cp \<noteq> 0" "CalcBlockSubsidy height cp b st = Ok (m, s)"
  shows "valid_amount m \<and> valid_amount s \<and> maxwell m + maxwell s \<le> gross_at (unat height)"
proof -
  have h: "word_of_nat (unat height) = height" "unat height < 2 ^ 64" using unat_u64_less [of height] by simp_all
  have "maxwell m + maxwell s \<le> gross_at (unat height)"
    using issued_le_gross [OF assms(1) h(2), of b st] assms(2) by (simp add: issued_def h(1))
  moreover have "0 \<le> maxwell m \<and> 0 \<le> maxwell s"
  proof (cases "EnforceMASSIP0002 height")
    case True
    then have "1404801 \<le> unat height" by (simp add: EnforceMASSIP0002_def params word_le_nat_alt)
    from calcBlockSubsidy_spec [OF assms(1) this h(2), of st] assms(2) True gross_range [of 25000000 "unat height - 1063680"]
    show ?thesis by (auto simp: CalcBlockSubsidy_def h(1) Let_def split: if_splits)
  next
    case False
    have "s * miner_share b g div 10000 \<le> s \<and> 0 \<le> s * miner_share b g div 10000" if "0 \<le> s" for s b g
      using that by (auto simp: miner_share_def)
    with calcBlockSubsidyBeforeIp2_spec [OF assms(1) h(2)] assms(2) False gross_range [of 6250000 "unat height"]
    show ?thesis by (auto simp: CalcBlockSubsidy_def h(1) Let_def split: if_splits)
  qed
  moreover have "gross_at (unat height) \<le> 102400000000" using gross_range by (simp add: gross_at_def)
  ultimately show ?thesis by (simp add: valid_amount_def)
qed

lemma checkCoinbase_Ok:
  assumes "\<forall>r\<in>set ranks. wf_rank r" "SubsidyHalvingInterval_cfg net \<noteq> 0"
    and "checkCoinbase tx ranks height hvb net = Ok reward"
  obtains miner superNode n where
    "CalcBlockSubsidy height net hvb (ranks \<noteq> []) = Ok (miner, superNode)"
    "extractCoinbaseStakingRewardNumber tx = Ok (word_of_nat n)"
    "n \<le> length ranks" "n \<le> length (tx_TxOut tx)"
    "n < length ranks \<longrightarrow> reward_share height ranks superNode (ranks ! n) = 0"
    "\<forall>k<n. Value (tx_TxOut tx ! k) = reward_share height ranks superNode (ranks ! k) \<and>
       PkScript (tx_TxOut tx ! k) = 0 # 32 # rk_ScriptHash (ranks ! k)"
    "valid_amount miner" "valid_amount superNode" "\<forall>r\<in>set ranks. 0 \<le> stake height r"
    "reward = mk_amount (maxwell miner + maxwell superNode)" "valid_amount reward"
proof -
  from assms(3) obtain num miner superNode w n where
    num: "extractCoinbaseStakingRewardNumber tx = Ok num"
    and sub: "CalcBlockSubsidy height net hvb (ranks \<noteq> []) = Ok (miner, superNode)"
    and w: "CalcTotalStakingWeight height (map staking_node.truncate ranks) = Ok w"
    and n: "check_rewards height superNode w (tx_TxOut tx) 0 ranks = Ok n" "word_of_nat n = num"
    and reward: "Amount_Add miner superNode = Ok reward"
    by (auto simp: checkCoinbase_def Let_def res_simps split: if_splits prod.splits)
  note valid = CalcBlockSubsidy_valid [OF assms(2) sub]
  note weight = total_weight [OF assms(1) w]
  have "n \<le> length ranks \<and> (0 < n \<longrightarrow> n \<le> length (tx_TxOut tx)) \<and>
      (n < length ranks \<longrightarrow> reward_share height ranks superNode (ranks ! n) = 0) \<and>
      (\<forall>k<n. Value (tx_TxOut tx ! k) = reward_share height ranks superNode (ranks ! k) \<and>
        PkScript (tx_TxOut tx ! k) = 0 # 32 # rk_ScriptHash (ranks ! k))"
    using check_rewards_Ok [OF _ _ assms(1) n(1)] valid weight by (simp add: reward_share_def)
  moreover have "reward = mk_amount (maxwell miner + maxwell superNode)" "valid_amount reward"
    using reward valid by (auto simp: amount_simps valid_amount_def split: if_splits)
  ultimately show thesis using that [of miner superNode n] num sub n valid weight by (cases "n = 0") simp_all
qed

text \<open>C5 (rewards of the staking nodes). In a coinbase that \<open>checkCoinbase\<close> accepts, the first outputs pay the
  ranked staking nodes, as many as the payload of the coinbase says: output \<open>k\<close> goes to the witness script
  hash of the node of rank \<open>k\<close> and pays exactly its share of the staking part of the subsidy, in proportion
  to its stake and rounded down. The first node that is not paid has a share of zero. Together the nodes
  receive at most the staking part of the subsidy.\<close>

theorem coinbase_staking_rewards:
  assumes "\<forall>r\<in>set ranks. wf_rank r" and "SubsidyHalvingInterval_cfg net \<noteq> 0"
    and "checkCoinbase tx ranks height hvb net = Ok reward"
  shows "\<exists>miner superNode n. CalcBlockSubsidy height net hvb (ranks \<noteq> []) = Ok (miner, superNode) \<and>
    extractCoinbaseStakingRewardNumber tx = Ok (word_of_nat n) \<and> n \<le> length ranks \<and> n \<le> length (tx_TxOut tx) \<and>
    (\<forall>k<n. Value (tx_TxOut tx ! k) = reward_share height ranks superNode (ranks ! k) \<and>
       PkScript (tx_TxOut tx ! k) = 0 # 32 # rk_ScriptHash (ranks ! k)) \<and>
    (n < length ranks \<longrightarrow> reward_share height ranks superNode (ranks ! n) = 0) \<and>
    (\<Sum>to\<leftarrow>take n (tx_TxOut tx). Value to) \<le> maxwell superNode"
proof -
  obtain miner superNode n where
    c: "CalcBlockSubsidy height net hvb (ranks \<noteq> []) = Ok (miner, superNode)"
    "extractCoinbaseStakingRewardNumber tx = Ok (word_of_nat n)" "n \<le> length ranks" "n \<le> length (tx_TxOut tx)"
    "n < length ranks \<longrightarrow> reward_share height ranks superNode (ranks ! n) = 0"
    "\<forall>k<n. Value (tx_TxOut tx ! k) = reward_share height ranks superNode (ranks ! k) \<and>
       PkScript (tx_TxOut tx ! k) = 0 # 32 # rk_ScriptHash (ranks ! k)"
    and v: "valid_amount superNode" "\<forall>r\<in>set ranks. 0 \<le> stake height r"
    using checkCoinbase_Ok [OF assms] by metis
  have "map Value (take n (tx_TxOut tx)) = map (reward_share height ranks superNode) (take n ranks)"
    by (rule nth_equalityI) (use c in auto)
  then have "(\<Sum>to\<leftarrow>take n (tx_TxOut tx). Value to) =
      (\<Sum>r\<leftarrow>take n ranks. maxwell superNode * stake height r div (\<Sum>r\<leftarrow>ranks. stake height r))"
    by (simp add: reward_share_def [abs_def])
  also have "\<dots> \<le> maxwell superNode"
    by (rule sum_shares_le) (use v in \<open>simp_all add: valid_amount_def\<close>)
  finally show ?thesis using c by blast
qed

text \<open>A coinbase at height 1100 with one staking node: 18.75 percent of the subsidy of 1024 MASS go to the miner.\<close>

definition sample_params :: chain_params where
  "sample_params = \<lparr> PocLimit = 1048575, SubsidyHalvingInterval_cfg = 13440 \<rparr>"

definition sample_rank :: Rank where
  "sample_rank = \<lparr> GetValue = 700, GetWeight = Uint128 9, rk_ScriptHash = replicate 32 1 \<rparr>"

definition sample_reward_tx :: MsgTx where
  "sample_reward_tx = sample_coinbase\<lparr>
     tx_TxOut := [\<lparr> Value = 83200000000, PkScript = 0 # 32 # replicate 32 1 \<rparr>, \<lparr> Value = 19200000050, PkScript = [] \<rparr>],
     tx_Payload := standardCoinbasePayload 1100 1 \<rparr>"

lemma sample_subsidy:
  "CalcBlockSubsidy 1100 sample_params False True = Ok (mk_amount 19200000000, mk_amount 83200000000)"
proof -
  have "gross 6250000 1100 = 102400000000"
    using gross_period [of 0 1100 6250000] by (simp add: period_start_def)
  then show ?thesis
    using calcBlockSubsidyBeforeIp2_spec [of sample_params 1100 False True True]
    by (simp add: CalcBlockSubsidy_def EnforceMASSIP0002_def EnforceMASSIP0002WarmUp_def params sample_params_def
        miner_share_def Let_def)
qed

lemma sample_reward_num: "extractCoinbaseStakingRewardNumber sample_reward_tx = Ok 1"
  using CoinbasePayload_roundtrip [of "\<lparr> cp_height = 1100, cp_numStakingReward = 1 \<rparr>" "[]"]
  by (auto simp: extractCoinbaseStakingRewardNumber_def sample_reward_tx_def standardCoinbasePayload_def
      CoinbasePayload_SetBytes_def CoinbasePayload_Bytes_def le_Uint32_def le_PutUint32_def le_val_put_le)

lemma sample_check: "checkCoinbase sample_reward_tx [sample_rank] 1100 False sample_params = Ok (mk_amount 102400000000)"
proof -
  have p: "payToWitnessScriptHashScript (replicate 32 1) = Ok (0 # 32 # replicate 32 1)"
    by (rule pay_script_forms(1)) simp
  have o: "tx_TxOut sample_reward_tx = [\<lparr> Value = 83200000000, PkScript = 0 # 32 # replicate 32 1 \<rparr>, \<lparr> Value = 19200000050, PkScript = [] \<rparr>]"
    by (simp add: sample_reward_tx_def)
  show ?thesis
    unfolding checkCoinbase_def sample_reward_num
    by (simp add: sample_subsidy sample_rank_def CalcTotalStakingWeight_def CalcStakingNodeWeight_def params
        staking_node.truncate_def u128_simps int64_def validated_spec NewUint128_def NewUint128FromInt_def
        calcNodeReward_def Uint128_Mul_def valid_u128_def NewAmount_def checkedAmount_spec amount_simps
        check_reward_output_def valid_amount_def o p)
qed

theorem coinbase_staking_rewards_witness:
  "checkCoinbase sample_reward_tx [sample_rank] 1100 False sample_params = Ok (mk_amount 102400000000) \<and>
   (\<exists>n. extractCoinbaseStakingRewardNumber sample_reward_tx = Ok (word_of_nat n) \<and>
     (\<Sum>to\<leftarrow>take n (tx_TxOut sample_reward_tx). Value to) \<le> 83200000000)"
proof -
  have "wf_rank sample_rank" by (simp add: wf_rank_def sample_rank_def valid_u128_def int64_def)
  then show ?thesis
    using coinbase_staking_rewards [OF _ _ sample_check] sample_check sample_subsidy by (auto simp: sample_params_def)
qed

section \<open>What a block creates\<close>

text \<open>C1 (a block creates at most its subsidy). For a block whose input checks pass with total fees \<open>fees\<close> and
  whose coinbase is accepted with these fees, the value of all outputs the block creates, coinbase included,
  is at most the value of the outputs it spends plus the subsidy of its height, as exact integers. Together
  with the cap on the issued subsidies this bounds the supply.\<close>

theorem block_creates_at_most_subsidy:
  assumes "wf_store st" and "\<forall>tx\<in>set txs. wf_values tx"
    and "\<forall>tx\<in>set (tl txs). \<not> IsCoinBaseTx tx" and "SubsidyHalvingInterval_cfg net \<noteq> 0"
    and "stakingRanks env = Ok ranks" and "\<forall>r\<in>set ranks. wf_rank r"
    and "check_block_inputs B (ch_Height header) warmUp 0 txs zeroAmount st = (st', Ok fees)"
    and "validateCoinbase env header txs st' fees net = Ok ()"
  shows "(\<Sum>tx\<leftarrow>txs. \<Sum>to\<leftarrow>tx_TxOut tx. Value to) \<le>
    (\<Sum>op\<leftarrow>concat (map spent_outpoints txs). out_value st op) + gross_at (unat (ch_Height header))"
proof -
  from assms(5,8) obtain cb rest hvb reward bound out where txs: "txs = cb # rest"
    and reward: "checkCoinbase cb ranks (ch_Height header) hvb net = Ok reward"
    and bound: "Amount_Add reward fees = Ok bound"
    and out: "foldR (\<lambda>txOut t. Amount_AddInt t (Value txOut)) (tx_TxOut cb) zeroAmount = Ok out"
    and le: "\<not> Amount_Cmp out bound > 0"
    by (cases txs) (auto simp: validateCoinbase_def res_simps split: if_splits)
  note inputs = check_block_inputs_Ok [OF assms(1,2) valid_zeroAmount assms(7)]
  obtain miner superNode where sub: "CalcBlockSubsidy (ch_Height header) net hvb (ranks \<noteq> []) = Ok (miner, superNode)"
    and r: "maxwell reward = maxwell miner + maxwell superNode" "valid_amount reward"
    using checkCoinbase_Ok [OF assms(6,4) reward] by (metis amount.sel uint128.sel)
  have "maxwell reward \<le> gross_at (unat (ch_Height header))" using CalcBlockSubsidy_valid [OF assms(4) sub] r by simp
  moreover have "maxwell bound = maxwell reward + maxwell fees"
    using bound r inputs by (auto simp: amount_simps split: if_splits)
  moreover have "maxwell out = (\<Sum>to\<leftarrow>tx_TxOut cb. Value to)"
    using amount_sum.total_Ok [of "map Value (tx_TxOut cb)" 0 out] out assms(2) txs
    by (auto simp: foldR_outputs zeroAmount_mk wf_values_def)
  moreover have "maxwell out \<le> maxwell bound" using le by (simp add: amount_simps)
  moreover have "0 \<le> created_value cb" if "\<not> IsCoinBaseTx cb"
    using amount_sum.total_Ok [of "map Value (tx_TxOut cb)" 0 out] out assms(2) txs that
    by (auto simp: foldR_outputs zeroAmount_mk wf_values_def created_value_def intro!: sum_list_nonneg)
  then have "0 \<le> created_value cb" by (cases "IsCoinBaseTx cb") (simp_all add: created_value_def)
  moreover have "(\<Sum>tx\<leftarrow>rest. created_value tx) = (\<Sum>tx\<leftarrow>rest. \<Sum>to\<leftarrow>tx_TxOut tx. Value to)"
    using assms(3) txs by (intro arg_cong [where f = sum_list] map_cong) (simp_all add: created_value_def)
  ultimately show ?thesis using inputs txs by (simp add: zeroAmount_mk)
qed

definition sample_env :: coinbase_env where
  "sample_env = \<lparr> ripemd160 = (\<lambda>_. replicate 20 0), stakingRanks = Ok [sample_rank], bindingTrie = Ok (\<lambda>_. Ok None) \<rparr>"

definition sample_header :: coinbase_header where
  "sample_header = \<lparr> ch_Height = 1100, ch_PubKey = [], ch_ProofType = ProofTypeDefault, ch_BitLength = 32,
     ch_PoolPk = Ok None, ch_PlotID = Ok [] \<rparr>"

lemma sample_validate: "validateCoinbase sample_env sample_header [sample_reward_tx, sample_spend] s (mk_amount 50) sample_params = Ok ()"
proof -
  have "valid_binding sample_env sample_header sample_reward_tx s (replicate 20 0) = Ok False"
    by (simp add: valid_binding_def sample_header_def EnforceMASSIP0002WarmUp_def params checkCoinbaseInputs_def
        sample_reward_tx_def sample_coinbase_def GetRequiredBinding_def bindingPriceSinceGenesis_def init_sinceGenesis_ok
        genesis_required_def Amount_Cmp_simps zeroAmount_mk not_le)
  moreover have "pkToScriptHash sample_env (ch_PubKey sample_header) = Ok (replicate 20 0)" "stakingRanks sample_env = Ok [sample_rank]"
    "ch_Height sample_header = 1100"
    by (simp_all add: pkToScriptHash_def Hash160_def sample_env_def sample_header_def)
  moreover have "tx_TxOut sample_reward_tx = [\<lparr> Value = 83200000000, PkScript = 0 # 32 # replicate 32 1 \<rparr>, \<lparr> Value = 19200000050, PkScript = [] \<rparr>]"
    by (simp add: sample_reward_tx_def)
  ultimately show ?thesis
    by (simp add: validateCoinbase_def sample_check amount_simps valid_amount_def zeroAmount_mk int64_def not_less)
qed

theorem block_creates_at_most_subsidy_witness:
  "(\<Sum>tx\<leftarrow>[sample_reward_tx, sample_spend]. \<Sum>to\<leftarrow>tx_TxOut tx. Value to) = 102400000500 \<and>
   102400000500 \<le> out_value sample_store \<lparr> op_Hash = sample_hash, op_Index = 0 \<rparr> + gross_at 1100"
proof -
  have cb: "IsCoinBaseTx sample_reward_tx" "\<not> IsCoinBaseTx sample_spend"
    by (simp_all add: IsCoinBaseTx_def sample_reward_tx_def samples Let_def)
  have f: "tx_TxIn sample_reward_tx = tx_TxIn sample_coinbase" by (simp add: sample_reward_tx_def)
  obtain st' where run: "check_block_inputs sample_bls (ch_Height sample_header) False 0 [sample_reward_tx, sample_spend] zeroAmount sample_store =
      (st', Ok (mk_amount 50))"
    by (simp add: CheckTransactionInputs_def cb f sample_fields spend_input_def checkTxInMaturity_def checkDupSpend_def
        add_output_def check_pool_payload_def params amount_simps valid_amount_def zeroAmount_mk int64_def
        TxWitness_PlainSize_def sample_store_def sample_header_def Let_def)
  have "wf_store sample_store"
    by (auto simp: wf_store_def wf_entry_def wf_values_def sample_store_def sample_coinbase_def int64_def)
  moreover have "\<forall>tx\<in>set [sample_reward_tx, sample_spend]. wf_values tx"
    by (simp add: wf_values_def sample_reward_tx_def samples int64_def)
  moreover have "wf_rank sample_rank" by (simp add: wf_rank_def sample_rank_def valid_u128_def int64_def)
  ultimately have "(\<Sum>tx\<leftarrow>[sample_reward_tx, sample_spend]. \<Sum>to\<leftarrow>tx_TxOut tx. Value to) \<le>
      (\<Sum>op\<leftarrow>concat (map spent_outpoints [sample_reward_tx, sample_spend]). out_value sample_store op) +
      gross_at (unat (ch_Height sample_header))"
    using cb by (intro block_creates_at_most_subsidy [OF _ _ _ _ _ _ run sample_validate, of "[sample_rank]"])
      (simp_all add: sample_params_def sample_env_def)
  then show ?thesis
    by (simp add: spent_outpoints_def cb sample_fields sample_header_def) (simp add: sample_reward_tx_def)
qed

end
