(* ===== verification/Spec2Isabelle.thy ===== *)
theory Spec2Isabelle
  imports Reward Difficulty Spending Signatures Tx_Lookup Coinbase Merkle
begin

text \<open>
  A verification of the consensus rules of mass-core, the full node of the MASS blockchain (Go, under \<^verbatim>\<open>src/\<close>).

  \<^bold>\<open>The program.\<close> A block pays a subsidy (\<^verbatim>\<open>blockchain/reward_logic.go\<close>) in amounts with checked arithmetic
  (\<^verbatim>\<open>massutil/amount.go\<close>, \<^verbatim>\<open>massutil/safetype/uint128.go\<close>); its target follows the parent's
  (\<^verbatim>\<open>consensus/difficulty\<close>), and what a miner must bind follows the total binding of the network
  (\<^verbatim>\<open>consensus/forks\<close>). Transactions (\<^verbatim>\<open>wire/msgtx.go\<close>, \<^verbatim>\<open>wire/pb/tx.go\<close>) spend outputs whose scripts
  (\<^verbatim>\<open>txscript\<close>) pay to the hash of a redeem script, optionally with a frozen period (staking) or a binding target.
  To spend an output, the script engine runs the output script and the scripts of the witness and checks
  signatures over a hash of the transaction. Connecting a block (\<^verbatim>\<open>blockchain/validate.go\<close>) looks up the transactions
  its inputs refer to (\<^verbatim>\<open>blockchain/txlookup.go\<close>), checks maturity and double spending and adds up the fees; the coinbase
  (\<^verbatim>\<open>blockchain/validate_coinbase.go\<close>) then pays at most the subsidy and the fees, and pays the ranked staking nodes
  (\<^verbatim>\<open>database/sort.go\<close>) their shares. The transactions of a block are hashed into a merkle tree (\<^verbatim>\<open>wire/merkle.go\<close>).

  \<^bold>\<open>The model.\<close> Every function of the modelled files is one HOL function with the name of the source, composed
  as the code composes them; methods that clash carry the type as a prefix. Fallible code returns the type \<open>res\<close>
  of \<open>Go_Prelude\<close>: a value, an error or a panic. Words keep their width; \<^verbatim>\<open>int64\<close> and \<^verbatim>\<open>big.Int\<close> values are integers,
  wrapped where the code can overflow. State is passed explicitly. Code outside of \<^verbatim>\<open>src/\<close>, the elliptic curve
  library and RIPEMD-160, is a record of functions that the definitions take as an argument (\<open>crypto\<close> in \<open>SigHash\<close>),
  with the hypothesis \<open>crypto_ok\<close> where a theorem relies on it. The BLS library is the record \<open>bls\<close> of \<open>Payload\<close>, the calls
  of the database are the record \<open>chain_db\<close> of \<open>Tx_Lookup\<close>, and what the check of a coinbase takes from the rest of the
  chain is the record \<open>coinbase_env\<close> of \<open>Coinbase\<close>.

  \<^item> \<open>Go_Prelude\<close>: the result type and its rules, machine integers, \<^verbatim>\<open>encoding/binary\<close>, \<^verbatim>\<open>math/big\<close>.
  \<^item> \<open>Uint128\<close>, \<open>Amount\<close>: the checked arithmetic. Every operation is exact or reports its error; bytes and decimal
    text are read back; totals of lists of values are exact. The locale \<open>safe_accumulator\<close> is what loops over amounts
    rely on.
  \<^item> \<open>Consensus_Params\<close>, \<open>Forks\<close>, \<open>Difficulty\<close>, \<open>Reward\<close>: the constants, the rules that depend on the height, the
    price of a binding, the retarget rule and the subsidy. The supply stays within the maximum amount for every
    choice of flags; the split of a subsidy is given for every height and every choice of flags, against a halving
    schedule that is stated without the code's loop; the price search returns the price of the right interval up to
    55,000,000 MASS, and the price never rises with the binding; from 111,000,000 MASS on it returns neither a
    price nor an error. The search carries fuel, one unit for each iteration: \<open>2 ^ 23\<close> units are enough in the first case; in
    the last it is still searching below \<open>2 ^ 62 - 30\<close> units, where the product of the index and 100 wraps around to
    zero and the division panics.
  \<^item> \<open>Go_Hash\<close>, \<open>Wire_Tx\<close>: SHA-256 and SHA-1 as executable functions, and transactions with their encodings. The
    protobuf form is read back; on transactions of one shape the id encoding is injective, across shapes it is not.
  \<^item> \<open>ScriptNum\<close>, \<open>Script_Stack\<close>, \<open>Opcode\<close>, \<open>Script\<close>, \<open>ScriptBuilder\<close>, \<open>Standard\<close>: numbers, stacks, the opcode table,
    parsing, the forms of scripts, the builder and the standard scripts. Numbers and scripts are read back; the
    stack operations do what their names say (locale \<open>indexed_stack\<close>); what the constructors build is recognized.
  \<^item> \<open>SigHash\<close>: the hash that signatures sign, its cache and the cache of verified signatures (locale \<open>fact_cache\<close>).
    What a signature commits to, for each of the six hash types; checking through the cache agrees with verifying.
  \<^item> \<open>Engine_Ops\<close>, \<open>Engine\<close>, \<open>Spending\<close>, \<open>Signatures\<close>: the handlers of all opcodes, stepping and execution. Every
    handler keeps the frame and an invariant; execution ends within 30008 steps, the bound being 10000 instructions
    for each of three scripts, their ends and the script of a lock; the invariant holds in every reachable engine; a
    successful execution means, for each kind of output, a fitting witness and a sufficient sequence number; the
    encoding check accepts exactly strict DER and panics on one class of signatures; \<^verbatim>\<open>OP_CHECKMULTISIG\<close> decides
    whether an order-preserving assignment of keys exists.
  \<^item> \<open>Payload\<close>, \<open>Tx_Validate\<close>, \<open>Tx_Lookup\<close>: payloads, the checks of transactions and of the inputs of a block, and the
    store of the transactions they refer to. A payload is read exactly when it is signed; the context free checks
    accept exactly the sane transactions; the transactions of an accepted block spend different, unspent and mature
    outputs, and value in equals value out plus fees; disconnecting a block undoes connecting it when the
    store agrees with the database and the spent outputs were unspent; counting signature
    operations panics on an empty witness.
  \<^item> \<open>Staking\<close>, \<open>Coinbase\<close>: the maps of staking outputs, the ranking of staking nodes and the check of the coinbase. The
    ranking does not depend on the order of iteration over a Go map; an accepted coinbase pays the ranked nodes their
    shares; a block creates at most its subsidy.
  \<^item> \<open>Merkle\<close>: the array that holds the merkle tree; its last entry is the root of the recursive definition. The
    logarithm in floating point that the code takes of the number of leaves is the length of its binary form.

  \<^bold>\<open>Not modelled.\<close> Floating point conversions of amounts; disassembly and log messages; locking of the caches; the
  generated protobuf marshalling; the checks of block headers and the walk over the block tree, which need the proof
  of capacity, a C++ library, and the nodes of the tree; the parts of the node that read or write a database, a file
  or the network (indices, pools, templates, synchronization); the curve arithmetic, and configuration.
\<close>

end
